(* ===== verification/NM_Prelude.thy ===== *)
theory NM_Prelude
  imports Main "HOL-Library.Word"
begin

unbundle bit_operations_syntax

text \<open>
  The shared vocabulary of the development: the fixed-width integers of the C++ code, buffers
  behind possibly-null pointers, the little-endian byte helpers \<^verbatim>\<open>put16\<close>, \<^verbatim>\<open>put32\<close>,
  \<^verbatim>\<open>put64\<close>, \<^verbatim>\<open>get16\<close>, \<^verbatim>\<open>get32\<close> and \<^verbatim>\<open>get64\<close> that
  \<^verbatim>\<open>src/record.cpp\<close>, \<^verbatim>\<open>src/crypto.cpp\<close>, \<^verbatim>\<open>src/session.cpp\<close> and
  \<^verbatim>\<open>src/messages.cpp\<close> each repeat, and the lemma collections that evaluate a codec:
  \<^item> \<open>codec_simps\<close> pushes a write or a read at a fixed offset through a concatenation;
  \<^item> \<open>rejoin_simps\<close> glues the fields read from a buffer back into a prefix of the buffer.
\<close>

named_theorems codec_simps
named_theorems rejoin_simps

type_synonym byte = "8 word"
type_synonym u16 = "16 word"
type_synonym u32 = "32 word"
type_synonym u64 = "64 word"

text \<open>
  A \<^verbatim>\<open>std::uint8_t*\<close> parameter: \<open>None\<close> is \<^verbatim>\<open>nullptr\<close>, \<open>Some bs\<close> the memory the
  pointer addresses. A \<^verbatim>\<open>std::size_t\<close> is a \<open>nat\<close>: every length in the program is
  compared with a small constant before it is used.
\<close>

type_synonym ptr = "byte list option"

section \<open>Little-endian bytes\<close>

definition word_bytes :: "nat \<Rightarrow> 'a::len word \<Rightarrow> byte list" where
  "word_bytes n v = map (\<lambda>i. ucast (drop_bit (8 * i) v)) [0..<n]"

definition bytes_word :: "nat \<Rightarrow> byte list \<Rightarrow> nat \<Rightarrow> 'a::len word" where
  "bytes_word n bs off =
     fold (\<lambda>i v. v OR push_bit (8 * i) (ucast (bs ! (off + i)))) [0..<n] 0"

definition put16 :: "u16 \<Rightarrow> byte list" where
  "put16 v = [ucast (v AND 0xFF), ucast (drop_bit 8 v)]"

definition put32 :: "u32 \<Rightarrow> byte list" where
  "put32 v = word_bytes 4 v"

definition put64 :: "u64 \<Rightarrow> byte list" where
  "put64 v = word_bytes 8 v"

definition get16 :: "byte list \<Rightarrow> nat \<Rightarrow> u16" where
  "get16 p off = ucast (p ! off) OR push_bit 8 (ucast (p ! (off + 1)))"

definition get32 :: "byte list \<Rightarrow> nat \<Rightarrow> u32" where
  "get32 p off = bytes_word 4 p off"

definition get64 :: "byte list \<Rightarrow> nat \<Rightarrow> u64" where
  "get64 p off = bytes_word 8 p off"

text \<open>
  A store of consecutive bytes at an offset of a buffer. Every call site stays inside the
  buffer; the length lemma below is stated for that case.
\<close>

definition put_at :: "byte list \<Rightarrow> nat \<Rightarrow> byte list \<Rightarrow> byte list" where
  "put_at buf off bs = take off buf @ bs @ drop (off + length bs) buf"

section \<open>Laws of the byte helpers\<close>

lemma length_word_bytes [simp]: "length (word_bytes n v) = n"
  by (simp add: word_bytes_def)

lemma length_put16 [simp]: "length (put16 v) = 2"
  by (simp add: put16_def)

lemma length_put32 [simp]: "length (put32 v) = 4"
  by (simp add: put32_def)

lemma length_put64 [simp]: "length (put64 v) = 8"
  by (simp add: put64_def)

lemma nth_word_bytes: "i < n \<Longrightarrow> word_bytes n v ! i = ucast (drop_bit (8 * i) v)"
  by (simp add: word_bytes_def)

lemma bit_bytes_word:
  "bit (bytes_word n bs off :: 'a::len word) k \<longleftrightarrow>
     k < LENGTH('a) \<and> k div 8 < n \<and> bit (bs ! (off + k div 8)) (k mod 8)"
proof (induction n)
  case 0
  then show ?case by (simp add: bytes_word_def)
next
  case (Suc n)
  have step: "bytes_word (Suc n) bs off =
      (bytes_word n bs off OR push_bit (8 * n) (ucast (bs ! (off + n))) :: 'a word)"
    by (simp add: bytes_word_def)
  have here: "bit (bs ! (off + n)) (k - 8 * n) \<and> 8 * n \<le> k \<longleftrightarrow>
      k div 8 = n \<and> bit (bs ! (off + k div 8)) (k mod 8)"
  proof (cases "8 * n \<le> k \<and> k < 8 * n + 8")
    case True
    then obtain j where "k = 8 * n + j" and "j < 8"
      using le_Suc_ex by fastforce
    then show ?thesis by simp
  next
    case False
    then have "k div 8 \<noteq> n"
      by auto
    moreover have "\<not> (bit (bs ! (off + n)) (k - 8 * n) \<and> 8 * n \<le> k)"
      using False by (auto dest: bit_imp_le_length)
    ultimately show ?thesis by blast
  qed
  show ?case
    using Suc.IH here by (auto simp: step bit_simps less_Suc_eq)
qed

lemma put16_word_bytes: "put16 v = word_bytes 2 v"
proof -
  have mask: "(0xFF :: u16) = mask 8"
    by (simp add: mask_eq_exp_minus_1)
  have "ucast (v AND 0xFF) = (ucast v :: byte)"
    unfolding mask by (rule bit_eqI) (auto simp: bit_simps)
  then show ?thesis
    by (simp add: put16_def word_bytes_def numeral_2_eq_2)
qed

lemma get16_bytes_word: "get16 p off = bytes_word 2 p off"
  by (simp add: get16_def bytes_word_def numeral_2_eq_2)

lemmas put_word_bytes = put16_word_bytes put32_def put64_def
lemmas get_bytes_word = get16_bytes_word get32_def get64_def

text \<open>Reading back what was written.\<close>

lemma bytes_word_word_bytes:
  assumes "LENGTH('a) \<le> 8 * n"
  shows "bytes_word n (word_bytes n v @ rest) 0 = (v :: 'a::len word)"
proof (rule bit_word_eqI)
  fix k
  assume k: "k < LENGTH('a)"
  then have small: "k div 8 < n"
    using assms by auto
  have split: "8 * (k div 8) + k mod 8 = k"
    by simp
  have "bit (word_bytes n v ! (k div 8)) (k mod 8) \<longleftrightarrow> bit v k"
    using small split by (simp add: nth_word_bytes bit_simps)
  then show "bit (bytes_word n (word_bytes n v @ rest) 0 :: 'a word) k \<longleftrightarrow> bit v k"
    using k small by (simp add: bit_bytes_word nth_append)
qed

lemma get16_put16 [codec_simps]: "get16 (put16 v @ rest) 0 = v"
  by (simp add: get16_bytes_word put16_word_bytes bytes_word_word_bytes)

lemma get32_put32 [codec_simps]: "get32 (put32 v @ rest) 0 = v"
  by (simp add: get32_def put32_def bytes_word_word_bytes)

lemma get64_put64 [codec_simps]: "get64 (put64 v @ rest) 0 = v"
  by (simp add: get64_def put64_def bytes_word_word_bytes)

lemma get16_put16_end [codec_simps]: "get16 (put16 v) 0 = v"
  using get16_put16 [of v "[]"] by simp

lemma get32_put32_end [codec_simps]: "get32 (put32 v) 0 = v"
  using get32_put32 [of v "[]"] by simp

lemma get64_put64_end [codec_simps]: "get64 (put64 v) 0 = v"
  using get64_put64 [of v "[]"] by simp

text \<open>A read past a leading chunk is a read of the rest.\<close>

lemma bytes_word_skip:
  "length xs \<le> off \<Longrightarrow> bytes_word n (xs @ rest) off = bytes_word n rest (off - length xs)"
  by (simp add: bytes_word_def nth_append)

lemma get16_skip [codec_simps]:
  "length xs \<le> off \<Longrightarrow> get16 (xs @ rest) off = get16 rest (off - length xs)"
  by (simp add: get16_bytes_word bytes_word_skip)

lemma get32_skip [codec_simps]:
  "length xs \<le> off \<Longrightarrow> get32 (xs @ rest) off = get32 rest (off - length xs)"
  by (simp add: get32_def bytes_word_skip)

lemma get64_skip [codec_simps]:
  "length xs \<le> off \<Longrightarrow> get64 (xs @ rest) off = get64 rest (off - length xs)"
  by (simp add: get64_def bytes_word_skip)

lemma get16_skip1 [codec_simps]: "0 < off \<Longrightarrow> get16 (x # rest) off = get16 rest (off - 1)"
  using get16_skip [of "[x]" off rest] by simp

lemma get32_skip1 [codec_simps]: "0 < off \<Longrightarrow> get32 (x # rest) off = get32 rest (off - 1)"
  using get32_skip [of "[x]" off rest] by simp

lemma get64_skip1 [codec_simps]: "0 < off \<Longrightarrow> get64 (x # rest) off = get64 rest (off - 1)"
  using get64_skip [of "[x]" off rest] by simp

lemma nth_skip [codec_simps]: "length xs \<le> off \<Longrightarrow> (xs @ rest) ! off = rest ! (off - length xs)"
  by (simp add: nth_append)

lemma nth_skip1 [codec_simps]: "0 < off \<Longrightarrow> (x # rest) ! off = rest ! (off - 1)"
  by (cases off) simp_all

text \<open>A read looks only at the bytes it names.\<close>

lemma bytes_word_take:
  "off + n \<le> m \<Longrightarrow> m \<le> length bs \<Longrightarrow> bytes_word n (take m bs) off = bytes_word n bs off"
  by (auto simp: bytes_word_def intro!: fold_cong)

lemma get16_take [codec_simps]:
  "off + 2 \<le> m \<Longrightarrow> m \<le> length bs \<Longrightarrow> get16 (take m bs) off = get16 bs off"
  by (simp add: get16_bytes_word bytes_word_take)

lemma get32_take [codec_simps]:
  "off + 4 \<le> m \<Longrightarrow> m \<le> length bs \<Longrightarrow> get32 (take m bs) off = get32 bs off"
  by (simp add: get32_def bytes_word_take)

lemma get64_take [codec_simps]:
  "off + 8 \<le> m \<Longrightarrow> m \<le> length bs \<Longrightarrow> get64 (take m bs) off = get64 bs off"
  by (simp add: get64_def bytes_word_take)

text \<open>Writing back what was read.\<close>

lemma word_bytes_bytes_word:
  assumes "off + n \<le> length bs" and "8 * n \<le> LENGTH('a)"
  shows "word_bytes n (bytes_word n bs off :: 'a::len word) = take n (drop off bs)"
proof (rule nth_equalityI)
  show "length (word_bytes n (bytes_word n bs off :: 'a word)) = length (take n (drop off bs))"
    using assms(1) by simp
next
  fix i
  assume "i < length (word_bytes n (bytes_word n bs off :: 'a word))"
  then have i: "i < n" by simp
  have "ucast (drop_bit (8 * i) (bytes_word n bs off :: 'a word)) = bs ! (off + i)"
  proof (rule bit_word_eqI)
    fix k
    assume k: "k < LENGTH(8)"
    then have "(8 * i + k) div 8 = i" and "(8 * i + k) mod 8 = k" and "8 * i + k < LENGTH('a)"
      using i assms(2) by auto
    then show "bit (ucast (drop_bit (8 * i) (bytes_word n bs off :: 'a word)) :: byte) k
        \<longleftrightarrow> bit (bs ! (off + i)) k"
      using k i by (simp add: bit_simps bit_bytes_word)
  qed
  then show "word_bytes n (bytes_word n bs off :: 'a word) ! i = take n (drop off bs) ! i"
    using i assms(1) by (simp add: nth_word_bytes)
qed

lemma put16_get16 [rejoin_simps]:
  "off + 2 \<le> length bs \<Longrightarrow> put16 (get16 bs off) = take 2 (drop off bs)"
  by (simp add: get16_bytes_word put16_word_bytes word_bytes_bytes_word)

lemma put32_get32 [rejoin_simps]:
  "off + 4 \<le> length bs \<Longrightarrow> put32 (get32 bs off) = take 4 (drop off bs)"
  by (simp add: get32_def put32_def word_bytes_bytes_word)

lemma put64_get64 [rejoin_simps]:
  "off + 8 \<le> length bs \<Longrightarrow> put64 (get64 bs off) = take 8 (drop off bs)"
  by (simp add: get64_def put64_def word_bytes_bytes_word)

lemma take_drop_glue [rejoin_simps]:
  "off + m = off' \<Longrightarrow> take m (drop off bs) @ take n (drop off' bs) @ rest =
     take (m + n) (drop off bs) @ rest"
  by (simp add: take_add add.commute flip: append_assoc)

lemma take_drop_glue_end [rejoin_simps]:
  "off + m = off' \<Longrightarrow> take m (drop off bs) @ take n (drop off' bs) = take (m + n) (drop off bs)"
  by (simp add: take_add add.commute)

lemma nth_glue [rejoin_simps]:
  "off' = Suc off \<Longrightarrow> off < length bs \<Longrightarrow>
     bs ! off # take n (drop off' bs) @ rest = take (Suc n) (drop off bs) @ rest"
  by (simp add: Cons_nth_drop_Suc [symmetric])

lemma nth_glue_end [rejoin_simps]:
  "off' = Suc off \<Longrightarrow> off < length bs \<Longrightarrow>
     bs ! off # take n (drop off' bs) = take (Suc n) (drop off bs)"
  by (simp add: Cons_nth_drop_Suc [symmetric])

lemma nth_glue_0 [rejoin_simps]:
  "Suc n \<le> length bs \<Longrightarrow> bs ! 0 # take n (drop (Suc 0) bs) @ rest = take (Suc n) bs @ rest"
  by (cases bs) simp_all

lemma nth_glue_0_end [rejoin_simps]:
  "Suc n \<le> length bs \<Longrightarrow> bs ! 0 # take n (drop (Suc 0) bs) = take (Suc n) bs"
  by (cases bs) simp_all

lemma take_glue [rejoin_simps]:
  "take m bs @ take n (drop m bs) @ rest = take (m + n) bs @ rest"
  by (simp add: take_add flip: append_assoc)

lemma take_glue_end [rejoin_simps]: "take m bs @ take n (drop m bs) = take (m + n) bs"
  by (simp add: take_add)

lemma take_nth_glue [rejoin_simps]:
  "m < length bs \<Longrightarrow> take m bs @ bs ! m # rest = take (Suc m) bs @ rest"
  by (simp add: take_Suc_conv_app_nth)

lemma nth_pair_glue [rejoin_simps]:
  "off' = Suc off \<Longrightarrow> off' < length bs \<Longrightarrow>
     bs ! off # bs ! off' # rest = take 2 (drop off bs) @ rest"
  by (simp add: numeral_2_eq_2 Cons_nth_drop_Suc [symmetric])

lemma put16_eq_iff [simp]: "put16 v = put16 w \<longleftrightarrow> v = w"
  using get16_put16_end by metis

lemma put32_eq_iff [simp]: "put32 v = put32 w \<longleftrightarrow> v = w"
  using get32_put32_end by metis

lemma put64_eq_iff [simp]: "put64 v = put64 w \<longleftrightarrow> v = w"
  using get64_put64_end by metis

lemma xor_cancel [simp]: "a XOR b = a XOR c \<longleftrightarrow> b = (c :: 'a::len word)"
  by (auto simp: bit_eq_iff bit_simps)

section \<open>Writes into a buffer\<close>

lemma length_put_at [simp]: "off + length bs \<le> length buf \<Longrightarrow> length (put_at buf off bs) = length buf"
  by (simp add: put_at_def)

lemma put_at_skip [codec_simps]:
  "length xs \<le> off \<Longrightarrow> put_at (xs @ rest) off bs = xs @ put_at rest (off - length xs) bs"
  by (simp add: put_at_def)

lemma put_at_0 [codec_simps]: "put_at rest 0 bs = bs @ drop (length bs) rest"
  by (simp add: put_at_def)

lemma put_at_skip1 [codec_simps]:
  "0 < off \<Longrightarrow> put_at (x # rest) off bs = x # put_at rest (off - 1) bs"
  using put_at_skip [of "[x]" off rest bs] by simp

section \<open>Numbered lists\<close>

text \<open>Two lists related element by element, with consecutive numbers from \<open>q\<close>.\<close>

fun numbered :: "('q :: semiring_1 \<Rightarrow> 'a \<Rightarrow> 'b \<Rightarrow> bool) \<Rightarrow> 'q \<Rightarrow> 'a list \<Rightarrow> 'b list \<Rightarrow> bool" where
  "numbered R q [] [] = True"
| "numbered R q (x # xs) (y # ys) = (R q x y \<and> numbered R (q + 1) xs ys)"
| "numbered R q _ _ = False"

lemma numbered_length: "numbered R q xs ys \<Longrightarrow> length ys = length xs"
  by (induction R q xs ys rule: numbered.induct) auto

lemma numbered_append:
  "numbered R q xs ys \<Longrightarrow> numbered R (q + of_nat (length xs)) xs' ys' \<Longrightarrow> numbered R q (xs @ xs') (ys @ ys')"
  by (induction R q xs ys rule: numbered.induct) (auto simp: add.assoc)

lemma numbered_Cons: "numbered R q xs (y # ys) \<longleftrightarrow> (\<exists>x xs'. xs = x # xs' \<and> R q x y \<and> numbered R (q + 1) xs' ys)"
  by (cases xs) auto

lemma numbered_nth: "numbered R q xs ys \<Longrightarrow> i < length ys \<Longrightarrow> R (q + of_nat i) (xs ! i) (ys ! i)"
proof (induction R q xs ys arbitrary: i rule: numbered.induct)
  case (2 R q x xs y ys)
  then show ?case by (cases i) (auto simp: add.assoc add.left_commute)
qed auto

lemma numbered_map:
  assumes "numbered R q xs ys" and "\<And>q x y. x \<in> set xs \<Longrightarrow> R q x y \<Longrightarrow> S q (f x) y"
  shows "numbered S q (map f xs) ys"
  using assms by (induction R q xs ys rule: numbered.induct) auto

section \<open>State machines\<close>

text \<open>
  The contract of a state machine with an inductive invariant, and of one with final states, where
  what is observed of the state never changes again. The handshake endpoints, the QoS queue and the
  proxy interpret it.
\<close>

locale invariant_system =
  fixes init :: "'s \<Rightarrow> bool"
    and step :: "'s \<Rightarrow> 's \<Rightarrow> bool"
    and inv :: "'s \<Rightarrow> bool"
  assumes inv_init: "init s \<Longrightarrow> inv s"
    and inv_step: "inv s \<Longrightarrow> step s s' \<Longrightarrow> inv s'"
begin

lemma inv_run: "step\<^sup>*\<^sup>* s s' \<Longrightarrow> inv s \<Longrightarrow> inv s'"
  by (induction rule: rtranclp_induct) (auto intro: inv_step)

lemma inv_reachable: "init s \<Longrightarrow> step\<^sup>*\<^sup>* s s' \<Longrightarrow> inv s'"
  using inv_init inv_run by blast

end

locale final_state_system = invariant_system +
  fixes final :: "'a \<Rightarrow> bool" and obs :: "'a \<Rightarrow> 'b"
  assumes final_step: "inv s \<Longrightarrow> final s \<Longrightarrow> step s s' \<Longrightarrow> final s' \<and> obs s' = obs s"
begin

lemma final_run: "step\<^sup>*\<^sup>* s s' \<Longrightarrow> inv s \<Longrightarrow> final s \<Longrightarrow> final s' \<and> obs s' = obs s"
proof (induction rule: rtranclp_induct)
  case (step s' s'')
  then have "inv s'" using inv_run by blast
  with step show ?case using final_step [of s' s''] by simp
qed simp

end

end
