(* ===== verification/Crc16.thy ===== *)
theory Crc16
  imports NM_Prelude
begin

text \<open>
  The header checksum of \<^verbatim>\<open>src/crc16.cpp\<close>. \<open>crc_bit\<close> and \<open>crc_byte\<close> are the two loop
  bodies of \<^verbatim>\<open>crc16_ccitt\<close>. The lemmas show that the byte-wise routine is the bit-serial
  shift register of polynomial \<open>0x1021\<close>, and that one step is injective, from which error
  detection follows.
\<close>

section \<open>The routine\<close>

definition crc_bit :: "u16 \<Rightarrow> u16" where
  "crc_bit crc = (if crc AND 0x8000 \<noteq> 0 then push_bit 1 crc XOR 0x1021 else push_bit 1 crc)"

definition crc_byte :: "u16 \<Rightarrow> byte \<Rightarrow> u16" where
  "crc_byte crc b = (crc_bit ^^ 8) (crc XOR push_bit 8 (ucast b))"

definition crc16_ccitt :: "ptr \<Rightarrow> nat \<Rightarrow> u16" where
  "crc16_ccitt bytes len =
     (case bytes of
        None \<Rightarrow> if len \<noteq> 0 then 0 else 0xFFFF
      | Some bs \<Rightarrow> fold (\<lambda>i crc. crc_byte crc (bs ! i)) [0..<len] 0xFFFF)"

text \<open>The bit-serial shift register: one message bit at a time, most significant bit first.\<close>

definition shift_in :: "bool \<Rightarrow> u16 \<Rightarrow> u16" where
  "shift_in b crc = (if bit crc 15 \<noteq> b then push_bit 1 crc XOR 0x1021 else push_bit 1 crc)"

definition msb_first :: "byte \<Rightarrow> bool list" where
  "msb_first b = map (\<lambda>i. bit b (7 - i)) [0..<8]"

definition crc16_serial :: "byte list \<Rightarrow> u16" where
  "crc16_serial bs = fold shift_in (concat (map msb_first bs)) 0xFFFF"

section \<open>The routine as a left fold over the bytes\<close>

lemma fold_nth_upt: "n \<le> length bs \<Longrightarrow> fold (\<lambda>i c. f c (bs ! i)) [0..<n] c = foldl f c (take n bs)"
proof (induction n)
  case 0
  then show ?case by simp
next
  case (Suc n)
  then show ?case by (simp add: take_Suc_conv_app_nth)
qed

lemma crc16_ccitt_Some:
  "n \<le> length bs \<Longrightarrow> crc16_ccitt (Some bs) n = foldl crc_byte 0xFFFF (take n bs)"
  by (simp add: crc16_ccitt_def fold_nth_upt)

lemma crc16_ccitt_take: "n \<le> length bs \<Longrightarrow> crc16_ccitt (Some (take n bs)) n = crc16_ccitt (Some bs) n"
  by (simp add: crc16_ccitt_Some)

lemma crc16_ccitt_append:
  "length xs = n \<Longrightarrow> crc16_ccitt (Some (xs @ ys)) n = crc16_ccitt (Some xs) n"
  by (simp add: crc16_ccitt_Some)

section \<open>One step is linear and injective\<close>

lemma and_0x8000: "crc AND 0x8000 \<noteq> 0 \<longleftrightarrow> bit (crc :: u16) 15"
  using and_exp_eq_0_iff_not_bit [of crc 15] by simp

lemma crc_bit_bit: "crc_bit crc = (if bit crc 15 then push_bit 1 crc XOR 0x1021 else push_bit 1 crc)"
  by (simp add: crc_bit_def and_0x8000)

lemma less_16_cases:
  "k < 16 \<Longrightarrow> k = 0 \<or> k = 1 \<or> k = 2 \<or> k = 3 \<or> k = 4 \<or> k = 5 \<or> k = 6 \<or> k = 7 \<or>
     k = 8 \<or> k = 9 \<or> k = 10 \<or> k = 11 \<or> k = 12 \<or> k = 13 \<or> k = 14 \<or> k = (15::nat)"
  by arith

lemma bit_polynomial: "k < 16 \<Longrightarrow> bit (0x1021 :: u16) k \<longleftrightarrow> k = 0 \<or> k = 5 \<or> k = 12"
  by (auto dest!: less_16_cases)

lemma bit_crc_bit:
  assumes "k < 16"
  shows "bit (crc_bit a) k \<longleftrightarrow>
    (0 < k \<and> bit a (k - 1)) \<noteq> (bit a 15 \<and> (k = 0 \<or> k = 5 \<or> k = 12))"
proof -
  have shifted: "bit (push_bit 1 a) k \<longleftrightarrow> 0 < k \<and> bit a (k - 1)"
    using assms by (auto simp: bit_push_bit_iff simp del: One_nat_def)
  show ?thesis
    by (cases "bit a 15")
      (simp_all only: crc_bit_bit if_True if_False bit_xor_iff shifted bit_polynomial [OF assms]
        simp_thms)
qed

lemma crc_bit_xor: "crc_bit (a XOR b) = crc_bit a XOR crc_bit b"
  by (rule bit_word_eqI) (auto simp: bit_crc_bit bit_xor_iff)

lemma crc_bit_0 [simp]: "crc_bit 0 = 0"
  by (simp add: crc_bit_bit)

lemma crc_bits_xor: "(crc_bit ^^ n) (a XOR b) = (crc_bit ^^ n) a XOR (crc_bit ^^ n) b"
  by (induction n) (simp_all add: crc_bit_xor)

lemma crc_bit_eq_0: "crc_bit a = 0 \<Longrightarrow> a = 0"
proof -
  assume zero: "crc_bit a = 0"
  then have bits: "\<not> bit (crc_bit a) k" for k by simp
  have top: "\<not> bit a 15"
    using bits [of 0] by (simp add: bit_crc_bit)
  show "a = 0"
  proof (rule bit_word_eqI)
    fix k
    assume "k < LENGTH(16)"
    then consider "k = 15" | "k < 15" by fastforce
    then show "bit a k \<longleftrightarrow> bit (0 :: u16) k"
    proof cases
      case 1
      with top show ?thesis by simp
    next
      case 2
      with top show ?thesis using bits [of "Suc k"] by (simp add: bit_crc_bit)
    qed
  qed
qed

lemma xor_eq_0_iff_eq: "a XOR b = 0 \<longleftrightarrow> a = (b :: 'a::len word)"
  by (auto simp: bit_eq_iff bit_simps)

lemma crc_bits_inj: "(crc_bit ^^ n) a = (crc_bit ^^ n) b \<longleftrightarrow> a = b"
proof -
  have zero: "(crc_bit ^^ n) c = 0 \<Longrightarrow> c = 0" for c
    by (induction n) (auto dest: crc_bit_eq_0)
  show ?thesis
    using zero [of "a XOR b"] by (auto simp: crc_bits_xor xor_eq_0_iff_eq)
qed

lemma crc_byte_inj_state: "crc_byte a x = crc_byte b x \<longleftrightarrow> a = b"
proof -
  have "a XOR c = b XOR c \<longleftrightarrow> a = b" for c :: u16
    using xor_eq_0_iff_eq by (auto simp: bit_eq_iff bit_simps)
  then show ?thesis by (simp add: crc_byte_def crc_bits_inj)
qed

lemma push_ucast_inj: "push_bit 8 (ucast x) = (push_bit 8 (ucast y) :: u16) \<longleftrightarrow> x = (y :: byte)"
proof
  assume eq: "push_bit 8 (ucast x) = (push_bit 8 (ucast y) :: u16)"
  show "x = y"
  proof (rule bit_word_eqI)
    fix k
    assume k: "k < LENGTH(8)"
    from eq have "bit (push_bit 8 (ucast x) :: u16) (8 + k) = bit (push_bit 8 (ucast y) :: u16) (8 + k)"
      by simp
    with k show "bit x k = bit y k" by (simp add: bit_simps)
  qed
qed simp

lemma crc_byte_inj_byte: "crc_byte a x = crc_byte a y \<longleftrightarrow> x = y"
proof -
  have "a XOR c = a XOR d \<longleftrightarrow> c = d" for c d :: u16
    by (auto simp: bit_eq_iff bit_simps)
  then show ?thesis by (simp add: crc_byte_def crc_bits_inj push_ucast_inj)
qed

lemma foldl_crc_byte_inj: "foldl crc_byte a xs = foldl crc_byte b xs \<longleftrightarrow> a = b"
  by (induction xs arbitrary: a b) (simp_all add: crc_byte_inj_state)

section \<open>Burst errors\<close>

text \<open>
  No non-zero byte shifts through the register into a value whose low byte is zero: the eight
  low bits of the result are exclusive-ors of the bits of the byte, and the system has only the
  zero solution.
\<close>

lemma bit_push_ucast:
  "bit (push_bit 8 (ucast (x :: byte)) :: u16) k \<longleftrightarrow> 8 \<le> k \<and> k < 16 \<and> bit x (k - 8)"
  by (auto simp: bit_simps)

lemma crc_8_unroll:
  "(crc_bit ^^ 8) w = crc_bit (crc_bit (crc_bit (crc_bit (crc_bit (crc_bit (crc_bit (crc_bit w)))))))"
  by (simp add: numeral_eq_Suc)

lemma crc_8_low_bits:
  fixes w :: u16
  assumes low: "\<And>k. k < 8 \<Longrightarrow> \<not> bit w k"
    and zero: "\<And>k. k < 8 \<Longrightarrow> \<not> bit ((crc_bit ^^ 8) w) k"
  shows "w = 0"
proof -
  have r4: "\<not> bit w 12"
    using zero [of 4] by (simp add: crc_8_unroll bit_crc_bit low)
  have r0: "\<not> bit w 8"
    using zero [of 0] r4 by (simp add: crc_8_unroll bit_crc_bit low)
  have r5: "\<not> bit w 13"
    using zero [of 5] r0 r4 by (simp add: crc_8_unroll bit_crc_bit low)
  have r1: "\<not> bit w 9"
    using zero [of 1] r0 r4 r5 by (simp add: crc_8_unroll bit_crc_bit low)
  have r6: "\<not> bit w 14"
    using zero [of 6] r0 r1 r4 r5 by (simp add: crc_8_unroll bit_crc_bit low)
  have r2: "\<not> bit w 10"
    using zero [of 2] r0 r1 r4 r5 r6 by (simp add: crc_8_unroll bit_crc_bit low)
  have r7: "\<not> bit w 15"
    using zero [of 7] r0 r1 r2 r4 r5 r6 by (simp add: crc_8_unroll bit_crc_bit low)
  have r3: "\<not> bit w 11"
    using zero [of 3] r0 r1 r2 r4 r5 r6 r7 by (simp add: crc_8_unroll bit_crc_bit low)
  show ?thesis
  proof (rule bit_word_eqI)
    fix k
    assume "k < LENGTH(16)"
    then have "k < 8 \<or> k = 8 \<or> k = 9 \<or> k = 10 \<or> k = 11 \<or> k = 12 \<or> k = 13 \<or> k = 14 \<or> k = 15"
      by auto
    then show "bit w k = bit (0 :: u16) k"
      using low r0 r1 r2 r3 r4 r5 r6 r7 by auto
  qed
qed

text \<open>
  Two bytes in a row: if the register agrees after both, both bytes were the same. With the
  injectivity of the remaining steps this detects every error burst inside two adjacent bytes.
\<close>

lemma crc_two_bytes:
  assumes "crc_byte (crc_byte c a) b = crc_byte (crc_byte c a') b'"
  shows "a = a' \<and> b = b'"
proof -
  let ?sh = "\<lambda>x :: byte. push_bit 8 (ucast x) :: u16"
  let ?w = "?sh a XOR ?sh a'"
  have "crc_byte c a XOR ?sh b = crc_byte c a' XOR ?sh b'"
    using assms by (simp only: crc_byte_def [of "crc_byte c _"] crc_bits_inj)
  then have "crc_byte c a XOR crc_byte c a' = ?sh b XOR ?sh b'"
    by (auto simp: bit_eq_iff bit_xor_iff)
  moreover have "crc_byte c a XOR crc_byte c a' = (crc_bit ^^ 8) ?w"
    by (simp only: crc_byte_def crc_bits_xor) (auto simp: bit_eq_iff bit_xor_iff)
  ultimately have image: "(crc_bit ^^ 8) ?w = ?sh b XOR ?sh b'" by simp
  have "?w = 0"
    by (rule crc_8_low_bits) (simp_all only: image bit_xor_iff bit_push_ucast, simp_all)
  then have "?sh a = ?sh a'"
    by (simp only: xor_eq_0_iff_eq)
  then have a: "a = a'"
    by (simp only: push_ucast_inj)
  with assms have "b = b'"
    by (simp only: crc_byte_inj_byte)
  with a show ?thesis by simp
qed

lemma crc_burst:
  assumes "length pre + 2 + length post = n" and "(a, b) \<noteq> (a', b')"
  shows "crc16_ccitt (Some (pre @ [a, b] @ post)) n \<noteq> crc16_ccitt (Some (pre @ [a', b'] @ post)) n"
proof
  assume "crc16_ccitt (Some (pre @ [a, b] @ post)) n = crc16_ccitt (Some (pre @ [a', b'] @ post)) n"
  then have "foldl crc_byte 0xFFFF (pre @ [a, b] @ post) = foldl crc_byte 0xFFFF (pre @ [a', b'] @ post)"
    using assms(1) by (simp add: crc16_ccitt_Some)
  then have "crc_byte (crc_byte (foldl crc_byte 0xFFFF pre) a) b =
      crc_byte (crc_byte (foldl crc_byte 0xFFFF pre) a') b'"
    by (simp add: foldl_crc_byte_inj)
  then have "a = a' \<and> b = b'" by (rule crc_two_bytes)
  with assms(2) show False by simp
qed

section \<open>The bit-serial register\<close>

definition top_bit :: "bool \<Rightarrow> u16" where
  "top_bit b = (if b then 0x8000 else 0)"

lemma bit_top_bit: "bit (top_bit b) k \<longleftrightarrow> b \<and> k = 15"
  using bit_exp_iff [where 'a = "16 word", of 15 k] by (auto simp: top_bit_def)

lemma shift_in_crc_bit: "shift_in b c = crc_bit (c XOR top_bit b)"
proof (rule bit_word_eqI)
  fix k
  assume "k < LENGTH(16)"
  then have k: "k < 16" by simp
  have shifted: "bit (push_bit 1 c) k \<longleftrightarrow> 0 < k \<and> bit c (k - 1)"
    using k by (auto simp: bit_push_bit_iff simp del: One_nat_def)
  have "bit (shift_in b c) k \<longleftrightarrow>
      (0 < k \<and> bit c (k - 1)) \<noteq> ((bit c 15 \<noteq> b) \<and> (k = 0 \<or> k = 5 \<or> k = 12))"
    by (cases "bit c 15 = b")
      (simp_all only: shift_in_def if_True if_False bit_xor_iff shifted bit_polynomial [OF k]
        simp_thms)
  then show "bit (shift_in b c) k \<longleftrightarrow> bit (crc_bit (c XOR top_bit b)) k"
    using k by (auto simp: bit_crc_bit bit_xor_iff bit_top_bit)
qed

lemma crc_bit_push:
  assumes "n < 8"
  shows "crc_bit (push_bit (8 + n) (ucast (x :: byte))) =
    crc_bit (top_bit (bit x (7 - n))) XOR (push_bit (9 + n) (ucast x) :: u16)"
proof (rule bit_word_eqI)
  fix k
  assume "k < LENGTH(16)"
  then have k: "k < 16" by simp
  have pushed: "bit (push_bit (j + n) (ucast x) :: u16) i \<longleftrightarrow> j + n \<le> i \<and> i < 16 \<and> bit x (i - (j + n))"
    for i j
    by (auto simp: bit_simps)
  have index: "15 - (8 + n) = 7 - n" by simp
  have "k = 0 \<or> k - 1 - (8 + n) = k - (9 + n)" by simp
  then show "bit (crc_bit (push_bit (8 + n) (ucast x) :: u16)) k \<longleftrightarrow>
      bit (crc_bit (top_bit (bit x (7 - n))) XOR (push_bit (9 + n) (ucast x) :: u16)) k"
    using k assms by (auto simp: bit_crc_bit bit_xor_iff bit_top_bit pushed index)
qed

lemma crc_byte_serial_prefix:
  "n \<le> 8 \<Longrightarrow> (crc_bit ^^ n) (c XOR push_bit 8 (ucast x)) =
     fold shift_in (map (\<lambda>i. bit x (7 - i)) [0..<n]) c XOR push_bit (8 + n) (ucast (x :: byte))"
proof (induction n)
  case 0
  then show ?case by simp
next
  case (Suc n)
  let ?s = "fold shift_in (map (\<lambda>i. bit x (7 - i)) [0..<n]) c"
  have "(crc_bit ^^ Suc n) (c XOR push_bit 8 (ucast x)) = crc_bit (?s XOR push_bit (8 + n) (ucast x))"
    using Suc by simp
  also have "\<dots> = crc_bit ?s XOR crc_bit (top_bit (bit x (7 - n))) XOR push_bit (9 + n) (ucast x)"
    using Suc.prems by (simp add: crc_bit_xor crc_bit_push xor.assoc)
  also have "\<dots> = shift_in (bit x (7 - n)) ?s XOR push_bit (9 + n) (ucast x)"
    by (simp add: shift_in_crc_bit crc_bit_xor xor.assoc)
  finally show ?case by simp
qed

lemma crc_byte_serial: "crc_byte c x = fold shift_in (msb_first x) c"
proof -
  have "(push_bit (8 + 8) (ucast x) :: u16) = 0"
    by (rule bit_word_eqI) (simp add: bit_simps)
  then show ?thesis
    using crc_byte_serial_prefix [of 8 c x] by (simp add: crc_byte_def msb_first_def)
qed

section \<open>Properties\<close>

text \<open>
  C32: the table-free byte loop of \<^verbatim>\<open>crc16_ccitt\<close> (exclusive-or of the byte into the high half,
  then eight conditional shifts) computes what the bit-serial CRC-16/CCITT register with initial
  value \<open>0xFFFF\<close> and polynomial \<open>0x1021\<close> computes from the message bits, most significant bit
  of each byte first; a null pointer gives the initial value for length zero and 0 otherwise.
\<close>

theorem crc16_ccitt_is_bit_serial:
  "(n \<le> length bs \<longrightarrow> crc16_ccitt (Some bs) n = crc16_serial (take n bs)) \<and>
   crc16_ccitt None 0 = 0xFFFF \<and> (0 < n \<longrightarrow> crc16_ccitt None n = 0)"
proof -
  have "foldl crc_byte c xs = fold shift_in (concat (map msb_first xs)) c" for c xs
    by (induction xs arbitrary: c) (simp_all add: crc_byte_serial)
  then show ?thesis
    by (simp add: crc16_ccitt_Some crc16_serial_def) (simp add: crc16_ccitt_def)
qed

theorem crc16_ccitt_is_bit_serial_witness:
  "crc16_ccitt (Some [0x31, 0x32, 0x33]) 2 = crc16_serial [0x31, 0x32] \<and>
   crc16_ccitt None 0 = 0xFFFF \<and> crc16_ccitt None 2 = 0"
  using crc16_ccitt_is_bit_serial [of 2 "[0x31, 0x32, 0x33]"] by simp

text \<open>
  every error burst confined to two adjacent bytes changes the checksum: two buffers of the
  same length that agree outside two adjacent positions, and differ there, have different
  checksums.
\<close>

theorem crc16_ccitt_detects_bursts:
  assumes "length pre + 2 + length post = n" and "(a, b) \<noteq> (a', b')"
  shows "crc16_ccitt (Some (pre @ [a, b] @ post)) n \<noteq> crc16_ccitt (Some (pre @ [a', b'] @ post)) n"
  using assms by (rule crc_burst)

theorem crc16_ccitt_detects_bursts_witness:
  "crc16_ccitt (Some [7, 1, 2, 9]) 4 \<noteq> crc16_ccitt (Some [7, 3, 0, 9]) 4"
  using crc16_ccitt_detects_bursts [of "[7]" "[9]" 4 1 2 3 0] by simp

end
