(* ===== verification/Wire.thy ===== *)
theory Wire
  imports NM_Prelude
begin

text \<open>
  The wire contract of \<^verbatim>\<open>include/new_mavlink/wire.hpp\<close> and \<^verbatim>\<open>src/wire.cpp\<close>: the
  constants, the message and QoS enumerations, the shared structures, and the classification of
  message types. Both enumerations have the fixed underlying type \<^verbatim>\<open>std::uint8_t\<close>, so a
  cast from a received byte may produce a value with no enumerator; the constructors
  \<open>MT_Other\<close> and \<open>Qos_Other\<close> hold exactly those values.
\<close>

section \<open>Constants\<close>

definition kVersion :: byte where "kVersion = 1"
definition kHeaderBytes :: nat where "kHeaderBytes = 40"
definition kKeyBytes :: nat where "kKeyBytes = 16"
definition kNonceBytes :: nat where "kNonceBytes = 16"
definition kTagBytes :: nat where "kTagBytes = 16"
definition kMaxPayloadBytes :: nat where "kMaxPayloadBytes = 768"
definition kMaxRecordBytes :: nat where
  "kMaxRecordBytes = kHeaderBytes + kMaxPayloadBytes + kTagBytes"

definition kFlagDelta :: byte where "kFlagDelta = 0x01"
definition kFlagAck :: byte where "kFlagAck = 0x02"
definition kFlagSnapshot :: byte where "kFlagSnapshot = 0x04"
definition kFlagResync :: byte where "kFlagResync = 0x08"
definition kKnownFlags :: byte where
  "kKnownFlags = kFlagDelta OR kFlagAck OR kFlagSnapshot OR kFlagResync"

lemmas wire_consts = kHeaderBytes_def kKeyBytes_def kNonceBytes_def kTagBytes_def
  kMaxPayloadBytes_def kMaxRecordBytes_def

lemma kKnownFlags_value: "kKnownFlags = 0x0F"
  by (simp add: kKnownFlags_def kFlagDelta_def kFlagAck_def kFlagSnapshot_def kFlagResync_def)

section \<open>Enumerations\<close>

datatype MessageType =
    MT_Hello | MT_Accept | MT_Finish | MT_Subscribe | MT_Resync | MT_Unsubscribe
  | MT_Heartbeat | MT_VehicleState | MT_Position | MT_Attitude | MT_Battery | MT_LinkStats
  | MT_SafetyEvent | MT_FailsafeEvent | MT_GeofenceEvent
  | MT_CommandRequest | MT_CommandAck | MT_CommandResult
  | MT_SchemaManifest | MT_RateReport | MT_DiagnosticEvent
  | MT_Other byte

fun MessageType_u8 :: "MessageType \<Rightarrow> byte" where
  "MessageType_u8 MT_Hello = 1"
| "MessageType_u8 MT_Accept = 2"
| "MessageType_u8 MT_Finish = 3"
| "MessageType_u8 MT_Subscribe = 4"
| "MessageType_u8 MT_Resync = 5"
| "MessageType_u8 MT_Unsubscribe = 6"
| "MessageType_u8 MT_Heartbeat = 16"
| "MessageType_u8 MT_VehicleState = 17"
| "MessageType_u8 MT_Position = 18"
| "MessageType_u8 MT_Attitude = 19"
| "MessageType_u8 MT_Battery = 20"
| "MessageType_u8 MT_LinkStats = 21"
| "MessageType_u8 MT_SafetyEvent = 22"
| "MessageType_u8 MT_FailsafeEvent = 23"
| "MessageType_u8 MT_GeofenceEvent = 24"
| "MessageType_u8 MT_CommandRequest = 48"
| "MessageType_u8 MT_CommandAck = 49"
| "MessageType_u8 MT_CommandResult = 50"
| "MessageType_u8 MT_SchemaManifest = 64"
| "MessageType_u8 MT_RateReport = 65"
| "MessageType_u8 MT_DiagnosticEvent = 66"
| "MessageType_u8 (MT_Other b) = b"

definition enumerators :: "MessageType list" where
  "enumerators =
    [MT_Hello, MT_Accept, MT_Finish, MT_Subscribe, MT_Resync, MT_Unsubscribe,
     MT_Heartbeat, MT_VehicleState, MT_Position, MT_Attitude, MT_Battery, MT_LinkStats,
     MT_SafetyEvent, MT_FailsafeEvent, MT_GeofenceEvent,
     MT_CommandRequest, MT_CommandAck, MT_CommandResult,
     MT_SchemaManifest, MT_RateReport, MT_DiagnosticEvent]"

text \<open>\<^verbatim>\<open>static_cast<MessageType>(b)\<close>: the enumerator with that value, if there is one.\<close>

definition MessageType_of_u8 :: "byte \<Rightarrow> MessageType" where
  "MessageType_of_u8 b =
     (case find (\<lambda>t. MessageType_u8 t = b) enumerators of Some t \<Rightarrow> t | None \<Rightarrow> MT_Other b)"

datatype Qos =
    Qos_CriticalReliable | Qos_CommandReliable | Qos_StateLatest | Qos_TelemetryBestEffort
  | Qos_Liveness | Qos_Explicit | Qos_Other byte

fun Qos_u8 :: "Qos \<Rightarrow> byte" where
  "Qos_u8 Qos_CriticalReliable = 0"
| "Qos_u8 Qos_CommandReliable = 1"
| "Qos_u8 Qos_StateLatest = 2"
| "Qos_u8 Qos_TelemetryBestEffort = 3"
| "Qos_u8 Qos_Liveness = 4"
| "Qos_u8 Qos_Explicit = 5"
| "Qos_u8 (Qos_Other b) = b"

definition Qos_of_u8 :: "byte \<Rightarrow> Qos" where
  "Qos_of_u8 b =
     (if b = 0 then Qos_CriticalReliable else if b = 1 then Qos_CommandReliable
      else if b = 2 then Qos_StateLatest else if b = 3 then Qos_TelemetryBestEffort
      else if b = 4 then Qos_Liveness else if b = 5 then Qos_Explicit else Qos_Other b)"

section \<open>Structures\<close>

record SessionId =
  sid_value :: u64
  sid_epoch :: u64

record DirectionalKeys =
  dk_session :: SessionId
  dk_local_id :: u16
  dk_peer_id :: u16
  dk_tx :: "byte list"
  dk_rx :: "byte list"

record RecordHeader =
  h_version :: byte
  h_flags :: byte
  h_type :: MessageType
  h_qos :: Qos
  h_source_id :: u16
  h_destination_id :: u16
  h_session_id :: u64
  h_epoch :: u64
  h_sequence :: u64
  h_payload_len :: u16
  h_deadline_ms :: u16
  h_header_crc16 :: u16

definition default_header :: RecordHeader where
  "default_header =
     \<lparr>h_version = kVersion, h_flags = 0, h_type = MT_Heartbeat, h_qos = Qos_TelemetryBestEffort,
      h_source_id = 0, h_destination_id = 0, h_session_id = 0, h_epoch = 0, h_sequence = 0,
      h_payload_len = 0, h_deadline_ms = 0, h_header_crc16 = 0\<rparr>"

section \<open>Classification of message types\<close>

fun known_type :: "MessageType \<Rightarrow> bool" where
  "known_type (MT_Other b) = False"
| "known_type t = True"

definition state_type :: "MessageType \<Rightarrow> bool" where
  "state_type t \<longleftrightarrow> t = MT_VehicleState \<or> t = MT_Position \<or> t = MT_Attitude \<or> t = MT_Battery \<or>
     t = MT_LinkStats \<or> t = MT_RateReport"

definition command_type :: "MessageType \<Rightarrow> bool" where
  "command_type t \<longleftrightarrow> t = MT_CommandRequest \<or> t = MT_CommandAck \<or> t = MT_CommandResult"

definition control_type :: "MessageType \<Rightarrow> bool" where
  "control_type t \<longleftrightarrow> t = MT_Hello \<or> t = MT_Accept \<or> t = MT_Finish \<or> t = MT_Subscribe \<or>
     t = MT_Unsubscribe \<or> t = MT_Resync"

definition critical_type :: "MessageType \<Rightarrow> bool" where
  "critical_type t \<longleftrightarrow> t = MT_SafetyEvent \<or> t = MT_FailsafeEvent \<or> t = MT_GeofenceEvent \<or>
     t = MT_DiagnosticEvent \<or> t = MT_CommandAck \<or> t = MT_CommandResult"

definition default_qos :: "MessageType \<Rightarrow> Qos" where
  "default_qos t =
     (if command_type t then Qos_CommandReliable
      else if critical_type t then Qos_CriticalReliable
      else if t = MT_Heartbeat then Qos_Liveness
      else if control_type t then Qos_Explicit
      else Qos_StateLatest)"

lemmas type_class_defs = state_type_def command_type_def control_type_def critical_type_def

section \<open>Casts between enumerations and bytes\<close>

text \<open>A value of the model that a C++ object of the enumeration type can hold.\<close>

definition canonical_type :: "MessageType \<Rightarrow> bool" where
  "canonical_type t \<longleftrightarrow> MessageType_of_u8 (MessageType_u8 t) = t"

definition canonical_qos :: "Qos \<Rightarrow> bool" where
  "canonical_qos q \<longleftrightarrow> Qos_of_u8 (Qos_u8 q) = q"

lemma MessageType_u8_of_u8 [simp]: "MessageType_u8 (MessageType_of_u8 b) = b"
  by (auto simp: MessageType_of_u8_def find_Some_iff split: option.split)

lemma Qos_u8_of_u8 [simp]: "Qos_u8 (Qos_of_u8 b) = b"
  by (simp add: Qos_of_u8_def)

lemma known_type_enumerators: "known_type t \<longleftrightarrow> t \<in> set enumerators"
  by (cases t) (simp_all add: enumerators_def)

lemma known_type_canonical: "known_type t \<Longrightarrow> MessageType_of_u8 (MessageType_u8 t) = t"
  by (cases t) (simp_all add: MessageType_of_u8_def enumerators_def)

lemma known_type_of_u8: "known_type (MessageType_of_u8 b) \<longleftrightarrow> b \<in> set (map MessageType_u8 enumerators)"
proof
  assume "known_type (MessageType_of_u8 b)"
  then have "MessageType_of_u8 b \<in> set enumerators"
    by (simp add: known_type_enumerators)
  then have "MessageType_u8 (MessageType_of_u8 b) \<in> MessageType_u8 ` set enumerators"
    by (rule imageI)
  then show "b \<in> set (map MessageType_u8 enumerators)" by simp
next
  assume "b \<in> set (map MessageType_u8 enumerators)"
  then obtain t where "t \<in> set enumerators" and "b = MessageType_u8 t" by auto
  then show "known_type (MessageType_of_u8 b)"
    by (simp add: known_type_canonical flip: known_type_enumerators)
qed

lemma known_type_inj:
  "known_type t \<Longrightarrow> known_type t' \<Longrightarrow> MessageType_u8 t = MessageType_u8 t' \<longleftrightarrow> t = t'"
  using known_type_canonical by metis

lemma state_type_known: "state_type t \<Longrightarrow> known_type t"
  by (auto simp: state_type_def)

lemma qos_in_range_canonical: "Qos_u8 q \<le> Qos_u8 Qos_Explicit \<Longrightarrow> canonical_qos q \<Longrightarrow> \<forall>b. q \<noteq> Qos_Other b"
  by (cases q) (auto simp: canonical_qos_def Qos_of_u8_def split: if_splits, unat_arith)

lemma Qos_of_u8_canonical [simp]: "canonical_qos (Qos_of_u8 b)"
  by (simp add: canonical_qos_def)

lemma MessageType_of_u8_canonical [simp]: "canonical_type (MessageType_of_u8 b)"
  by (simp add: canonical_type_def)

end
