(* ===== verification/Crypto.thy ===== *)
theory Crypto
  imports Wire
begin

text \<open>
  Key derivation, nonces and the AEAD wrappers of \<^verbatim>\<open>src/crypto.cpp\<close>. The Ascon primitives
  live in \<^verbatim>\<open>third_party/ascon-c\<close>, a submodule that is not part of the repository: they are the
  fields of the record \<open>ascon\<close>, an argument of every definition that calls them. What the
  program relies on is stated by \<open>prf_ok\<close>, \<open>aead_correct\<close> and \<open>aead_tidy\<close>, the documented
  behaviour of the NIST API; \<open>xor_ascon\<close> is a concrete instance that satisfies all three.
  Wiping local arrays has no effect a caller can observe and is left out.
\<close>

section \<open>The Ascon interface\<close>

text \<open>
  \<open>None\<close> is a non-zero return code; \<open>Some out\<close> is return code 0 with \<open>out\<close> the bytes written.
  Arguments in the order message or ciphertext, associated data, nonce, key.
\<close>

record ascon =
  crypto_aead_encrypt :: "byte list \<Rightarrow> byte list \<Rightarrow> byte list \<Rightarrow> byte list \<Rightarrow> byte list option"
  crypto_aead_decrypt :: "byte list \<Rightarrow> byte list \<Rightarrow> byte list \<Rightarrow> byte list \<Rightarrow> byte list option"
  crypto_auth :: "byte list \<Rightarrow> byte list \<Rightarrow> byte list option"

definition prf_ok :: "ascon \<Rightarrow> bool" where
  "prf_ok A \<longleftrightarrow> (\<forall>m k. \<exists>t. crypto_auth A m k = Some t \<and> length t = 16)"

definition aead_correct :: "ascon \<Rightarrow> bool" where
  "aead_correct A \<longleftrightarrow> (\<forall>m ad n k. \<exists>c. crypto_aead_encrypt A m ad n k = Some c \<and>
     length c = length m + 16 \<and> crypto_aead_decrypt A c ad n k = Some m)"

text \<open>Decryption recomputes the tag: it accepts only what encryption of its result produces.\<close>

definition aead_tidy :: "ascon \<Rightarrow> bool" where
  "aead_tidy A \<longleftrightarrow> (\<forall>c ad n k m. crypto_aead_decrypt A c ad n k = Some m \<longrightarrow>
     crypto_aead_encrypt A m ad n k = Some c)"

section \<open>Key derivation\<close>

definition prf_block :: "ascon \<Rightarrow> byte list \<Rightarrow> ptr \<Rightarrow> nat \<Rightarrow> u32 \<Rightarrow> byte list option" where
  "prf_block A psk info info_length blk =
     (case info of
        None \<Rightarrow> None
      | Some bs \<Rightarrow>
          if info_length > 96 then None
          else
            let input = replicate 100 0;
                input = (if info_length \<noteq> 0 then put_at input 0 (take info_length bs) else input);
                input = put_at input (info_length + 0) [ucast blk];
                input = put_at input (info_length + 1) [ucast (drop_bit 8 blk)];
                input = put_at input (info_length + 2) [ucast (drop_bit 16 blk)];
                input = put_at input (info_length + 3) [ucast (drop_bit 24 blk)]
            in crypto_auth A (take (info_length + 4) input) psk)"

definition derive_one ::
    "ascon \<Rightarrow> byte list \<Rightarrow> byte list \<Rightarrow> nat \<Rightarrow> SessionId \<Rightarrow> u16 \<Rightarrow> u16 \<Rightarrow> byte list option" where
  "derive_one A psk label label_length session first_id second_id =
     (if label_length > 8 then None
      else
        let info = replicate 32 0;
            info = put_at info 0 (take label_length label);
            info = put_at info 8 (put64 (sid_value session));
            info = put_at info 16 (put64 (sid_epoch session));
            info = put_at info 24 (put16 first_id);
            info = put_at info 26 (put16 second_id)
        in prf_block A psk (Some info) 28 0)"

definition make_nonce :: "SessionId \<Rightarrow> u64 \<Rightarrow> byte list" where
  "make_nonce session sequence =
     (let nonce = replicate kNonceBytes 0;
          nonce = put_at nonce 0 (put64 (sid_value session))
      in put_at nonce 8 (put64 (sid_epoch session XOR sequence)))"

definition tx_label :: "byte list" where
  "tx_label = [0x4E, 0x4D, 0x2D, 0x54, 0x58]"

definition rx_label :: "byte list" where
  "rx_label = [0x4E, 0x4D, 0x2D, 0x52, 0x58]"

definition derive_directional_keys ::
    "ascon \<Rightarrow> byte list \<Rightarrow> SessionId \<Rightarrow> u16 \<Rightarrow> u16 \<Rightarrow> (DirectionalKeys \<times> DirectionalKeys) option" where
  "derive_directional_keys A psk session first_id second_id =
     (if sid_value session = 0 \<or> sid_epoch session = 0 \<or> first_id = 0 \<or> second_id = 0 \<or>
         first_id = second_id
      then None
      else
        (case derive_one A psk tx_label (length tx_label) session first_id second_id of
           None \<Rightarrow> None
         | Some first_tx \<Rightarrow>
             (case derive_one A psk rx_label (length rx_label) session first_id second_id of
                None \<Rightarrow> None
              | Some second_tx \<Rightarrow>
                  Some (\<lparr>dk_session = session, dk_local_id = first_id, dk_peer_id = second_id,
                         dk_tx = first_tx, dk_rx = second_tx\<rparr>,
                        \<lparr>dk_session = session, dk_local_id = second_id, dk_peer_id = first_id,
                         dk_tx = second_tx, dk_rx = first_tx\<rparr>))))"

section \<open>AEAD wrappers\<close>

text \<open>
  \<open>None\<close> is a \<^verbatim>\<open>false\<close> return; \<open>Some (buffer, n)\<close> is \<^verbatim>\<open>true\<close> with the destination buffer
  after the call and the reported length.
\<close>

definition aead_seal ::
    "ascon \<Rightarrow> byte list \<Rightarrow> byte list \<Rightarrow> ptr \<Rightarrow> nat \<Rightarrow> ptr \<Rightarrow> nat \<Rightarrow> ptr \<Rightarrow> nat \<Rightarrow>
     (byte list \<times> nat) option" where
  "aead_seal A key nonce aad aad_length plaintext plaintext_length ciphertext ciphertext_capacity =
     (case ciphertext of
        None \<Rightarrow> None
      | Some buf \<Rightarrow>
          if ciphertext_capacity < plaintext_length + kTagBytes \<or> (aad = None \<and> aad_length \<noteq> 0) \<or>
             (plaintext = None \<and> plaintext_length \<noteq> 0) \<or> plaintext_length > kMaxPayloadBytes
          then None
          else
            (case crypto_aead_encrypt A (take plaintext_length (case_option [] id plaintext))
                    (take aad_length (case_option [] id aad)) nonce key of
               None \<Rightarrow> None
             | Some out \<Rightarrow>
                 if length out \<noteq> plaintext_length + kTagBytes then None
                 else Some (put_at buf 0 out, length out)))"

definition aead_open ::
    "ascon \<Rightarrow> byte list \<Rightarrow> byte list \<Rightarrow> ptr \<Rightarrow> nat \<Rightarrow> ptr \<Rightarrow> nat \<Rightarrow> ptr \<Rightarrow> nat \<Rightarrow>
     (byte list \<times> nat) option" where
  "aead_open A key nonce aad aad_length ciphertext ciphertext_length plaintext plaintext_capacity =
     (case (ciphertext, plaintext) of
        (Some cs, Some buf) \<Rightarrow>
          if ciphertext_length < kTagBytes \<or> plaintext_capacity < ciphertext_length - kTagBytes \<or>
             ciphertext_length > kMaxPayloadBytes + kTagBytes \<or> (aad = None \<and> aad_length \<noteq> 0)
          then None
          else
            (case crypto_aead_decrypt A (take ciphertext_length cs)
                    (take aad_length (case_option [] id aad)) nonce key of
               None \<Rightarrow> None
             | Some out \<Rightarrow>
                 if length out \<noteq> ciphertext_length - kTagBytes then None
                 else Some (put_at buf 0 out, length out))
      | _ \<Rightarrow> None)"

section \<open>Consequences of the interface\<close>

lemma encrypt_Some:
  "aead_correct A \<Longrightarrow> \<exists>c. crypto_aead_encrypt A m ad n k = Some c \<and> length c = length m + 16 \<and>
     crypto_aead_decrypt A c ad n k = Some m"
  by (simp add: aead_correct_def)

lemma auth_Some: "prf_ok A \<Longrightarrow> \<exists>t. crypto_auth A m k = Some t \<and> length t = 16"
  by (simp add: prf_ok_def)

section \<open>Nonces and derivation contexts\<close>

lemma make_nonce_eq: "make_nonce s q = put64 (sid_value s) @ put64 (sid_epoch s XOR q)"
  by (simp add: make_nonce_def kNonceBytes_def codec_simps)

lemma length_make_nonce [simp]: "length (make_nonce s q) = 16"
  by (simp add: make_nonce_eq)

lemma append_eq_iff_length:
  "length xs = length xs' \<Longrightarrow> xs @ ys = xs' @ ys' \<longleftrightarrow> xs = xs' \<and> ys = ys'"
  by simp

text \<open>The 32 bytes the PRF is applied to: label, session, the two identifiers, block number.\<close>

definition kdf_input :: "byte list \<Rightarrow> SessionId \<Rightarrow> u16 \<Rightarrow> u16 \<Rightarrow> byte list" where
  "kdf_input label session a b =
     label @ replicate (8 - length label) 0 @ put64 (sid_value session) @ put64 (sid_epoch session) @
     put16 a @ put16 b @ [0, 0, 0, 0]"

lemma prf_block_first:
  assumes "n \<le> 96" and "n \<le> length bs"
  shows "prf_block A psk (Some bs) n 0 = crypto_auth A (take n bs @ [0, 0, 0, 0]) psk"
proof -
  have "(if n \<noteq> 0 then put_at (replicate 100 0) 0 (take n bs) else replicate 100 0) =
      take n bs @ replicate (100 - n) 0"
    using assms by (simp add: codec_simps)
  moreover have "take (n + 4) (put_at (put_at (put_at (put_at (take n bs @ replicate (100 - n) 0)
      n [0]) (n + 1) [0]) (n + 2) [0]) (n + 3) [0]) = take n bs @ [0, 0, 0, 0]"
    using assms by (simp add: codec_simps)
  ultimately show ?thesis
    using assms by (simp add: prf_block_def Let_def)
qed

lemma derive_one_prf:
  assumes "length label \<le> 8"
  shows "derive_one A psk label (length label) session a b =
    crypto_auth A (kdf_input label session a b) psk"
proof -
  let ?info = "put_at (put_at (put_at (put_at (put_at (replicate 32 0) 0 label) 8
    (put64 (sid_value session))) 16 (put64 (sid_epoch session))) 24 (put16 a)) 26 (put16 b)"
  have "drop (length label) (replicate 32 (0 :: byte)) =
      replicate (8 - length label) 0 @ replicate 24 0"
    using assms by (simp add: replicate_add [symmetric])
  then have info: "?info = label @ replicate (8 - length label) 0 @ put64 (sid_value session) @
      put64 (sid_epoch session) @ put16 a @ put16 b @ replicate 4 0"
    using assms by (simp add: codec_simps)
  have "derive_one A psk label (length label) session a b = prf_block A psk (Some ?info) 28 0"
    using assms by (simp add: derive_one_def)
  also have "\<dots> = crypto_auth A (take 28 ?info @ [0, 0, 0, 0]) psk"
    by (rule prf_block_first) (use assms in \<open>simp_all add: info\<close>)
  also have "\<dots> = crypto_auth A (kdf_input label session a b) psk"
    using assms by (simp add: info kdf_input_def)
  finally show ?thesis .
qed

lemma kdf_input_inj:
  assumes "length label \<le> 8" and "length label' = length label"
  shows "kdf_input label s a b = kdf_input label' s' a' b' \<longleftrightarrow>
    label = label' \<and> sid_value s = sid_value s' \<and> sid_epoch s = sid_epoch s' \<and> a = a' \<and> b = b'"
  using assms by (auto simp: kdf_input_def)

lemma label_lengths [simp]: "length tx_label = 5" "length rx_label = 5"
  by (simp_all add: tx_label_def rx_label_def)

lemma labels_differ: "tx_label \<noteq> rx_label"
  by (simp add: tx_label_def rx_label_def)

lemma derive_directional_keys_SomeD:
  assumes "derive_directional_keys A psk s a b = Some (k1, k2)"
  shows "dk_session k1 = s" "dk_session k2 = s" "dk_local_id k1 = a" "dk_peer_id k1 = b"
    "dk_local_id k2 = b" "dk_peer_id k2 = a" "dk_tx k1 = dk_rx k2" "dk_rx k1 = dk_tx k2"
    "sid_value s \<noteq> 0" "sid_epoch s \<noteq> 0" "a \<noteq> 0" "b \<noteq> 0" "a \<noteq> b"
  using assms by (auto simp: derive_directional_keys_def split: if_splits option.splits)

lemma derive_one_labels:
  "derive_one A psk tx_label 5 s a b = crypto_auth A (kdf_input tx_label s a b) psk"
  "derive_one A psk rx_label 5 s a b = crypto_auth A (kdf_input rx_label s a b) psk"
  using derive_one_prf [of tx_label A psk s a b] derive_one_prf [of rx_label A psk s a b] by simp_all

lemma derive_directional_keys_Some:
  assumes "prf_ok A" "sid_value s \<noteq> 0" "sid_epoch s \<noteq> 0" "a \<noteq> 0" "b \<noteq> 0" "a \<noteq> b"
  shows "\<exists>k1 k2. derive_directional_keys A psk s a b = Some (k1, k2)"
proof -
  obtain t u where "crypto_auth A (kdf_input tx_label s a b) psk = Some t"
    and "crypto_auth A (kdf_input rx_label s a b) psk = Some u"
    using auth_Some [OF assms(1)] by metis
  then show ?thesis
    using assms by (simp add: derive_directional_keys_def derive_one_labels)
qed

section \<open>A concrete instance of the interface\<close>

definition xor_tag :: "byte list \<Rightarrow> byte list \<Rightarrow> byte list \<Rightarrow> byte list \<Rightarrow> byte list" where
  "xor_tag m ad n k = (sum_list m + 3 * sum_list ad + 5 * sum_list n + 7 * sum_list k) # replicate 15 0"

definition xor_encrypt :: "byte list \<Rightarrow> byte list \<Rightarrow> byte list \<Rightarrow> byte list \<Rightarrow> byte list option" where
  "xor_encrypt m ad n k = Some (map (\<lambda>b. b XOR 0x5A) m @ xor_tag m ad n k)"

definition xor_decrypt :: "byte list \<Rightarrow> byte list \<Rightarrow> byte list \<Rightarrow> byte list \<Rightarrow> byte list option" where
  "xor_decrypt c ad n k =
     (let l = length c - 16; m = map (\<lambda>b. b XOR 0x5A) (take l c)
      in if 16 \<le> length c \<and> drop l c = xor_tag m ad n k then Some m else None)"

definition xor_auth :: "byte list \<Rightarrow> byte list \<Rightarrow> byte list option" where
  "xor_auth m k = Some (map (\<lambda>i. (if i < length m then m ! i else 0) XOR
     (if i < length k then k ! i else 0)) [0..<16])"

definition xor_ascon :: ascon where
  "xor_ascon = \<lparr>crypto_aead_encrypt = xor_encrypt, crypto_aead_decrypt = xor_decrypt,
     crypto_auth = xor_auth\<rparr>"

lemma length_xor_tag [simp]: "length (xor_tag m ad n k) = 16"
  by (simp add: xor_tag_def)

lemma xor_xor_byte: "map (\<lambda>b. (b XOR x) XOR x) bs = (bs :: byte list)"
  by (simp add: xor.assoc)

lemma xor_ascon_prf_ok: "prf_ok xor_ascon"
  by (simp add: prf_ok_def xor_ascon_def xor_auth_def)

lemma xor_ascon_correct: "aead_correct xor_ascon"
  by (simp add: aead_correct_def xor_ascon_def xor_encrypt_def xor_decrypt_def o_def xor.assoc)

lemma xor_ascon_tidy: "aead_tidy xor_ascon"
  unfolding aead_tidy_def
proof (intro allI impI)
  fix c ad n k m
  assume "crypto_aead_decrypt xor_ascon c ad n k = Some m"
  then have "m = map (\<lambda>b. b XOR 0x5A) (take (length c - 16) c)"
    and "drop (length c - 16) c = xor_tag m ad n k"
    by (auto simp: xor_ascon_def xor_decrypt_def Let_def split: if_splits)
  then show "crypto_aead_encrypt xor_ascon m ad n k = Some c"
    by (simp add: xor_ascon_def xor_encrypt_def o_def xor.assoc) (metis append_take_drop_id)
qed

lemmas xor_ascon_ok = xor_ascon_prf_ok xor_ascon_correct xor_ascon_tidy

section \<open>Properties\<close>

text \<open>
  the AEAD nonce determines the session number and the exclusive-or of epoch and sequence
  number, and nothing else. Inside one session and epoch two records have the same nonce only if
  they have the same sequence number; across epochs nonces do repeat (sequence \<open>q\<close> in epoch \<open>e\<close>
  and sequence \<open>e XOR e' XOR q\<close> in epoch \<open>e'\<close>), so a rekey must change the key.
\<close>

theorem make_nonce_eq_iff:
  "make_nonce s q = make_nonce s' q' \<longleftrightarrow>
     sid_value s = sid_value s' \<and> sid_epoch s XOR q = sid_epoch s' XOR q'"
  by (simp add: make_nonce_eq)

text \<open>
  C33: key derivation succeeds exactly on a non-zero session number and epoch and two distinct
  non-zero identifiers. The two ends get mirrored keys (one end's transmit key is the other's
  receive key) that are the PRF of two inputs, and these inputs separate every derivation
  context: they differ between the two directions, and between any two sessions, epochs or
  identifier pairs.
\<close>

theorem derive_directional_keys_contexts:
  assumes "prf_ok A"
  shows "(derive_directional_keys A psk s a b = None \<longleftrightarrow>
      sid_value s = 0 \<or> sid_epoch s = 0 \<or> a = 0 \<or> b = 0 \<or> a = b) \<and>
    (\<forall>k1 k2. derive_directional_keys A psk s a b = Some (k1, k2) \<longrightarrow>
      dk_tx k1 = dk_rx k2 \<and> dk_rx k1 = dk_tx k2 \<and>
      crypto_auth A (kdf_input tx_label s a b) psk = Some (dk_tx k1) \<and>
      crypto_auth A (kdf_input rx_label s a b) psk = Some (dk_rx k1)) \<and>
    (\<forall>l\<in>{tx_label, rx_label}. \<forall>l'\<in>{tx_label, rx_label}. \<forall>s' a' b'.
      kdf_input l s a b = kdf_input l' s' a' b' \<longrightarrow> l = l' \<and> s = s' \<and> a = a' \<and> b = b')"
proof (intro conjI)
  let ?bad = "sid_value s = 0 \<or> sid_epoch s = 0 \<or> a = 0 \<or> b = 0 \<or> a = b"
  show "derive_directional_keys A psk s a b = None \<longleftrightarrow> ?bad"
  proof (cases ?bad)
    case True
    then show ?thesis by (auto simp: derive_directional_keys_def)
  next
    case False
    with derive_directional_keys_Some [OF assms, of s a b psk] show ?thesis by auto
  qed
  show "\<forall>k1 k2. derive_directional_keys A psk s a b = Some (k1, k2) \<longrightarrow>
      dk_tx k1 = dk_rx k2 \<and> dk_rx k1 = dk_tx k2 \<and>
      crypto_auth A (kdf_input tx_label s a b) psk = Some (dk_tx k1) \<and>
      crypto_auth A (kdf_input rx_label s a b) psk = Some (dk_rx k1)"
    by (auto simp: derive_directional_keys_def derive_one_labels split: if_splits option.splits)
  show "\<forall>l\<in>{tx_label, rx_label}. \<forall>l'\<in>{tx_label, rx_label}. \<forall>s' a' b'.
      kdf_input l s a b = kdf_input l' s' a' b' \<longrightarrow> l = l' \<and> s = s' \<and> a = a' \<and> b = b'"
    by (auto simp: kdf_input_inj)
qed

theorem derive_directional_keys_contexts_witness:
  "derive_directional_keys xor_ascon [1, 2, 3, 4] \<lparr>sid_value = 9, sid_epoch = 1\<rparr> 1 2 \<noteq> None \<and>
   derive_directional_keys xor_ascon [1, 2, 3, 4] \<lparr>sid_value = 9, sid_epoch = 1\<rparr> 1 1 = None"
  by (simp add: derive_directional_keys_contexts [OF xor_ascon_prf_ok, THEN conjunct1])

end
