(* ===== verification/Replay_Window.thy ===== *)
theory Replay_Window
  imports NM_Prelude
begin

text \<open>
  The anti-replay window of \<^verbatim>\<open>class ReplayWindow\<close> in \<^verbatim>\<open>src/record.cpp\<close>: its state, its
  operations, the set specification it implements, and the locale \<open>replay_filter\<close>, the contract
  that sessions rely on, with its interpretation on the window.
\<close>

section \<open>The window\<close>

record ReplayWindow =
  rw_high_water :: u64
  rw_bitmap :: u64
  rw_initialized :: bool

definition ReplayWindow_accepted :: "ReplayWindow \<Rightarrow> u64 \<Rightarrow> bool" where
  "ReplayWindow_accepted w sequence =
     (if \<not> rw_initialized w then True
      else if sequence > rw_high_water w then True
      else let distance = rw_high_water w - sequence
           in distance < 64 \<and> rw_bitmap w AND push_bit (unat distance) 1 = 0)"

definition ReplayWindow_commit :: "ReplayWindow \<Rightarrow> u64 \<Rightarrow> bool \<times> ReplayWindow" where
  "ReplayWindow_commit w sequence =
     (if \<not> ReplayWindow_accepted w sequence then (False, w)
      else if \<not> rw_initialized w then
        (True, w\<lparr>rw_initialized := True, rw_high_water := sequence, rw_bitmap := 1\<rparr>)
      else if sequence > rw_high_water w then
        let shift = sequence - rw_high_water w
        in (True, w\<lparr>rw_bitmap := (if shift \<ge> 64 then 1 else push_bit (unat shift) (rw_bitmap w) OR 1),
                    rw_high_water := sequence\<rparr>)
      else
        (True, w\<lparr>rw_bitmap := rw_bitmap w OR push_bit (unat (rw_high_water w - sequence)) 1\<rparr>))"

definition ReplayWindow_reset :: "ReplayWindow \<Rightarrow> ReplayWindow" where
  "ReplayWindow_reset w = w\<lparr>rw_high_water := 0, rw_bitmap := 0, rw_initialized := False\<rparr>"

definition fresh_window :: ReplayWindow where
  "fresh_window = \<lparr>rw_high_water = 0, rw_bitmap = 0, rw_initialized = False\<rparr>"

section \<open>The window against a set of sequence numbers\<close>

text \<open>
  The specification keeps the set of committed sequence numbers: a number is acceptable when it is
  not in the set and is not 64 or more behind the highest one.
\<close>

definition replay_spec :: "u64 set \<Rightarrow> u64 \<Rightarrow> bool" where
  "replay_spec S q \<longleftrightarrow> q \<notin> S \<and> (\<forall>x\<in>S. unat x < unat q + 64)"

definition window_rep :: "ReplayWindow \<Rightarrow> u64 set \<Rightarrow> bool" where
  "window_rep w S \<longleftrightarrow>
     (if rw_initialized w
      then rw_high_water w \<in> S \<and> (\<forall>x\<in>S. x \<le> rw_high_water w) \<and>
        (\<forall>d<64. bit (rw_bitmap w) d \<longleftrightarrow> d \<le> unat (rw_high_water w) \<and> rw_high_water w - of_nat d \<in> S)
      else S = {})"

lemma unat_minus_of_nat:
  assumes "d \<le> unat (q :: u64)" and "d < 64"
  shows "unat (q - of_nat d) = unat q - d"
proof -
  have "unat (of_nat d :: u64) = d"
    using assms(2) by (simp add: unat_of_nat take_bit_eq_mod)
  then show ?thesis
    using assms(1) by (simp add: unat_sub word_le_nat_alt)
qed

lemma of_nat_eq_0_small: "d < 64 \<Longrightarrow> (of_nat d :: u64) = 0 \<longleftrightarrow> d = 0"
  by (auto simp: word_unat_eq_iff unat_of_nat take_bit_eq_mod)

lemma window_bit:
  assumes "window_rep w S" and "rw_initialized w" and "q \<le> rw_high_water w"
    and "unat (rw_high_water w) - unat q < 64"
  shows "bit (rw_bitmap w) (unat (rw_high_water w - q)) \<longleftrightarrow> q \<in> S"
proof -
  have "unat (rw_high_water w - q) = unat (rw_high_water w) - unat q"
    using assms(3) by (simp add: unat_sub)
  moreover have "rw_high_water w - of_nat (unat (rw_high_water w) - unat q) = q"
    using assms(3) by (simp add: word_le_nat_alt of_nat_diff)
  ultimately show ?thesis
    using assms by (simp add: window_rep_def)
qed

lemma window_accepted_spec:
  assumes "window_rep w S"
  shows "ReplayWindow_accepted w q \<longleftrightarrow> replay_spec S q"
proof (cases "rw_initialized w")
  case False
  with assms show ?thesis
    by (simp add: ReplayWindow_accepted_def replay_spec_def window_rep_def)
next
  case True
  let ?h = "rw_high_water w"
  have top: "?h \<in> S" and below: "\<And>x. x \<in> S \<Longrightarrow> x \<le> ?h"
    using assms True by (auto simp: window_rep_def)
  have far: "(\<forall>x\<in>S. unat x < unat q + 64) \<longleftrightarrow> unat ?h < unat q + 64"
    using top below by (force simp: word_le_nat_alt)
  show ?thesis
  proof (cases "?h < q")
    case True
    then have "q \<notin> S" using below by force
    with True far \<open>rw_initialized w\<close> show ?thesis
      by (simp add: ReplayWindow_accepted_def replay_spec_def word_less_nat_alt)
  next
    case False
    then have le: "q \<le> ?h" by simp
    then have dist: "?h - q < 64 \<longleftrightarrow> unat ?h < unat q + 64"
      by (auto simp: word_less_nat_alt unat_sub word_le_nat_alt)
    show ?thesis
    proof (cases "unat ?h < unat q + 64")
      case near: True
      then have "bit (rw_bitmap w) (unat (?h - q)) \<longleftrightarrow> q \<in> S"
        using le by (intro window_bit [OF assms \<open>rw_initialized w\<close> le]) (simp add: word_le_nat_alt)
      then show ?thesis
        using near False dist far \<open>rw_initialized w\<close>
        by (simp add: ReplayWindow_accepted_def replay_spec_def and_exp_eq_0_iff_not_bit)
    next
      case False
      with \<open>\<not> ?h < q\<close> dist far \<open>rw_initialized w\<close> show ?thesis
        by (simp add: ReplayWindow_accepted_def replay_spec_def)
    qed
  qed
qed

lemma shifted_bitmap:
  assumes rep: "window_rep w S" "rw_initialized w" and new: "rw_high_water w < q" and d: "d < 64"
  shows "bit (if q - rw_high_water w \<ge> 64 then 1
      else push_bit (unat (q - rw_high_water w)) (rw_bitmap w) OR 1) d \<longleftrightarrow>
    d \<le> unat q \<and> q - of_nat d \<in> insert q S"
proof -
  let ?h = "rw_high_water w" and ?n = "unat q - unat (rw_high_water w)"
  have n: "unat (q - ?h) = ?n" "0 < ?n" "unat ?h < unat q"
    using new unat_sub [OF less_imp_le [OF new]] by (simp_all add: word_less_nat_alt)
  have left: "bit (if q - ?h \<ge> 64 then 1 else push_bit (unat (q - ?h)) (rw_bitmap w) OR 1) d \<longleftrightarrow>
      d = 0 \<or> (?n \<le> d \<and> bit (rw_bitmap w) (d - ?n))"
    using d n by (auto simp: bit_simps word_le_nat_alt)
  consider "d = 0" | "0 < d" "d < ?n" | "?n \<le> d" using n by linarith
  then show ?thesis
  proof cases
    case 1
    then show ?thesis unfolding left by simp
  next
    case 2
    then have "unat (q - of_nat d) = unat q - d"
      using d by (intro unat_minus_of_nat) auto
    with 2 have "\<not> q - of_nat d \<le> ?h" and "q - of_nat d \<noteq> q"
      by (auto simp: word_le_nat_alt word_unat_eq_iff)
    then show ?thesis
      using 2 rep by (auto simp: left window_rep_def)
  next
    case 3
    have "q - of_nat d = ?h - of_nat (d - ?n)"
    proof -
      have "q = ?h + of_nat ?n"
        using n by (simp add: of_nat_diff)
      moreover have "(of_nat d :: u64) = of_nat (d - ?n) + of_nat ?n"
        using 3 by (metis le_add_diff_inverse2 of_nat_add)
      ultimately show ?thesis by (simp add: algebra_simps)
    qed
    moreover have "d \<le> unat q \<Longrightarrow> q - of_nat d \<noteq> q"
      using unat_minus_of_nat [of d q] d 3 n by (auto simp: word_unat_eq_iff)
    ultimately show ?thesis
      using 3 n d rep by (auto simp: left window_rep_def)
  qed
qed

lemma window_commit_rep:
  assumes rep: "window_rep w S" and ok: "ReplayWindow_accepted w q"
  shows "window_rep (snd (ReplayWindow_commit w q)) (insert q S)"
proof (cases "rw_initialized w")
  case False
  with rep ok show ?thesis
    by (auto simp: ReplayWindow_commit_def window_rep_def bit_1_iff of_nat_eq_0_small)
next
  case init: True
  let ?h = "rw_high_water w"
  have top: "?h \<in> S" and below: "\<forall>x\<in>S. x \<le> ?h"
    using rep init by (auto simp: window_rep_def)
  show ?thesis
  proof (cases "?h < q")
    case True
    then show ?thesis
      using ok init below shifted_bitmap [OF rep init True]
      by (auto simp: ReplayWindow_commit_def window_rep_def Let_def)
  next
    case False
    then have le: "q \<le> ?h" by simp
    have near: "unat ?h - unat q < 64"
      using window_accepted_spec [OF rep, of q] ok top by (auto simp: replay_spec_def)
    have n: "unat (?h - q) = unat ?h - unat q" using le by (simp add: unat_sub)
    have "bit (rw_bitmap w OR push_bit (unat (?h - q)) 1) d \<longleftrightarrow>
        d \<le> unat ?h \<and> ?h - of_nat d \<in> insert q S" if d: "d < 64" for d
    proof -
      have "d \<le> unat ?h \<and> ?h - of_nat d = q \<longleftrightarrow> d = unat ?h - unat q"
        using unat_minus_of_nat [of d ?h] d near le
        by (auto simp: word_unat_eq_iff word_le_nat_alt)
      then show ?thesis
        using rep init d n near by (auto simp: window_rep_def bit_simps)
    qed
    then show ?thesis
      using ok init False le top below by (auto simp: ReplayWindow_commit_def window_rep_def)
  qed
qed

section \<open>The interface between the window and its users\<close>

text \<open>
  \<open>commit_run\<close> offers a list of sequence numbers to a filter, one after the other, and collects
  the ones it admits; \<open>spec_run\<close> does the same with the set specification.
\<close>

fun commit_run :: "('w \<Rightarrow> u64 \<Rightarrow> bool \<times> 'w) \<Rightarrow> 'w \<Rightarrow> u64 list \<Rightarrow> u64 list \<times> 'w" where
  "commit_run c w [] = ([], w)"
| "commit_run c w (q # qs) =
     (case c w q of (ok, w') \<Rightarrow>
       (case commit_run c w' qs of (acc, w'') \<Rightarrow> (if ok then q # acc else acc, w'')))"

fun spec_run :: "u64 set \<Rightarrow> u64 list \<Rightarrow> u64 list" where
  "spec_run S [] = []"
| "spec_run S (q # qs) = (if replay_spec S q then q # spec_run (insert q S) qs else spec_run S qs)"

locale replay_filter =
  fixes accepted :: "'w \<Rightarrow> u64 \<Rightarrow> bool"
    and commit :: "'w \<Rightarrow> u64 \<Rightarrow> bool \<times> 'w"
    and reset :: "'w \<Rightarrow> 'w"
    and rep :: "'w \<Rightarrow> u64 set \<Rightarrow> bool"
  assumes rep_reset: "rep (reset w) {}"
    and accepted_iff: "rep w S \<Longrightarrow> accepted w q \<longleftrightarrow> replay_spec S q"
    and commit_result: "fst (commit w q) = accepted w q"
    and commit_refused: "\<not> accepted w q \<Longrightarrow> snd (commit w q) = w"
    and commit_admits: "rep w S \<Longrightarrow> accepted w q \<Longrightarrow> rep (snd (commit w q)) (insert q S)"
begin

lemma committed_never_accepted: "rep w S \<Longrightarrow> q \<in> S \<Longrightarrow> \<not> accepted w q"
  by (simp add: accepted_iff replay_spec_def)

lemma newer_accepted: "rep w S \<Longrightarrow> \<forall>x\<in>S. x < q \<Longrightarrow> accepted w q"
  by (fastforce simp: accepted_iff replay_spec_def word_less_nat_alt)

lemma commit_rep:
  "rep w S \<Longrightarrow> rep (snd (commit w q)) (if fst (commit w q) then insert q S else S)"
  by (simp add: commit_result commit_refused commit_admits)

lemma committed_refused_after: "rep w S \<Longrightarrow> \<not> accepted (snd (commit w q)) q \<or> \<not> accepted w q"
  using commit_admits committed_never_accepted by blast

lemma run_refines: "rep w S \<Longrightarrow> commit_run commit w qs = (acc, w') \<Longrightarrow> acc = spec_run S qs"
proof (induction qs arbitrary: w S acc)
  case Nil
  then show ?case by simp
next
  case (Cons q qs)
  obtain ok v where c: "commit w q = (ok, v)" by fastforce
  obtain acc' where r: "commit_run commit v qs = (acc', w')" and acc: "acc = (if ok then q # acc' else acc')"
    using Cons.prems(2) by (auto simp: c split: prod.splits)
  have "ok = replay_spec S q"
    using commit_result [of w q] accepted_iff [OF Cons.prems(1)] c by simp
  moreover have "rep v (if ok then insert q S else S)"
    using commit_rep [OF Cons.prems(1), of q] by (simp add: c)
  ultimately show ?case
    using Cons.IH [OF _ r] by (auto simp: acc split: if_splits)
qed

lemma run_distinct:
  "rep w S \<Longrightarrow> commit_run commit w qs = (acc, w') \<Longrightarrow>
     distinct acc \<and> set acc \<inter> S = {} \<and> rep w' (S \<union> set acc)"
proof (induction qs arbitrary: w S acc)
  case Nil
  then show ?case by simp
next
  case (Cons q qs)
  obtain ok v where c: "commit w q = (ok, v)" by fastforce
  obtain acc' where r: "commit_run commit v qs = (acc', w')" and acc: "acc = (if ok then q # acc' else acc')"
    using Cons.prems(2) by (auto simp: c split: prod.splits)
  have "rep v (if ok then insert q S else S)"
    using commit_rep [OF Cons.prems(1), of q] by (simp add: c)
  from Cons.IH [OF this r] have IH: "distinct acc'" "set acc' \<inter> (if ok then insert q S else S) = {}"
    "rep w' ((if ok then insert q S else S) \<union> set acc')"
    by auto
  moreover have "ok \<Longrightarrow> q \<notin> S"
    using commit_result [of w q] c Cons.prems(1) committed_never_accepted by auto
  ultimately show ?case by (auto simp: acc split: if_splits)
qed

end

lemma window_rep_reset: "window_rep (ReplayWindow_reset w) {}"
  by (simp add: window_rep_def ReplayWindow_reset_def)

lemma window_rep_fresh: "window_rep fresh_window {}"
  by (simp add: window_rep_def fresh_window_def)

interpretation window: replay_filter ReplayWindow_accepted ReplayWindow_commit ReplayWindow_reset window_rep
proof unfold_locales
  show "fst (ReplayWindow_commit w q) = ReplayWindow_accepted w q" for w q
    by (simp add: ReplayWindow_commit_def Let_def)
  show "\<not> ReplayWindow_accepted w q \<Longrightarrow> snd (ReplayWindow_commit w q) = w" for w q
    by (simp add: ReplayWindow_commit_def)
qed (simp_all add: window_rep_reset window_accepted_spec window_commit_rep)

section \<open>Properties\<close>

text \<open>
  C8: the 64-bit sliding window implements its specification. Offered any list of sequence
  numbers, the window of \<^verbatim>\<open>ReplayWindow\<close> admits exactly those that the specification on the set
  of all numbers admitted so far allows: not admitted before, and less than 64 behind the highest.
\<close>

theorem replay_window_refines_set:
  "fst (commit_run ReplayWindow_commit fresh_window qs) = spec_run {} qs \<and>
   (\<forall>q \<in> set (spec_run {} qs). \<not> ReplayWindow_accepted (snd (commit_run ReplayWindow_commit fresh_window qs)) q)"
proof -
  obtain acc w where run: "commit_run ReplayWindow_commit fresh_window qs = (acc, w)" by fastforce
  have "acc = spec_run {} qs" and "window_rep w (set acc)"
    using window.run_refines [OF window_rep_fresh run] window.run_distinct [OF window_rep_fresh run]
    by simp_all
  then show ?thesis
    using run window.committed_never_accepted by auto
qed

theorem replay_window_refines_set_witness:
  "spec_run {} [5, 70, 6, 7, 6, 5, 70] = [5, 70, 7] \<and>
   fst (commit_run ReplayWindow_commit fresh_window [5, 70, 6, 7, 6, 5, 70]) = [5, 70, 7]"
proof -
  have "spec_run {} [5, 70, 6, 7, 6, 5, 70] = [5, 70, 7 :: u64]"
    by (simp add: replay_spec_def)
  then show ?thesis
    using replay_window_refines_set [of "[5, 70, 6, 7, 6, 5, 70]"] by simp
qed

end
