(* ===== verification/Record_Layer.thy ===== *)
theory Record_Layer
  imports Crypto Crc16 Replay_Window
begin

text \<open>
  The record layer of \<^verbatim>\<open>src/record.cpp\<close>: the canonical header codec and
  \<^verbatim>\<open>class Session\<close> with \<^verbatim>\<open>seal\<close>, \<^verbatim>\<open>open_uncommitted\<close>, \<^verbatim>\<open>commit_replay\<close> and
  \<^verbatim>\<open>rekey\<close>. A result \<open>Inl e\<close> is a \<^verbatim>\<open>false\<close> return with \<^verbatim>\<open>error\<close> set to \<open>e\<close>; the
  session after the call is part of the result of every operation that is not \<^verbatim>\<open>const\<close>.
\<close>

section \<open>Data\<close>

datatype RecordError =
    RE_None | RE_InvalidHeader | RE_InvalidKeys | RE_InvalidLength | RE_AuthenticationFailed
  | RE_Replay | RE_Expired | RE_SequenceExhausted | RE_InvalidPayload | RE_Timeout

record OpenRecord =
  or_header :: RecordHeader
  or_payload :: "byte list"
  or_length :: nat

record Session =
  s_keys :: DirectionalKeys
  s_replay :: ReplayWindow
  s_send_high_water :: u64
  s_send_initialized :: bool

section \<open>The canonical header\<close>

definition encode_header :: "RecordHeader \<Rightarrow> byte list \<Rightarrow> bool \<Rightarrow> byte list" where
  "encode_header h out with_crc =
     (let out = put_at out 0 [h_version h];
          out = put_at out 1 [h_flags h];
          out = put_at out 2 [MessageType_u8 (h_type h)];
          out = put_at out 3 [Qos_u8 (h_qos h)];
          out = put_at out 4 (put16 (h_source_id h));
          out = put_at out 6 (put16 (h_destination_id h));
          out = put_at out 8 (put64 (h_session_id h));
          out = put_at out 16 (put64 (h_epoch h));
          out = put_at out 24 (put64 (h_sequence h));
          out = put_at out 32 (put16 (h_payload_len h));
          out = put_at out 34 (put16 (h_deadline_ms h));
          out = put_at out 36 (put16 (if with_crc then h_header_crc16 h else 0))
      in put_at out 38 (put16 0))"

definition decode_header :: "ptr \<Rightarrow> RecordHeader option" where
  "decode_header inp =
     (case inp of
        None \<Rightarrow> None
      | Some b \<Rightarrow>
          let h = \<lparr>h_version = b ! 0, h_flags = b ! 1, h_type = MessageType_of_u8 (b ! 2),
                   h_qos = Qos_of_u8 (b ! 3), h_source_id = get16 b 4, h_destination_id = get16 b 6,
                   h_session_id = get64 b 8, h_epoch = get64 b 16, h_sequence = get64 b 24,
                   h_payload_len = get16 b 32, h_deadline_ms = get16 b 34,
                   h_header_crc16 = get16 b 36\<rparr>
          in if b ! 38 \<noteq> 0 \<or> b ! 39 \<noteq> 0 then None
             else if crc16_ccitt (Some b) 36 = h_header_crc16 h then Some h else None)"

definition valid_keys :: "DirectionalKeys \<Rightarrow> bool" where
  "valid_keys k \<longleftrightarrow> sid_value (dk_session k) \<noteq> 0 \<and> sid_epoch (dk_session k) \<noteq> 0 \<and>
     dk_local_id k \<noteq> 0 \<and> dk_peer_id k \<noteq> 0 \<and> dk_local_id k \<noteq> dk_peer_id k \<and>
     list_ex (\<lambda>x. x \<noteq> 0) (dk_tx k) \<and> list_ex (\<lambda>x. x \<noteq> 0) (dk_rx k) \<and> dk_tx k \<noteq> dk_rx k"

section \<open>Sessions\<close>

definition new_Session :: "DirectionalKeys \<Rightarrow> Session" where
  "new_Session keys = \<lparr>s_keys = keys, s_replay = fresh_window, s_send_high_water = 0,
     s_send_initialized = False\<rparr>"

definition Session_seal ::
    "ascon \<Rightarrow> Session \<Rightarrow> RecordHeader \<Rightarrow> ptr \<Rightarrow> nat \<Rightarrow> byte list \<Rightarrow>
     (RecordError + byte list \<times> nat) \<times> Session" where
  "Session_seal A s input plaintext len output =
     (if \<not> valid_keys (s_keys s) then (Inl RE_InvalidKeys, s)
      else if \<not> known_type (h_type input) \<or> h_flags input > kKnownFlags \<or>
         Qos_u8 (h_qos input) > Qos_u8 Qos_Explicit \<or> h_source_id input \<noteq> dk_local_id (s_keys s) \<or>
         h_destination_id input \<noteq> dk_peer_id (s_keys s) \<or>
         h_session_id input \<noteq> sid_value (dk_session (s_keys s)) \<or>
         h_epoch input \<noteq> sid_epoch (dk_session (s_keys s)) \<or> len > kMaxPayloadBytes \<or>
         (plaintext = None \<and> len \<noteq> 0) \<or> h_sequence input = - 1 \<or>
         (s_send_initialized s \<and> h_sequence input \<le> s_send_high_water s)
      then (Inl RE_InvalidHeader, s)
      else
        let h = input\<lparr>h_version := kVersion, h_payload_len := of_nat len,
                      h_header_crc16 := crc16_ccitt None 0\<rparr>;
            output = encode_header h output False;
            h = h\<lparr>h_header_crc16 := crc16_ccitt (Some output) 36\<rparr>;
            output = encode_header h output True;
            nonce = make_nonce (dk_session (s_keys s)) (h_sequence h)
        in case aead_seal A (dk_tx (s_keys s)) nonce (Some output) kHeaderBytes plaintext len
                  (Some (drop kHeaderBytes output)) (kMaxRecordBytes - kHeaderBytes) of
             None \<Rightarrow> (Inl RE_AuthenticationFailed, s)
           | Some (body, cipher_length) \<Rightarrow>
               (Inr (take kHeaderBytes output @ body, kHeaderBytes + cipher_length),
                s\<lparr>s_send_high_water := h_sequence h, s_send_initialized := True\<rparr>))"

definition Session_open_uncommitted ::
    "ascon \<Rightarrow> Session \<Rightarrow> ptr \<Rightarrow> nat \<Rightarrow> u32 \<Rightarrow> RecordError + OpenRecord" where
  "Session_open_uncommitted A s rcd record_length now_ms =
     (if \<not> valid_keys (s_keys s) then Inl RE_InvalidKeys
      else case rcd of
        None \<Rightarrow> Inl RE_InvalidLength
      | Some bytes \<Rightarrow>
          if record_length < kHeaderBytes + kTagBytes \<or> record_length > kMaxRecordBytes
          then Inl RE_InvalidLength
          else case decode_header (Some bytes) of
            None \<Rightarrow> Inl RE_InvalidHeader
          | Some h \<Rightarrow>
              if h_version h \<noteq> kVersion \<or> \<not> known_type (h_type h) \<or> h_flags h > kKnownFlags \<or>
                 Qos_u8 (h_qos h) > Qos_u8 Qos_Explicit \<or> h_source_id h \<noteq> dk_peer_id (s_keys s) \<or>
                 h_destination_id h \<noteq> dk_local_id (s_keys s) \<or>
                 h_session_id h \<noteq> sid_value (dk_session (s_keys s)) \<or>
                 h_epoch h \<noteq> sid_epoch (dk_session (s_keys s)) \<or>
                 unat (h_payload_len h) > kMaxPayloadBytes \<or>
                 record_length \<noteq> kHeaderBytes + unat (h_payload_len h) + kTagBytes
              then Inl RE_InvalidHeader
              else if h_deadline_ms h \<noteq> 0 \<and> now_ms > ucast (h_deadline_ms h) then Inl RE_Expired
              else if \<not> ReplayWindow_accepted (s_replay s) (h_sequence h) then Inl RE_Replay
              else
                let nonce = make_nonce (dk_session (s_keys s)) (h_sequence h)
                in case aead_open A (dk_rx (s_keys s)) nonce (Some bytes) kHeaderBytes
                          (Some (drop kHeaderBytes bytes)) (record_length - kHeaderBytes)
                          (Some (replicate kMaxPayloadBytes 0)) kMaxPayloadBytes of
                     None \<Rightarrow> Inl RE_AuthenticationFailed
                   | Some (payload, n) \<Rightarrow>
                       Inr \<lparr>or_header = h, or_payload = payload, or_length = n\<rparr>)"

definition Session_commit_replay :: "Session \<Rightarrow> OpenRecord \<Rightarrow> (RecordError + unit) \<times> Session" where
  "Session_commit_replay s out =
     (case ReplayWindow_commit (s_replay s) (h_sequence (or_header out)) of
        (ok, w) \<Rightarrow> (if ok then Inr () else Inl RE_Replay, s\<lparr>s_replay := w\<rparr>))"

definition Session_rekey :: "Session \<Rightarrow> DirectionalKeys \<Rightarrow> (RecordError + unit) \<times> Session" where
  "Session_rekey s next_keys =
     (if \<not> valid_keys next_keys \<or> dk_local_id next_keys \<noteq> dk_local_id (s_keys s) \<or>
         dk_peer_id next_keys \<noteq> dk_peer_id (s_keys s) \<or>
         sid_value (dk_session next_keys) \<noteq> sid_value (dk_session (s_keys s)) \<or>
         sid_epoch (dk_session next_keys) \<le> sid_epoch (dk_session (s_keys s))
      then (Inl RE_InvalidHeader, s)
      else (Inr (), s\<lparr>s_keys := next_keys, s_replay := ReplayWindow_reset (s_replay s),
                      s_send_high_water := 0, s_send_initialized := False\<rparr>))"

section \<open>The header image\<close>

text \<open>The 36 bytes the checksum covers, and the whole 40-byte header with checksum field \<open>c\<close>.\<close>

definition header_prefix :: "RecordHeader \<Rightarrow> byte list" where
  "header_prefix h =
     [h_version h, h_flags h, MessageType_u8 (h_type h), Qos_u8 (h_qos h)] @
     put16 (h_source_id h) @ put16 (h_destination_id h) @ put64 (h_session_id h) @
     put64 (h_epoch h) @ put64 (h_sequence h) @ put16 (h_payload_len h) @ put16 (h_deadline_ms h)"

definition header_image :: "RecordHeader \<Rightarrow> u16 \<Rightarrow> byte list" where
  "header_image h c = header_prefix h @ put16 c @ put16 0"

definition header_crc :: "RecordHeader \<Rightarrow> u16" where
  "header_crc h = crc16_ccitt (Some (header_prefix h)) 36"

lemma length_header_prefix [simp]: "length (header_prefix h) = 36"
  by (simp add: header_prefix_def)

lemma length_header_image [simp]: "length (header_image h c) = 40"
  by (simp add: header_image_def)

lemma header_prefix_crc [simp]: "header_prefix (h\<lparr>h_header_crc16 := c\<rparr>) = header_prefix h"
  by (simp add: header_prefix_def)

lemma header_crc_crc [simp]: "header_crc (h\<lparr>h_header_crc16 := c\<rparr>) = header_crc h"
  by (simp add: header_crc_def)

lemma header_image_crc [simp]: "header_image (h\<lparr>h_header_crc16 := c\<rparr>) = header_image h"
  by (simp add: header_image_def fun_eq_iff)

lemma encode_header_image:
  assumes "40 \<le> length out"
  shows "encode_header h out with_crc =
    header_image h (if with_crc then h_header_crc16 h else 0) @ drop 40 out"
  using assms by (simp add: encode_header_def header_image_def header_prefix_def codec_simps)

lemma crc16_header_image [simp]: "crc16_ccitt (Some (header_image h c @ rest)) 36 = header_crc h"
  by (simp add: header_image_def header_crc_def crc16_ccitt_Some)

lemma crc16_header_image_end [simp]: "crc16_ccitt (Some (header_image h c)) 36 = header_crc h"
  using crc16_header_image [of h c "[]"] by simp

lemma decode_header_image:
  assumes "canonical_type (h_type h)" and "canonical_qos (h_qos h)"
  shows "decode_header (Some (header_image h c @ rest)) =
    (if c = header_crc h then Some (h\<lparr>h_header_crc16 := c\<rparr>) else None)"
proof -
  have z: "put16 0 = [0, 0]" by (simp add: put16_def)
  have "crc16_ccitt (Some (header_prefix h @ put16 c @ [0, 0] @ rest)) 36 = header_crc h"
    using crc16_header_image [of h c rest] by (simp add: header_image_def z)
  then show ?thesis
    using assms by (auto simp: decode_header_def header_image_def header_prefix_def Let_def z
      codec_simps canonical_type_def canonical_qos_def)
qed

lemma decode_header_SomeD:
  assumes "decode_header (Some b) = Some h" and "40 \<le> length b"
  shows "take 40 b = header_image h (header_crc h)" and "h_header_crc16 h = header_crc h"
    and "canonical_type (h_type h)" and "canonical_qos (h_qos h)"
proof -
  have h: "h = \<lparr>h_version = b ! 0, h_flags = b ! 1, h_type = MessageType_of_u8 (b ! 2),
      h_qos = Qos_of_u8 (b ! 3), h_source_id = get16 b 4, h_destination_id = get16 b 6,
      h_session_id = get64 b 8, h_epoch = get64 b 16, h_sequence = get64 b 24,
      h_payload_len = get16 b 32, h_deadline_ms = get16 b 34, h_header_crc16 = get16 b 36\<rparr>"
    and zero: "b ! 38 = 0" "b ! 39 = 0" and crc: "crc16_ccitt (Some b) 36 = get16 b 36"
    using assms(1) by (auto simp: decode_header_def Let_def split: if_splits)
  have prefix: "header_prefix h = take 36 b"
    using assms(2) by (simp add: h header_prefix_def rejoin_simps)
  show same: "h_header_crc16 h = header_crc h"
    using assms(2) crc by (simp add: header_crc_def prefix crc16_ccitt_take) (simp add: h)
  have pad: "put16 0 = take 2 (drop 38 b)"
    using assms(2) zero
    by (auto simp: put16_def list_eq_iff_nth_eq less_Suc_eq numeral_2_eq_2 eval_nat_numeral)
  have "header_image h (get16 b 36) = take 36 (drop 0 b) @ take 2 (drop 36 b) @ take 2 (drop 38 b)"
    using assms(2) by (simp add: header_image_def prefix pad put16_get16)
  then show "take 40 b = header_image h (header_crc h)"
    using same by (simp only: rejoin_simps) (simp add: h)
  show "canonical_type (h_type h)" and "canonical_qos (h_qos h)"
    by (simp_all add: h)
qed

section \<open>Inversion of the session operations\<close>

definition seal_guard :: "Session \<Rightarrow> RecordHeader \<Rightarrow> ptr \<Rightarrow> nat \<Rightarrow> bool" where
  "seal_guard s h plaintext len \<longleftrightarrow> known_type (h_type h) \<and> h_flags h \<le> kKnownFlags \<and>
     Qos_u8 (h_qos h) \<le> Qos_u8 Qos_Explicit \<and> h_source_id h = dk_local_id (s_keys s) \<and>
     h_destination_id h = dk_peer_id (s_keys s) \<and> h_session_id h = sid_value (dk_session (s_keys s)) \<and>
     h_epoch h = sid_epoch (dk_session (s_keys s)) \<and> len \<le> kMaxPayloadBytes \<and>
     (plaintext = None \<longrightarrow> len = 0) \<and> h_sequence h \<noteq> - 1 \<and>
     (s_send_initialized s \<longrightarrow> s_send_high_water s < h_sequence h)"

text \<open>The header a session puts on the wire for a caller's header and payload length.\<close>

definition sealed_header :: "RecordHeader \<Rightarrow> nat \<Rightarrow> RecordHeader" where
  "sealed_header h len =
     (let h' = h\<lparr>h_version := kVersion, h_payload_len := of_nat len\<rparr>
      in h'\<lparr>h_header_crc16 := header_crc h'\<rparr>)"

lemma sealed_header_simps [simp]:
  "h_sequence (sealed_header h len) = h_sequence h" "h_type (sealed_header h len) = h_type h"
  "h_qos (sealed_header h len) = h_qos h" "h_flags (sealed_header h len) = h_flags h"
  "h_source_id (sealed_header h len) = h_source_id h" "h_version (sealed_header h len) = kVersion"
  "h_destination_id (sealed_header h len) = h_destination_id h" "h_epoch (sealed_header h len) = h_epoch h"
  "h_session_id (sealed_header h len) = h_session_id h" "h_payload_len (sealed_header h len) = of_nat len"
  "h_deadline_ms (sealed_header h len) = h_deadline_ms h"
  "h_header_crc16 (sealed_header h len) = header_crc (sealed_header h len)"
  by (simp_all add: sealed_header_def Let_def)

lemma Session_seal_cases:
  assumes "length output = kMaxRecordBytes"
  shows "Session_seal A s h plaintext len output =
    (if \<not> valid_keys (s_keys s) then (Inl RE_InvalidKeys, s)
     else if \<not> seal_guard s h plaintext len then (Inl RE_InvalidHeader, s)
     else case crypto_aead_encrypt A (take len (case_option [] id plaintext))
         (header_image (sealed_header h len) (header_crc (sealed_header h len)))
         (make_nonce (dk_session (s_keys s)) (h_sequence h)) (dk_tx (s_keys s)) of
       None \<Rightarrow> (Inl RE_AuthenticationFailed, s)
     | Some c \<Rightarrow>
         if length c \<noteq> len + kTagBytes then (Inl RE_AuthenticationFailed, s)
         else (Inr (header_image (sealed_header h len) (header_crc (sealed_header h len)) @ c @
                 drop (kHeaderBytes + length c) output, kHeaderBytes + length c),
               s\<lparr>s_send_high_water := h_sequence h, s_send_initialized := True\<rparr>))"
proof -
  let ?h = "h\<lparr>h_version := kVersion, h_payload_len := of_nat len, h_header_crc16 := crc16_ccitt None 0\<rparr>"
  have image: "header_image (h\<lparr>h_version := kVersion, h_payload_len := of_nat len\<rparr>) =
      header_image (sealed_header h len)"
    by (simp add: sealed_header_def Let_def)
  have len: "40 \<le> length output"
    using assms by (simp add: wire_consts)
  have guard: "(\<not> known_type (h_type h) \<or> h_flags h > kKnownFlags \<or>
      Qos_u8 (h_qos h) > Qos_u8 Qos_Explicit \<or> h_source_id h \<noteq> dk_local_id (s_keys s) \<or>
      h_destination_id h \<noteq> dk_peer_id (s_keys s) \<or>
      h_session_id h \<noteq> sid_value (dk_session (s_keys s)) \<or>
      h_epoch h \<noteq> sid_epoch (dk_session (s_keys s)) \<or> len > kMaxPayloadBytes \<or>
      (plaintext = None \<and> len \<noteq> 0) \<or> h_sequence h = - 1 \<or>
      (s_send_initialized s \<and> h_sequence h \<le> s_send_high_water s)) \<longleftrightarrow> \<not> seal_guard s h plaintext len"
    unfolding seal_guard_def not_le [symmetric] by (simp only: de_Morgan_conj not_imp not_not)
  have first: "encode_header ?h output False = header_image (sealed_header h len) 0 @ drop 40 output"
    using len by (simp add: encode_header_image image)
  define m where "m = case_option [] id plaintext"
  define img where "img = header_image (sealed_header h len) (header_crc (sealed_header h len))"
  have second: "encode_header (?h\<lparr>h_header_crc16 := header_crc (sealed_header h len)\<rparr>)
      (header_image (sealed_header h len) 0 @ drop 40 output) True = img @ drop 40 output"
    using len by (simp add: encode_header_image image img_def)
  have len_img: "length img = 40" by (simp add: img_def)
  show ?thesis
  proof (cases "valid_keys (s_keys s) \<and> seal_guard s h plaintext len")
    case True
    then have bound: "len \<le> 768" and null: "\<not> (plaintext = None \<and> len \<noteq> 0)"
      by (auto simp: seal_guard_def wire_consts)
    show ?thesis
      using True bound null len len_img
      unfolding Session_seal_def guard Let_def first crc16_header_image second
        aead_seal_def m_def [symmetric] img_def [symmetric]
      by (simp add: wire_consts codec_simps split: option.split)
  next
    case False
    then show ?thesis unfolding Session_seal_def guard by auto
  qed
qed

definition open_guard :: "Session \<Rightarrow> RecordHeader \<Rightarrow> nat \<Rightarrow> bool" where
  "open_guard s h n \<longleftrightarrow> h_version h = kVersion \<and> known_type (h_type h) \<and> h_flags h \<le> kKnownFlags \<and>
     Qos_u8 (h_qos h) \<le> Qos_u8 Qos_Explicit \<and> h_source_id h = dk_peer_id (s_keys s) \<and>
     h_destination_id h = dk_local_id (s_keys s) \<and>
     h_session_id h = sid_value (dk_session (s_keys s)) \<and>
     h_epoch h = sid_epoch (dk_session (s_keys s)) \<and> unat (h_payload_len h) \<le> kMaxPayloadBytes \<and>
     n = kHeaderBytes + unat (h_payload_len h) + kTagBytes"

definition live :: "RecordHeader \<Rightarrow> u32 \<Rightarrow> bool" where
  "live h now_ms \<longleftrightarrow> h_deadline_ms h = 0 \<or> now_ms \<le> ucast (h_deadline_ms h)"

lemma Session_open_cases:
  "Session_open_uncommitted A s (Some bytes) n now_ms =
    (if \<not> valid_keys (s_keys s) then Inl RE_InvalidKeys
     else if n < kHeaderBytes + kTagBytes \<or> n > kMaxRecordBytes then Inl RE_InvalidLength
     else case decode_header (Some bytes) of
       None \<Rightarrow> Inl RE_InvalidHeader
     | Some h \<Rightarrow>
         if \<not> open_guard s h n then Inl RE_InvalidHeader
         else if \<not> live h now_ms then Inl RE_Expired
         else if \<not> ReplayWindow_accepted (s_replay s) (h_sequence h) then Inl RE_Replay
         else case crypto_aead_decrypt A (take (n - kHeaderBytes) (drop kHeaderBytes bytes))
             (take kHeaderBytes bytes) (make_nonce (dk_session (s_keys s)) (h_sequence h))
             (dk_rx (s_keys s)) of
           None \<Rightarrow> Inl RE_AuthenticationFailed
         | Some m \<Rightarrow>
             if length m \<noteq> unat (h_payload_len h) then Inl RE_AuthenticationFailed
             else Inr \<lparr>or_header = h, or_payload = put_at (replicate kMaxPayloadBytes 0) 0 m,
                       or_length = length m\<rparr>)"
proof -
  have guard: "(h_version h \<noteq> kVersion \<or> \<not> known_type (h_type h) \<or> h_flags h > kKnownFlags \<or>
      Qos_u8 (h_qos h) > Qos_u8 Qos_Explicit \<or> h_source_id h \<noteq> dk_peer_id (s_keys s) \<or>
      h_destination_id h \<noteq> dk_local_id (s_keys s) \<or>
      h_session_id h \<noteq> sid_value (dk_session (s_keys s)) \<or>
      h_epoch h \<noteq> sid_epoch (dk_session (s_keys s)) \<or> unat (h_payload_len h) > kMaxPayloadBytes \<or>
      n \<noteq> kHeaderBytes + unat (h_payload_len h) + kTagBytes) \<longleftrightarrow> \<not> open_guard s h n" for h
    unfolding open_guard_def not_le [symmetric] by (simp only: de_Morgan_conj not_not)
  have dead: "h_deadline_ms h \<noteq> 0 \<and> now_ms > ucast (h_deadline_ms h) \<longleftrightarrow> \<not> live h now_ms" for h
    by (simp add: live_def not_le)
  have sizes: "open_guard s h n \<Longrightarrow> n - kHeaderBytes - kTagBytes = unat (h_payload_len h) \<and>
      \<not> n - kHeaderBytes < kTagBytes \<and> \<not> kMaxPayloadBytes < unat (h_payload_len h) \<and>
      \<not> kMaxPayloadBytes + kTagBytes < n - kHeaderBytes" for h
    by (auto simp: open_guard_def)
  show ?thesis
    unfolding Session_open_uncommitted_def guard dead
    using sizes by (auto simp: aead_open_def Let_def split: option.split)
qed

lemma open_guard_length:
  "open_guard s h n \<Longrightarrow> \<not> n < kHeaderBytes + kTagBytes \<and> \<not> n > kMaxRecordBytes"
  by (auto simp: open_guard_def kMaxRecordBytes_def)

lemma Session_open_InrD:
  assumes "Session_open_uncommitted A s (Some bytes) n now_ms = Inr out"
  shows "valid_keys (s_keys s)" and "decode_header (Some bytes) = Some (or_header out)"
    and "open_guard s (or_header out) n" and "live (or_header out) now_ms"
    and "ReplayWindow_accepted (s_replay s) (h_sequence (or_header out))"
    and "or_length out = unat (h_payload_len (or_header out))"
    and "length (or_payload out) = kMaxPayloadBytes"
    and "crypto_aead_decrypt A (take (n - kHeaderBytes) (drop kHeaderBytes bytes))
      (take kHeaderBytes bytes) (make_nonce (dk_session (s_keys s)) (h_sequence (or_header out)))
      (dk_rx (s_keys s)) = Some (take (or_length out) (or_payload out))"
proof -
  let ?dec = "\<lambda>h. crypto_aead_decrypt A (take (n - kHeaderBytes) (drop kHeaderBytes bytes))
      (take kHeaderBytes bytes) (make_nonce (dk_session (s_keys s)) (h_sequence h)) (dk_rx (s_keys s))"
  obtain h m where h: "valid_keys (s_keys s)" "decode_header (Some bytes) = Some h"
      "open_guard s h n" "live h now_ms" "ReplayWindow_accepted (s_replay s) (h_sequence h)"
      "?dec h = Some m" "length m = unat (h_payload_len h)"
    and out: "out = \<lparr>or_header = h, or_payload = put_at (replicate kMaxPayloadBytes 0) 0 m,
      or_length = length m\<rparr>"
    using assms by (auto simp: Session_open_cases split: if_splits option.splits)
  have fits: "length m \<le> kMaxPayloadBytes" using h by (simp add: open_guard_def)
  show "valid_keys (s_keys s)" and "decode_header (Some bytes) = Some (or_header out)"
    and "open_guard s (or_header out) n" and "live (or_header out) now_ms"
    and "ReplayWindow_accepted (s_replay s) (h_sequence (or_header out))"
    and "or_length out = unat (h_payload_len (or_header out))"
    using h by (simp_all add: out)
  show "length (or_payload out) = kMaxPayloadBytes"
    using fits by (simp add: out)
  show "?dec (or_header out) = Some (take (or_length out) (or_payload out))"
    using h by (simp add: out put_at_0)
qed

text \<open>Two sessions whose keys fit together: what one transmits the other receives.\<close>

definition mirrored :: "DirectionalKeys \<Rightarrow> DirectionalKeys \<Rightarrow> bool" where
  "mirrored k k' \<longleftrightarrow> dk_session k = dk_session k' \<and> dk_local_id k = dk_peer_id k' \<and>
     dk_peer_id k = dk_local_id k' \<and> dk_tx k = dk_rx k' \<and> dk_rx k = dk_tx k'"

lemma mirrored_sym: "mirrored k k' \<longleftrightarrow> mirrored k' k"
  by (auto simp: mirrored_def)

lemma mirrored_valid: "mirrored k k' \<Longrightarrow> valid_keys k \<longleftrightarrow> valid_keys k'"
  by (auto simp: mirrored_def valid_keys_def)

lemma sealed_header_id:
  assumes "h_version h = kVersion" and "h_header_crc16 h = header_crc h"
    and "len = unat (h_payload_len h)"
  shows "sealed_header h len = h"
proof -
  have same: "h\<lparr>h_version := kVersion, h_payload_len := of_nat len\<rparr> = h"
    using assms(1,3) by (cases h) simp
  show ?thesis
    unfolding sealed_header_def same Let_def using assms(2) by (cases h) simp
qed

lemma canonical_type_known: "known_type t \<Longrightarrow> canonical_type t"
  by (simp add: canonical_type_def known_type_canonical)

abbreviation epoch_of :: "Session \<Rightarrow> u64" where
  "epoch_of s \<equiv> sid_epoch (dk_session (s_keys s))"

lemma Session_seal_InrD:
  "Session_seal A s h plain len output = (Inr r, s') \<Longrightarrow>
     valid_keys (s_keys s) \<and> seal_guard s h plain len \<and>
     s' = s\<lparr>s_send_high_water := h_sequence h, s_send_initialized := True\<rparr>"
  by (auto simp: Session_seal_def seal_guard_def Let_def split: if_splits option.splits)

lemma Session_seal_InlD: "Session_seal A s h plain len output = (Inl e, s') \<Longrightarrow> s' = s"
  by (auto simp: Session_seal_def Let_def split: if_splits option.splits)

definition rekey_guard :: "Session \<Rightarrow> DirectionalKeys \<Rightarrow> bool" where
  "rekey_guard s k \<longleftrightarrow> valid_keys k \<and> dk_local_id k = dk_local_id (s_keys s) \<and>
     dk_peer_id k = dk_peer_id (s_keys s) \<and>
     sid_value (dk_session k) = sid_value (dk_session (s_keys s)) \<and>
     epoch_of s < sid_epoch (dk_session k)"

lemma Session_rekey_eq:
  "Session_rekey s k =
     (if rekey_guard s k
      then (Inr (), s\<lparr>s_keys := k, s_replay := ReplayWindow_reset (s_replay s),
                      s_send_high_water := 0, s_send_initialized := False\<rparr>)
      else (Inl RE_InvalidHeader, s))"
  by (auto simp: Session_rekey_def rekey_guard_def)

lemma Session_seal_length:
  "Session_seal A s h plain len output = (Inr (buf, n), s') \<Longrightarrow> length output = kMaxRecordBytes \<Longrightarrow>
     length buf = kMaxRecordBytes"
  by (auto simp: Session_seal_cases seal_guard_def wire_consts split: if_splits option.splits)

lemma seal_opens:
  assumes A: "aead_correct A"
    and keys: "mirrored (s_keys s) (s_keys r)"
    and sealed: "Session_seal A s h (Some plain) len output = (Inr (buf, n), s')"
    and lens: "length output = kMaxRecordBytes" "len \<le> length plain"
    and "canonical_qos (h_qos h)"
    and live: "h_deadline_ms h = 0 \<or> now_ms \<le> ucast (h_deadline_ms h)"
    and fresh: "ReplayWindow_accepted (s_replay r) (h_sequence h)"
  shows "\<exists>out. Session_open_uncommitted A r (Some buf) n now_ms = Inr out \<and>
    or_header out = sealed_header h len \<and> or_length out = len \<and>
    take len (or_payload out) = take len plain"
proof -
  let ?h = "sealed_header h len"
  let ?img = "header_image ?h (header_crc ?h)"
  obtain c where c: "crypto_aead_encrypt A (take len plain) ?img
      (make_nonce (dk_session (s_keys s)) (h_sequence h)) (dk_tx (s_keys s)) = Some c"
    "length c = len + 16" "crypto_aead_decrypt A c ?img
      (make_nonce (dk_session (s_keys s)) (h_sequence h)) (dk_tx (s_keys s)) = Some (take len plain)"
    using encrypt_Some [OF A] lens(2) by fastforce
  from sealed have valid: "valid_keys (s_keys s)" and guard: "seal_guard s h (Some plain) len"
    and buf: "buf = ?img @ c @ drop (40 + length c) output" and n: "n = 40 + len + 16"
    using c by (auto simp: Session_seal_cases [OF lens(1)] wire_consts split: if_splits)
  have decode: "decode_header (Some buf) = Some ?h"
    using guard assms(6) by (simp add: buf decode_header_image canonical_type_known seal_guard_def)
  have bound: "len \<le> 768" using guard by (simp add: seal_guard_def wire_consts)
  then have len: "unat (of_nat len :: u16) = len"
    by (simp add: unat_of_nat take_bit_eq_mod)
  have og: "open_guard r ?h n"
    using guard keys bound len by (simp add: open_guard_def seal_guard_def mirrored_def wire_consts n)
  have dec: "crypto_aead_decrypt A (take (n - kHeaderBytes) (drop kHeaderBytes buf))
      (take kHeaderBytes buf) (make_nonce (dk_session (s_keys r)) (h_sequence ?h)) (dk_rx (s_keys r)) =
      Some (take len plain)"
    using c keys by (simp add: buf n wire_consts mirrored_def)
  have ok: "valid_keys (s_keys r)" "live ?h now_ms" "ReplayWindow_accepted (s_replay r) (h_sequence ?h)"
    using valid keys mirrored_valid live fresh by (auto simp: live_def)
  show ?thesis
    using decode og open_guard_length [OF og] dec ok len lens(2)
    by (simp add: Session_open_cases put_at_0)
qed

section \<open>Example sessions\<close>

definition example_keys :: DirectionalKeys where
  "example_keys = \<lparr>dk_session = \<lparr>sid_value = 77, sid_epoch = 3\<rparr>, dk_local_id = 1, dk_peer_id = 2,
     dk_tx = replicate 16 0xA1, dk_rx = replicate 16 0xB2\<rparr>"

definition example_peer_keys :: DirectionalKeys where
  "example_peer_keys = \<lparr>dk_session = \<lparr>sid_value = 77, sid_epoch = 3\<rparr>, dk_local_id = 2, dk_peer_id = 1,
     dk_tx = replicate 16 0xB2, dk_rx = replicate 16 0xA1\<rparr>"

definition example_header :: RecordHeader where
  "example_header = default_header\<lparr>h_type := MT_CommandRequest, h_source_id := 1, h_destination_id := 2,
     h_session_id := 77, h_epoch := 3, h_sequence := 4\<rparr>"

lemmas example_defs = example_keys_def example_peer_keys_def example_header_def default_header_def
  new_Session_def fresh_window_def

lemma example_valid: "valid_keys example_keys" "valid_keys example_peer_keys"
  by (simp_all add: example_defs valid_keys_def list_ex_iff)

lemma example_mirrored: "mirrored example_keys example_peer_keys"
  by (simp add: example_defs mirrored_def)

lemma example_guard: "seal_guard (new_Session example_keys) example_header (Some [1, 2, 3]) 3"
  by (simp add: example_defs seal_guard_def kKnownFlags_value wire_consts)

lemma example_sealed:
  "\<exists>buf. Session_seal xor_ascon (new_Session example_keys) example_header (Some [1, 2, 3]) 3
     (replicate kMaxRecordBytes 0) =
   (Inr (buf, 59), (new_Session example_keys)\<lparr>s_send_high_water := 4, s_send_initialized := True\<rparr>)"
proof -
  obtain c where "crypto_aead_encrypt xor_ascon [1, 2, 3]
      (header_image (sealed_header example_header 3) (header_crc (sealed_header example_header 3)))
      (make_nonce (dk_session example_keys) (h_sequence example_header)) (dk_tx example_keys) = Some c"
    and "length c = length [1 :: byte, 2, 3] + 16"
    using encrypt_Some [OF xor_ascon_correct] by blast
  moreover have "h_sequence example_header = 4" by (simp add: example_defs)
  ultimately show ?thesis
    using example_guard example_valid(1)
    by (simp add: Session_seal_cases wire_consts new_Session_def)
qed

section \<open>Properties\<close>

text \<open>
  C1: sealing and opening are inverse. If a session seals a record and the peer holds the mirrored
  keys, has not yet committed the sequence number (the window still accepts it) and the deadline
  has not passed, then opening the record succeeds and returns the caller's header with version,
  payload length and checksum filled in, and exactly the payload that was sealed.
\<close>

theorem seal_then_open:
  assumes A: "aead_correct A"
    and keys: "mirrored (s_keys s) (s_keys r)"
    and sealed: "Session_seal A s h (Some plain) len output = (Inr (buf, n), s')"
    and lens: "length output = kMaxRecordBytes" "len \<le> length plain"
    and "canonical_qos (h_qos h)"
    and live: "h_deadline_ms h = 0 \<or> now_ms \<le> ucast (h_deadline_ms h)"
    and fresh: "ReplayWindow_accepted (s_replay r) (h_sequence h)"
  shows "\<exists>out. Session_open_uncommitted A r (Some buf) n now_ms = Inr out \<and>
    or_header out = sealed_header h len \<and> or_length out = len \<and>
    take len (or_payload out) = take len plain"
  by (rule seal_opens [OF assms])

theorem seal_then_open_witness:
  "\<exists>buf n s' out. Session_seal xor_ascon (new_Session example_keys) example_header (Some [1, 2, 3]) 3
      (replicate kMaxRecordBytes 0) = (Inr (buf, n), s') \<and>
    Session_open_uncommitted xor_ascon (new_Session example_peer_keys) (Some buf) n 1000 = Inr out \<and>
    take 3 (or_payload out) = [1, 2, 3]"
proof -
  obtain buf where sealed: "Session_seal xor_ascon (new_Session example_keys) example_header (Some [1, 2, 3]) 3
      (replicate kMaxRecordBytes 0) =
    (Inr (buf, 59), (new_Session example_keys)\<lparr>s_send_high_water := 4, s_send_initialized := True\<rparr>)"
    using example_sealed by blast
  have "\<exists>out. Session_open_uncommitted xor_ascon (new_Session example_peer_keys) (Some buf) 59 1000 = Inr out \<and>
      or_header out = sealed_header example_header 3 \<and> or_length out = 3 \<and>
      take 3 (or_payload out) = take 3 [1, 2, 3]"
    by (rule seal_then_open [OF xor_ascon_correct _ sealed])
      (simp_all add: example_defs mirrored_def canonical_qos_def Qos_of_u8_def ReplayWindow_accepted_def)
  with sealed show ?thesis by auto
qed

text \<open>
  C2: opening accepts only what sealing produces. Every byte string that a session opens is, byte
  for byte, the record that a fresh session with the mirrored keys seals for the opened header and
  payload: no second encoding of a record is accepted, and any change to header, payload or tag
  gives either a rejection or a different sealed record. (Sequence number \<open>UINT64_MAX\<close> is the one
  number the sealing side refuses.)
\<close>

theorem opened_record_was_sealed:
  assumes A: "aead_tidy A" and keys: "mirrored (s_keys s) (s_keys r)"
    and opened: "Session_open_uncommitted A r (Some bytes) n now_ms = Inr out"
    and "n \<le> length bytes" and "h_sequence (or_header out) \<noteq> - 1"
    and "\<not> s_send_initialized s" and "length output = kMaxRecordBytes"
  shows "\<exists>buf s'. Session_seal A s (or_header out) (Some (or_payload out)) (or_length out) output =
    (Inr (buf, n), s') \<and> take n buf = take n bytes"
proof -
  note inv = Session_open_InrD [OF opened]
  let ?h = "or_header out"
  have n: "n = 40 + or_length out + 16" and len: "or_length out \<le> 768"
    using inv(3,6) by (auto simp: open_guard_def wire_consts)
  have bytes: "40 \<le> length bytes" using n assms(4) by simp
  note head = decode_header_SomeD [OF inv(2) bytes]
  have same: "sealed_header ?h (or_length out) = ?h"
    using inv(3,6) head(2) by (intro sealed_header_id) (simp_all add: open_guard_def)
  have guard: "seal_guard s ?h (Some (or_payload out)) (or_length out)"
    using inv(3) keys assms(5,6) len by (simp add: seal_guard_def open_guard_def mirrored_def wire_consts)
  have "crypto_aead_encrypt A (take (or_length out) (or_payload out)) (take 40 bytes)
      (make_nonce (dk_session (s_keys s)) (h_sequence ?h)) (dk_tx (s_keys s)) =
      Some (take (n - 40) (drop 40 bytes))"
    using A inv(8) keys by (simp add: aead_tidy_def mirrored_def wire_consts)
  then have enc: "crypto_aead_encrypt A (take (or_length out) (or_payload out))
      (header_image ?h (header_crc ?h))
      (make_nonce (dk_session (s_keys s)) (h_sequence ?h)) (dk_tx (s_keys s)) =
      Some (take (n - 40) (drop 40 bytes))"
    using head(1) by simp
  have "valid_keys (s_keys s)" using inv(1) keys mirrored_valid by blast
  moreover have "length (take (n - 40) (drop 40 bytes)) = or_length out + 16"
    using n assms(4) by simp
  moreover have "header_image ?h (header_crc ?h) @ take (n - 40) (drop 40 bytes) = take n bytes"
    using n take_add [of 40 "n - 40" bytes] by (simp flip: head(1))
  ultimately show ?thesis
    using guard enc n assms(4) by (simp add: Session_seal_cases [OF assms(7)] same wire_consts)
qed

theorem opened_record_was_sealed_witness:
  "\<exists>bytes out buf s'. Session_open_uncommitted xor_ascon (new_Session example_peer_keys) (Some bytes) 59 0 = Inr out \<and>
    Session_seal xor_ascon (new_Session example_keys) (or_header out) (Some (or_payload out)) (or_length out)
      (replicate kMaxRecordBytes 0) = (Inr (buf, 59), s') \<and> take 59 buf = take 59 bytes"
proof -
  obtain buf where sealed: "Session_seal xor_ascon (new_Session example_keys) example_header (Some [1, 2, 3]) 3
      (replicate kMaxRecordBytes 0) =
    (Inr (buf, 59), (new_Session example_keys)\<lparr>s_send_high_water := 4, s_send_initialized := True\<rparr>)"
    using example_sealed by blast
  obtain out where opened: "Session_open_uncommitted xor_ascon (new_Session example_peer_keys) (Some buf) 59 0 = Inr out"
    and header: "or_header out = sealed_header example_header 3"
    using seal_opens [OF xor_ascon_correct _ sealed, of "new_Session example_peer_keys" 0]
    by (auto simp: example_defs mirrored_def canonical_qos_def Qos_of_u8_def ReplayWindow_accepted_def)
  have "59 \<le> length buf"
    using Session_seal_length [OF sealed] by (simp add: wire_consts)
  then have "\<exists>b s'. Session_seal xor_ascon (new_Session example_keys) (or_header out) (Some (or_payload out))
      (or_length out) (replicate kMaxRecordBytes 0) = (Inr (b, 59), s') \<and> take 59 b = take 59 buf"
    by (intro opened_record_was_sealed [OF xor_ascon_tidy _ opened])
      (simp_all add: header example_defs mirrored_def)
  with opened show ?thesis by blast
qed

text \<open>
  C19: a damaged header is rejected. If a 40-byte header decodes, then changing up to two adjacent
  bytes of the 36 bytes the checksum covers makes \<^verbatim>\<open>decode_header\<close> fail, whatever fields the
  bytes belong to.
\<close>

theorem damaged_header_rejected:
  assumes "decode_header (Some (pre @ [a, b] @ post)) = Some h"
    and "length pre + 2 \<le> 36" and "40 \<le> length (pre @ [a, b] @ post)" and "(a, b) \<noteq> (a', b')"
  shows "decode_header (Some (pre @ [a', b'] @ post)) = None"
proof -
  define k where "k = 34 - length pre"
  have k: "36 - length pre = Suc (Suc k)" "length pre + 2 + k = 36" "k \<le> length post"
    using assms(2,3) by (auto simp: k_def)
  have cut: "take 36 (pre @ [x, y] @ post) = pre @ [x, y] @ take k post" for x y
    using assms(2) k(1) by simp
  have crc: "crc16_ccitt (Some (pre @ [x, y] @ post)) 36 = crc16_ccitt (Some (pre @ [x, y] @ take k post)) 36" for x y
  proof -
    have "36 \<le> length (pre @ [x, y] @ post)" using assms(3) by simp
    then show ?thesis using crc16_ccitt_take cut by metis
  qed
  have "crc16_ccitt (Some (pre @ [a, b] @ post)) 36 \<noteq> crc16_ccitt (Some (pre @ [a', b'] @ post)) 36"
    unfolding crc by (rule crc_burst) (use k assms(4) in auto)
  moreover have "get16 (pre @ [x, y] @ post) 36 = get16 post k" for x y
    using assms(2) k by (simp add: codec_simps numeral_eq_Suc)
  ultimately show ?thesis
    using assms(1) by (auto simp: decode_header_def Let_def split: if_splits)
qed

theorem damaged_header_rejected_witness:
  "\<exists>post. decode_header (Some ([1, 0] @ post)) \<noteq> None \<and> decode_header (Some ([1, 5] @ post)) = None"
proof -
  let ?h = "sealed_header example_header 3"
  let ?post = "drop 2 (header_image ?h (header_crc ?h))"
  have image: "header_image ?h (header_crc ?h) = [1, 0] @ ?post"
    by (simp add: header_image_def header_prefix_def example_defs kVersion_def)
  have "decode_header (Some (header_image ?h (header_crc ?h) @ [])) =
      Some (?h\<lparr>h_header_crc16 := header_crc ?h\<rparr>)"
    by (subst decode_header_image) (simp_all add: example_defs canonical_type_known canonical_qos_def Qos_of_u8_def)
  then have good: "decode_header (Some ([] @ [1, 0] @ ?post)) = Some (?h\<lparr>h_header_crc16 := header_crc ?h\<rparr>)"
    by (metis append_Nil append_Nil2 image)
  have "decode_header (Some ([] @ [1, 5] @ ?post)) = None"
    by (rule damaged_header_rejected [OF good]) simp_all
  with good show ?thesis by auto
qed

text \<open>
  C18: a rekey starts a clean epoch and closes the old one. It succeeds exactly for valid keys of
  the same two parties and session with a strictly higher epoch; afterwards the window and the send
  counter are reset, and every record that could be opened before is rejected as an invalid header.
  A failed rekey changes nothing.
\<close>

theorem rekey_separates_epochs:
  assumes "Session_rekey s k = (res, s')"
  shows "(res = Inr () \<longleftrightarrow> valid_keys k \<and> dk_local_id k = dk_local_id (s_keys s) \<and>
      dk_peer_id k = dk_peer_id (s_keys s) \<and>
      sid_value (dk_session k) = sid_value (dk_session (s_keys s)) \<and>
      sid_epoch (dk_session (s_keys s)) < sid_epoch (dk_session k)) \<and>
    (res \<noteq> Inr () \<longrightarrow> s' = s) \<and>
    (res = Inr () \<longrightarrow> s_keys s' = k \<and> window_rep (s_replay s') {} \<and> \<not> s_send_initialized s' \<and>
      (\<forall>bytes n now_ms now_ms' out. Session_open_uncommitted A s (Some bytes) n now_ms = Inr out \<longrightarrow>
        Session_open_uncommitted A s' (Some bytes) n now_ms' = Inl RE_InvalidHeader))"
proof (cases "rekey_guard s k")
  case True
  then have s': "s_keys s' = k" "s_replay s' = ReplayWindow_reset (s_replay s)"
    "\<not> s_send_initialized s'" and res: "res = Inr ()"
    using assms by (auto simp: Session_rekey_eq)
  have "Session_open_uncommitted A s' (Some bytes) n now_ms' = Inl RE_InvalidHeader"
    if opened: "Session_open_uncommitted A s (Some bytes) n now_ms = Inr out" for bytes n now_ms now_ms' out
  proof -
    note inv = Session_open_InrD [OF opened]
    have "\<not> open_guard s' (or_header out) n"
      using inv(3) True s'(1) by (auto simp: open_guard_def rekey_guard_def)
    then show ?thesis
      using inv(2) open_guard_length [OF inv(3)] True s'(1)
      by (simp add: Session_open_cases rekey_guard_def)
  qed
  with True res s' show ?thesis by (simp add: rekey_guard_def window_rep_reset)
next
  case False
  with assms show ?thesis by (auto simp: Session_rekey_eq rekey_guard_def)
qed

theorem rekey_separates_epochs_witness:
  "\<exists>s'. Session_rekey (new_Session example_keys) (example_keys\<lparr>dk_session := \<lparr>sid_value = 77, sid_epoch = 4\<rparr>\<rparr>) =
      (Inr (), s') \<and> window_rep (s_replay s') {} \<and> \<not> s_send_initialized s'"
proof -
  let ?k = "example_keys\<lparr>dk_session := \<lparr>sid_value = 77, sid_epoch = 4\<rparr>\<rparr>"
  obtain res s' where run: "Session_rekey (new_Session example_keys) ?k = (res, s')" by fastforce
  have "res = Inr ()"
    using rekey_separates_epochs [OF run, THEN conjunct1]
    by (simp add: example_defs valid_keys_def list_ex_iff)
  then show ?thesis
    using rekey_separates_epochs [OF run, THEN conjunct2, THEN conjunct2] run by simp
qed

text \<open>
  deadlines are absolute 16-bit millisecond stamps compared with a 32-bit clock. Once the
  receiver's clock has reached 65536 ms, no record that carries a deadline opens any more: the
  sender's only way to be heard is a deadline of zero.
\<close>

theorem deadline_dead_after_16_bits:
  assumes "Session_open_uncommitted A s (Some bytes) n now_ms = Inr out" and "0x10000 \<le> now_ms"
  shows "h_deadline_ms (or_header out) = 0"
proof (rule ccontr)
  assume "h_deadline_ms (or_header out) \<noteq> 0"
  with Session_open_InrD(4) [OF assms(1)] have le: "now_ms \<le> ucast (h_deadline_ms (or_header out))"
    by (simp add: live_def)
  have "unat (h_deadline_ms (or_header out)) < 2 ^ LENGTH(16)"
    by (rule unsigned_less)
  then have "unat (ucast (h_deadline_ms (or_header out)) :: u32) < 0x10000"
    by (simp add: unsigned_ucast_eq take_bit_eq_mod)
  with le assms(2) show False by (simp add: word_le_nat_alt)
qed

theorem deadline_dead_after_16_bits_witness:
  "\<exists>bytes out. Session_open_uncommitted xor_ascon (new_Session example_peer_keys) (Some bytes) 59 0x10000 = Inr out \<and>
    h_deadline_ms (or_header out) = 0"
proof -
  obtain buf where sealed: "Session_seal xor_ascon (new_Session example_keys) example_header (Some [1, 2, 3]) 3
      (replicate kMaxRecordBytes 0) =
    (Inr (buf, 59), (new_Session example_keys)\<lparr>s_send_high_water := 4, s_send_initialized := True\<rparr>)"
    using example_sealed by blast
  obtain out where opened:
      "Session_open_uncommitted xor_ascon (new_Session example_peer_keys) (Some buf) 59 0x10000 = Inr out"
    using seal_opens [OF xor_ascon_correct _ sealed, of "new_Session example_peer_keys" "0x10000"]
    by (auto simp: example_defs mirrored_def canonical_qos_def Qos_of_u8_def ReplayWindow_accepted_def)
  with deadline_dead_after_16_bits [OF opened] show ?thesis by auto
qed

end
