(* ===== verification/Session_Runs.thy ===== *)
theory Session_Runs
  imports Record_Layer
begin

text \<open>
  Whole histories of one \<^verbatim>\<open>Session\<close> object: every finite sequence of calls of its non-const
  methods, with the sequence numbers they send and commit. The two properties are the record
  layer's safety guarantees: no nonce reuse within an epoch, and no record committed twice.
\<close>

section \<open>Runs of a session\<close>

text \<open>
  Any sequence of calls a program can make on one session. Opening a record does not change the
  session, so the operations are sealing, committing an opened record, and rekeying; the events
  are the sequence numbers sent and committed, with the epoch they belong to.
\<close>

datatype session_op =
    Op_seal RecordHeader ptr nat "byte list"
  | Op_commit OpenRecord
  | Op_rekey DirectionalKeys

datatype session_event = Sent u64 u64 | Committed u64 u64

fun session_step :: "ascon \<Rightarrow> Session \<Rightarrow> session_op \<Rightarrow> session_event list \<times> Session" where
  "session_step A s (Op_seal h plain len output) =
     (case Session_seal A s h plain len output of
        (Inl e, s') \<Rightarrow> ([], s')
      | (Inr r, s') \<Rightarrow> ([Sent (epoch_of s) (h_sequence h)], s'))"
| "session_step A s (Op_commit out) =
     (case Session_commit_replay s out of
        (Inl e, s') \<Rightarrow> ([], s')
      | (Inr u, s') \<Rightarrow> ([Committed (epoch_of s) (h_sequence (or_header out))], s'))"
| "session_step A s (Op_rekey k) = ([], snd (Session_rekey s k))"

fun session_run :: "ascon \<Rightarrow> Session \<Rightarrow> session_op list \<Rightarrow> session_event list \<times> Session" where
  "session_run A s [] = ([], s)"
| "session_run A s (op # ops) =
     (case session_step A s op of (evs, s') \<Rightarrow>
       (case session_run A s' ops of (evs', s'') \<Rightarrow> (evs @ evs', s'')))"

fun sent :: "session_event \<Rightarrow> (u64 \<times> u64) list" where
  "sent (Sent e q) = [(e, q)]"
| "sent (Committed e q) = []"

fun committed :: "session_event \<Rightarrow> (u64 \<times> u64) list" where
  "committed (Committed e q) = [(e, q)]"
| "committed (Sent e q) = []"

abbreviation before :: "u64 \<times> u64 \<Rightarrow> u64 \<times> u64 \<Rightarrow> bool" where
  "before x y \<equiv> fst x < fst y \<or> (fst x = fst y \<and> snd x < snd y)"

text \<open>What the send state allows next: a later epoch, or a higher sequence number in this one.\<close>

definition sendable :: "Session \<Rightarrow> u64 \<times> u64 \<Rightarrow> bool" where
  "sendable s x \<longleftrightarrow> epoch_of s < fst x \<or>
     (fst x = epoch_of s \<and> (s_send_initialized s \<longrightarrow> s_send_high_water s < snd x))"

lemma session_step_sent:
  assumes "session_step A s op = (evs, s')"
  shows "\<forall>x \<in> set (concat (map sent evs)). sendable s x"
    and "sendable s' y \<Longrightarrow> sendable s y \<and> (\<forall>x \<in> set (concat (map sent evs)). before x y)"
    and "length (concat (map sent evs)) \<le> 1"
proof -
  have "(\<forall>x \<in> set (concat (map sent evs)). sendable s x) \<and> length (concat (map sent evs)) \<le> 1 \<and>
    (sendable s' y \<longrightarrow> sendable s y \<and> (\<forall>x \<in> set (concat (map sent evs)). before x y))"
  proof (cases op)
    case (Op_seal h plain len outb)
    with assms show ?thesis
      by (auto split: prod.splits sum.splits dest!: Session_seal_InlD Session_seal_InrD
        simp: sendable_def seal_guard_def)
  next
    case (Op_commit out)
    with assms show ?thesis
      by (auto split: prod.splits sum.splits simp: sendable_def Session_commit_replay_def)
  next
    case (Op_rekey k)
    with assms show ?thesis
      by (auto simp: sendable_def Session_rekey_eq rekey_guard_def split: if_splits)
  qed
  then show "\<forall>x \<in> set (concat (map sent evs)). sendable s x"
    and "sendable s' y \<Longrightarrow> sendable s y \<and> (\<forall>x \<in> set (concat (map sent evs)). before x y)"
    and "length (concat (map sent evs)) \<le> 1"
    by blast+
qed

lemma length_le_1_sorted: "length xs \<le> 1 \<Longrightarrow> sorted_wrt P xs"
  by (cases xs) auto

lemma session_run_sent:
  "session_run A s ops = (evs, s') \<Longrightarrow>
     sorted_wrt before (concat (map sent evs)) \<and> (\<forall>x \<in> set (concat (map sent evs)). sendable s x)"
proof (induction ops arbitrary: s evs)
  case Nil
  then show ?case by simp
next
  case (Cons op ops)
  obtain ev1 s1 where step: "session_step A s op = (ev1, s1)" by fastforce
  obtain ev2 where run: "session_run A s1 ops = (ev2, s')" and evs: "evs = ev1 @ ev2"
    using Cons.prems by (auto simp: step split: prod.splits)
  note IH = Cons.IH [OF run]
  note st = session_step_sent [OF step]
  show ?case
    using IH st(1) st(2) length_le_1_sorted [OF st(3)]
    by (auto simp: evs sorted_wrt_append simp del: sorted_wrt.simps)
qed

text \<open>What the replay state allows next: a later epoch, or a number not yet committed in this one.\<close>

lemma commit_replay_cases:
  assumes "window_rep (s_replay s) S"
  obtains "fst (Session_commit_replay s out) = Inl RE_Replay" "snd (Session_commit_replay s out) = s"
  | "fst (Session_commit_replay s out) = Inr ()" "h_sequence (or_header out) \<notin> S"
    "s_keys (snd (Session_commit_replay s out)) = s_keys s"
    "window_rep (s_replay (snd (Session_commit_replay s out))) (insert (h_sequence (or_header out)) S)"
proof (cases "ReplayWindow_accepted (s_replay s) (h_sequence (or_header out))")
  case True
  then have "fst (Session_commit_replay s out) = Inr ()"
    using window.commit_result [of "s_replay s" "h_sequence (or_header out)"]
    by (auto simp: Session_commit_replay_def split: prod.split)
  moreover have "h_sequence (or_header out) \<notin> S"
    using True window.committed_never_accepted [OF assms] by blast
  moreover have "s_keys (snd (Session_commit_replay s out)) = s_keys s"
    and "s_replay (snd (Session_commit_replay s out)) =
      snd (ReplayWindow_commit (s_replay s) (h_sequence (or_header out)))"
    by (simp_all add: Session_commit_replay_def split: prod.split)
  ultimately show ?thesis
    using window.commit_admits [OF assms True] by (intro that(2)) simp_all
next
  case False
  then have "fst (Session_commit_replay s out) = Inl RE_Replay" and "snd (Session_commit_replay s out) = s"
    by (simp_all add: Session_commit_replay_def ReplayWindow_commit_def)
  then show ?thesis by (rule that(1))
qed

lemma session_run_committed:
  "session_run A s ops = (evs, s') \<Longrightarrow> window_rep (s_replay s) S \<Longrightarrow>
     distinct (concat (map committed evs)) \<and>
     (\<forall>x \<in> set (concat (map committed evs)). epoch_of s < fst x \<or> (fst x = epoch_of s \<and> snd x \<notin> S))"
proof (induction ops arbitrary: s evs S)
  case Nil
  then show ?case by simp
next
  case (Cons op ops)
  obtain ev1 s1 where step: "session_step A s op = (ev1, s1)" by fastforce
  obtain ev2 where run: "session_run A s1 ops = (ev2, s')" and evs: "evs = ev1 @ ev2"
    using Cons.prems by (auto simp: step split: prod.splits)
  show ?case
  proof (cases op)
    case (Op_seal h plain len outb)
    then have "ev1 = [] \<or> (\<exists>e q. ev1 = [Sent e q])" and "s_replay s1 = s_replay s" and "s_keys s1 = s_keys s"
      using step by (auto split: prod.splits sum.splits dest!: Session_seal_InlD Session_seal_InrD)
    then show ?thesis
      using Cons.IH [OF run, of S] Cons.prems(2) by (auto simp: evs)
  next
    case (Op_commit out)
    show ?thesis
    proof (cases rule: commit_replay_cases [OF Cons.prems(2), of out])
      case 1
      then have "ev1 = []" and "s1 = s" using step Op_commit by (auto split: prod.splits)
      then show ?thesis using Cons.IH [OF run, of S] Cons.prems(2) by (simp add: evs)
    next
      case 2
      then have "ev1 = [Committed (epoch_of s) (h_sequence (or_header out))]"
        and "s1 = snd (Session_commit_replay s out)"
        using step Op_commit by (auto split: prod.splits)
      then show ?thesis
        using 2 Cons.IH [OF run, of "insert (h_sequence (or_header out)) S"] by (fastforce simp: evs)
    qed
  next
    case (Op_rekey k)
    show ?thesis
    proof (cases "rekey_guard s k")
      case False
      then have "ev1 = []" and "s1 = s" using step Op_rekey by (auto simp: Session_rekey_eq)
      then show ?thesis using Cons.IH [OF run, of S] Cons.prems(2) by (simp add: evs)
    next
      case True
      then have "ev1 = []" and "s_replay s1 = ReplayWindow_reset (s_replay s)"
        and "epoch_of s < epoch_of s1"
        using step Op_rekey by (auto simp: Session_rekey_eq rekey_guard_def)
      then show ?thesis
        using Cons.IH [OF run, of "{}"] window.rep_reset by (fastforce simp: evs)
    qed
  qed
qed

section \<open>Properties\<close>

text \<open>
  C3: no nonce is used twice under one key epoch. Over any sequence of seal, commit and rekey
  calls on a new session, the pairs (epoch, sequence number) of the records it seals are strictly
  increasing, so within an epoch all AEAD nonces are distinct.
\<close>

theorem session_never_reuses_a_nonce:
  assumes "session_run A (new_Session keys) ops = (evs, s')"
  shows "sorted_wrt before (concat (map sent evs)) \<and>
    distinct (map (\<lambda>(e, q). (e, make_nonce \<lparr>sid_value = sid_value (dk_session keys), sid_epoch = e\<rparr> q))
      (concat (map sent evs)))"
proof
  show sorted: "sorted_wrt before (concat (map sent evs))"
    using session_run_sent [OF assms] by blast
  have "distinct xs" if "sorted_wrt before xs" for xs :: "(u64 \<times> u64) list"
    using that by (induction xs) auto
  then have "distinct (concat (map sent evs))" using sorted by blast
  then show "distinct (map (\<lambda>(e, q). (e, make_nonce \<lparr>sid_value = sid_value (dk_session keys), sid_epoch = e\<rparr> q))
      (concat (map sent evs)))"
    by (auto simp: distinct_map inj_on_def make_nonce_eq)
qed

theorem session_never_reuses_a_nonce_witness:
  "\<exists>evs s'. session_run xor_ascon (new_Session example_keys)
      [Op_seal example_header (Some [1, 2, 3]) 3 (replicate kMaxRecordBytes 0),
       Op_seal example_header (Some [1, 2, 3]) 3 (replicate kMaxRecordBytes 0)] = (evs, s') \<and>
    evs = [Sent 3 4] \<and> sorted_wrt before (concat (map sent evs))"
proof -
  let ?s = "(new_Session example_keys)\<lparr>s_send_high_water := 4, s_send_initialized := True\<rparr>"
  let ?op = "Op_seal example_header (Some [1, 2, 3]) 3 (replicate kMaxRecordBytes 0)"
  obtain buf where "Session_seal xor_ascon (new_Session example_keys) example_header (Some [1, 2, 3]) 3
      (replicate kMaxRecordBytes 0) = (Inr (buf, 59), ?s)"
    using example_sealed by blast
  moreover have "Session_seal xor_ascon ?s example_header (Some [1, 2, 3]) 3 (replicate kMaxRecordBytes 0) =
      (Inl RE_InvalidHeader, ?s)"
    using example_valid(1) by (simp add: Session_seal_cases seal_guard_def example_defs)
  ultimately have run: "session_run xor_ascon (new_Session example_keys) [?op, ?op] = ([Sent 3 4], ?s)"
    by (simp add: example_defs)
  with session_never_reuses_a_nonce [OF run] show ?thesis by blast
qed

text \<open>
  C4: no record is committed twice. Over any sequence of seal, commit and rekey calls on a new
  session, the pairs (epoch, sequence number) of the records it commits are pairwise distinct.
\<close>

theorem session_never_commits_twice:
  assumes "session_run A (new_Session keys) ops = (evs, s')"
  shows "distinct (concat (map committed evs))"
  using session_run_committed [OF assms] window_rep_fresh by (simp add: new_Session_def)

theorem session_never_commits_twice_witness:
  "\<exists>evs s'. session_run xor_ascon (new_Session example_keys)
      [Op_commit \<lparr>or_header = example_header, or_payload = [], or_length = 0\<rparr>,
       Op_commit \<lparr>or_header = example_header, or_payload = [], or_length = 0\<rparr>] = (evs, s') \<and>
    evs = [Committed 3 4] \<and> distinct (concat (map committed evs))"
proof -
  let ?op = "Op_commit \<lparr>or_header = example_header, or_payload = [], or_length = 0\<rparr>"
  have "\<exists>s'. session_run xor_ascon (new_Session example_keys) [?op, ?op] = ([Committed 3 4], s')"
    by (simp add: example_defs Session_commit_replay_def ReplayWindow_commit_def ReplayWindow_accepted_def)
  then obtain s' where run: "session_run xor_ascon (new_Session example_keys) [?op, ?op] = ([Committed 3 4], s')"
    by blast
  with session_never_commits_twice [OF run] show ?thesis by blast
qed

end
