(* ===== verification/Messages.thy ===== *)
theory Messages
  imports Wire
begin

text \<open>
  The typed payload codecs of \<^verbatim>\<open>include/new_mavlink/messages.hpp\<close> and \<^verbatim>\<open>src/messages.cpp\<close>.
  An encoder returns \<open>None\<close> where the code returns \<^verbatim>\<open>false\<close> (it has then written nothing) and
  otherwise the buffer after the call, with the reported length where the function has a
  \<^verbatim>\<open>length\<close> out-parameter. A decoder returns \<open>None\<close> for \<^verbatim>\<open>false\<close>. A \<^verbatim>\<open>float\<close> is its
  IEEE-754 bit pattern, which is all that \<^verbatim>\<open>memcpy\<close> and \<^verbatim>\<open>std::isfinite\<close> look at; an
  \<^verbatim>\<open>std::int32_t\<close> is a 32-bit word read with \<open>sint\<close>. The locales \<open>codec\<close> and
  \<open>strict_codec\<close> state what the other components rely on; every codec interprets one of them.
\<close>

section \<open>Constants and structures\<close>

definition kMaxArgs :: nat where "kMaxArgs = 7"
definition kCommandBytes :: nat where "kCommandBytes = 16 + 4 * kMaxArgs"
definition kAckBytes :: nat where "kAckBytes = 16"
definition kSubscribeBytes :: nat where "kSubscribeBytes = 10"
definition kResyncBytes :: nat where "kResyncBytes = 8"
definition kPositionBytes :: nat where "kPositionBytes = 28"
definition kAttitudeBytes :: nat where "kAttitudeBytes = 28"
definition kBatteryBytes :: nat where "kBatteryBytes = 24"
definition kHeartbeatBytes :: nat where "kHeartbeatBytes = 16"

lemmas message_consts = kMaxArgs_def kCommandBytes_def kAckBytes_def kSubscribeBytes_def
  kResyncBytes_def kPositionBytes_def kAttitudeBytes_def kBatteryBytes_def kHeartbeatBytes_def

type_synonym float32 = "32 word"
type_synonym i32 = "32 word"

record CommandRequest =
  cr_request_id :: u64
  cr_command_id :: u16
  cr_deadline_ms :: u16
  cr_arg_count :: byte
  cr_args :: "float32 list"

record CommandAck =
  ca_request_id :: u64
  ca_status :: byte
  ca_detail :: byte
  ca_reserved :: u16
  ca_result_code :: u32

record Subscription =
  sb_type :: MessageType
  sb_qos :: Qos
  sb_source_id :: u16
  sb_interval_ms :: u16
  sb_flags :: u32

record ResyncRequest =
  rs_type :: MessageType
  rs_source_id :: u16
  rs_resource_id :: u32

record StateMeta =
  sm_resource_id :: u32
  sm_generation :: u32
  sm_base_generation :: u32
  sm_source_id :: u16
  sm_snapshot :: byte
  sm_reserved :: byte

record Position =
  p_meta :: StateMeta
  p_latitude_e7 :: i32
  p_longitude_e7 :: i32
  p_altitude_mm :: i32

record Attitude =
  a_meta :: StateMeta
  a_roll_urad :: i32
  a_pitch_urad :: i32
  a_yaw_urad :: i32

record Battery =
  b_meta :: StateMeta
  b_voltage_mv :: u16
  b_current_ma :: u16
  b_remaining_permille :: u16
  b_reserved :: u16

record Heartbeat =
  hb_uptime_ms :: u64
  hb_capabilities :: u32
  hb_state :: u32

record NativeMessage =
  m_header :: RecordHeader
  m_payload :: "byte list"
  m_length :: nat

section \<open>Codecs\<close>

definition put_float :: "float32 \<Rightarrow> byte list" where
  "put_float v = put32 v"

definition get_float :: "byte list \<Rightarrow> nat \<Rightarrow> float32" where
  "get_float p off = get32 p off"

text \<open>\<^verbatim>\<open>std::isfinite\<close>: the exponent field is not all ones.\<close>

definition isfinite :: "float32 \<Rightarrow> bool" where
  "isfinite f \<longleftrightarrow> drop_bit 23 f AND 0xFF \<noteq> 0xFF"

definition valid_command :: "CommandRequest \<Rightarrow> bool" where
  "valid_command v =
     (if cr_request_id v = 0 \<or> cr_command_id v = 0 \<or> cr_deadline_ms v = 0 \<or>
         unat (cr_arg_count v) > kMaxArgs then False
      else list_all (\<lambda>i. isfinite (cr_args v ! i)) [0..<unat (cr_arg_count v)])"

definition encode_command :: "CommandRequest \<Rightarrow> ptr \<Rightarrow> nat \<Rightarrow> (byte list \<times> nat) option" where
  "encode_command v out capacity =
     (case out of
        None \<Rightarrow> None
      | Some b \<Rightarrow>
          if capacity < kCommandBytes \<or> \<not> valid_command v then None
          else
            let b = put_at b 0 (put64 (cr_request_id v));
                b = put_at b 8 (put16 (cr_command_id v));
                b = put_at b 10 (put16 (cr_deadline_ms v));
                b = put_at b 12 [cr_arg_count v];
                b = put_at b 13 [0];
                b = put_at b 14 [0];
                b = put_at b 15 [0];
                b = fold (\<lambda>i b. put_at b (16 + 4 * i) (put_float (cr_args v ! i))) [0..<kMaxArgs] b
            in Some (b, kCommandBytes))"

definition decode_command :: "ptr \<Rightarrow> nat \<Rightarrow> CommandRequest option" where
  "decode_command bytes len =
     (case bytes of
        None \<Rightarrow> None
      | Some b \<Rightarrow>
          if len \<noteq> kCommandBytes \<or> b ! 13 \<noteq> 0 \<or> b ! 14 \<noteq> 0 \<or> b ! 15 \<noteq> 0 then None
          else
            let v = \<lparr>cr_request_id = get64 b 0, cr_command_id = get16 b 8, cr_deadline_ms = get16 b 10,
                     cr_arg_count = b ! 12,
                     cr_args = map (\<lambda>i. get_float b (16 + 4 * i)) [0..<kMaxArgs]\<rparr>
            in if valid_command v then Some v else None)"

definition encode_ack :: "CommandAck \<Rightarrow> ptr \<Rightarrow> nat \<Rightarrow> (byte list \<times> nat) option" where
  "encode_ack v out capacity =
     (case out of
        None \<Rightarrow> None
      | Some b \<Rightarrow>
          if capacity < kAckBytes \<or> ca_request_id v = 0 then None
          else
            let b = put_at b 0 (put64 (ca_request_id v));
                b = put_at b 8 [ca_status v];
                b = put_at b 9 [ca_detail v];
                b = put_at b 10 (put16 (ca_reserved v));
                b = put_at b 12 (put32 (ca_result_code v))
            in Some (b, kAckBytes))"

definition decode_ack :: "ptr \<Rightarrow> nat \<Rightarrow> CommandAck option" where
  "decode_ack bytes len =
     (case bytes of
        None \<Rightarrow> None
      | Some b \<Rightarrow>
          if len \<noteq> kAckBytes then None
          else
            let v = \<lparr>ca_request_id = get64 b 0, ca_status = b ! 8, ca_detail = b ! 9,
                     ca_reserved = get16 b 10, ca_result_code = get32 b 12\<rparr>
            in if ca_request_id v \<noteq> 0 then Some v else None)"

definition encode_subscription :: "Subscription \<Rightarrow> ptr \<Rightarrow> nat \<Rightarrow> (byte list \<times> nat) option" where
  "encode_subscription v out capacity =
     (case out of
        None \<Rightarrow> None
      | Some b \<Rightarrow>
          if capacity < kSubscribeBytes \<or> \<not> known_type (sb_type v) \<or> sb_source_id v = 0 then None
          else
            let b = put_at b 0 [MessageType_u8 (sb_type v)];
                b = put_at b 1 [Qos_u8 (sb_qos v)];
                b = put_at b 2 (put16 (sb_source_id v));
                b = put_at b 4 (put16 (sb_interval_ms v));
                b = put_at b 6 (put32 (sb_flags v))
            in Some (b, kSubscribeBytes))"

definition decode_subscription :: "ptr \<Rightarrow> nat \<Rightarrow> Subscription option" where
  "decode_subscription bytes len =
     (case bytes of
        None \<Rightarrow> None
      | Some b \<Rightarrow>
          if len \<noteq> kSubscribeBytes \<or> \<not> known_type (MessageType_of_u8 (b ! 0)) \<or>
             b ! 1 > Qos_u8 Qos_Explicit then None
          else
            let v = \<lparr>sb_type = MessageType_of_u8 (b ! 0), sb_qos = Qos_of_u8 (b ! 1),
                     sb_source_id = get16 b 2, sb_interval_ms = get16 b 4, sb_flags = get32 b 6\<rparr>
            in if sb_source_id v \<noteq> 0 then Some v else None)"

definition encode_unsubscribe :: "Subscription \<Rightarrow> ptr \<Rightarrow> nat \<Rightarrow> (byte list \<times> nat) option" where
  "encode_unsubscribe v out capacity = encode_subscription v out capacity"

definition decode_unsubscribe :: "ptr \<Rightarrow> nat \<Rightarrow> Subscription option" where
  "decode_unsubscribe bytes len = decode_subscription bytes len"

definition encode_resync :: "ResyncRequest \<Rightarrow> ptr \<Rightarrow> nat \<Rightarrow> (byte list \<times> nat) option" where
  "encode_resync v out capacity =
     (case out of
        None \<Rightarrow> None
      | Some b \<Rightarrow>
          if capacity < kResyncBytes \<or> \<not> state_type (rs_type v) \<or> rs_source_id v = 0 \<or>
             rs_resource_id v = 0 then None
          else
            let b = put_at b 0 [MessageType_u8 (rs_type v)];
                b = put_at b 1 [0];
                b = put_at b 2 (put16 (rs_source_id v));
                b = put_at b 4 (put32 (rs_resource_id v))
            in Some (b, kResyncBytes))"

definition decode_resync :: "ptr \<Rightarrow> nat \<Rightarrow> ResyncRequest option" where
  "decode_resync bytes len =
     (case bytes of
        None \<Rightarrow> None
      | Some b \<Rightarrow>
          if len \<noteq> kResyncBytes \<or> b ! 1 \<noteq> 0 \<or> \<not> state_type (MessageType_of_u8 (b ! 0)) then None
          else
            let v = \<lparr>rs_type = MessageType_of_u8 (b ! 0), rs_source_id = get16 b 2,
                     rs_resource_id = get32 b 4\<rparr>
            in if rs_source_id v \<noteq> 0 \<and> rs_resource_id v \<noteq> 0 then Some v else None)"

definition encode_state_meta :: "StateMeta \<Rightarrow> ptr \<Rightarrow> nat \<Rightarrow> byte list option" where
  "encode_state_meta v out capacity =
     (case out of
        None \<Rightarrow> None
      | Some b \<Rightarrow>
          if capacity < 16 \<or> sm_resource_id v = 0 \<or> sm_generation v = 0 \<or> sm_source_id v = 0 then None
          else
            let b = put_at b 0 (put32 (sm_resource_id v));
                b = put_at b 4 (put32 (sm_generation v));
                b = put_at b 8 (put32 (sm_base_generation v));
                b = put_at b 12 (put16 (sm_source_id v));
                b = put_at b 14 [sm_snapshot v];
                b = put_at b 15 [sm_reserved v]
            in Some b)"

definition decode_state_meta :: "ptr \<Rightarrow> nat \<Rightarrow> StateMeta option" where
  "decode_state_meta bytes len =
     (case bytes of
        None \<Rightarrow> None
      | Some b \<Rightarrow>
          if len \<noteq> 16 then None
          else
            let v = \<lparr>sm_resource_id = get32 b 0, sm_generation = get32 b 4, sm_base_generation = get32 b 8,
                     sm_source_id = get16 b 12, sm_snapshot = b ! 14, sm_reserved = b ! 15\<rparr>
            in if sm_resource_id v \<noteq> 0 \<and> sm_generation v \<noteq> 0 \<and> sm_source_id v \<noteq> 0 \<and>
                  sm_snapshot v \<le> 1 \<and> sm_reserved v = 0 then Some v else None)"

definition encode_position :: "Position \<Rightarrow> ptr \<Rightarrow> nat \<Rightarrow> byte list option" where
  "encode_position v out capacity =
     (case out of
        None \<Rightarrow> None
      | Some b \<Rightarrow>
          if capacity < kPositionBytes \<or> sm_snapshot (p_meta v) > 1 \<or> sm_reserved (p_meta v) \<noteq> 0 \<or>
             sint (p_latitude_e7 v) < - 900000000 \<or> sint (p_latitude_e7 v) > 900000000 \<or>
             sint (p_longitude_e7 v) < - 1800000000 \<or> sint (p_longitude_e7 v) > 1800000000 then None
          else
            (case encode_state_meta (p_meta v) (Some b) capacity of
               None \<Rightarrow> None
             | Some b \<Rightarrow>
                 let b = put_at b 16 (put32 (p_latitude_e7 v));
                     b = put_at b 20 (put32 (p_longitude_e7 v));
                     b = put_at b 24 (put32 (p_altitude_mm v))
                 in Some b))"

definition decode_position :: "ptr \<Rightarrow> nat \<Rightarrow> Position option" where
  "decode_position bytes len =
     (case bytes of
        None \<Rightarrow> None
      | Some b \<Rightarrow>
          if len \<noteq> kPositionBytes then None
          else
            (case decode_state_meta (Some b) 16 of
               None \<Rightarrow> None
             | Some meta \<Rightarrow>
                 let v = \<lparr>p_meta = meta, p_latitude_e7 = get32 b 16, p_longitude_e7 = get32 b 20,
                          p_altitude_mm = get32 b 24\<rparr>
                 in if sint (p_latitude_e7 v) \<ge> - 900000000 \<and> sint (p_latitude_e7 v) \<le> 900000000 \<and>
                       sint (p_longitude_e7 v) \<ge> - 1800000000 \<and> sint (p_longitude_e7 v) \<le> 1800000000
                    then Some v else None))"

definition encode_attitude :: "Attitude \<Rightarrow> ptr \<Rightarrow> nat \<Rightarrow> byte list option" where
  "encode_attitude v out capacity =
     (case out of
        None \<Rightarrow> None
      | Some b \<Rightarrow>
          if capacity < kAttitudeBytes \<or> sm_snapshot (a_meta v) > 1 \<or> sm_reserved (a_meta v) \<noteq> 0 then None
          else
            (case encode_state_meta (a_meta v) (Some b) capacity of
               None \<Rightarrow> None
             | Some b \<Rightarrow>
                 let b = put_at b 16 (put32 (a_roll_urad v));
                     b = put_at b 20 (put32 (a_pitch_urad v));
                     b = put_at b 24 (put32 (a_yaw_urad v))
                 in Some b))"

definition decode_attitude :: "ptr \<Rightarrow> nat \<Rightarrow> Attitude option" where
  "decode_attitude bytes len =
     (case bytes of
        None \<Rightarrow> None
      | Some b \<Rightarrow>
          if len \<noteq> kAttitudeBytes then None
          else
            (case decode_state_meta (Some b) 16 of
               None \<Rightarrow> None
             | Some meta \<Rightarrow>
                 Some \<lparr>a_meta = meta, a_roll_urad = get32 b 16, a_pitch_urad = get32 b 20,
                       a_yaw_urad = get32 b 24\<rparr>))"

definition encode_battery :: "Battery \<Rightarrow> ptr \<Rightarrow> nat \<Rightarrow> byte list option" where
  "encode_battery v out capacity =
     (case out of
        None \<Rightarrow> None
      | Some b \<Rightarrow>
          if capacity < kBatteryBytes \<or> sm_snapshot (b_meta v) > 1 \<or> sm_reserved (b_meta v) \<noteq> 0 \<or>
             b_remaining_permille v > 1000 \<or> b_reserved v \<noteq> 0 then None
          else
            (case encode_state_meta (b_meta v) (Some b) capacity of
               None \<Rightarrow> None
             | Some b \<Rightarrow>
                 let b = put_at b 16 (put16 (b_voltage_mv v));
                     b = put_at b 18 (put16 (b_current_ma v));
                     b = put_at b 20 (put16 (b_remaining_permille v));
                     b = put_at b 22 (put16 (b_reserved v))
                 in Some b))"

definition decode_battery :: "ptr \<Rightarrow> nat \<Rightarrow> Battery option" where
  "decode_battery bytes len =
     (case bytes of
        None \<Rightarrow> None
      | Some b \<Rightarrow>
          if len \<noteq> kBatteryBytes then None
          else
            (case decode_state_meta (Some b) 16 of
               None \<Rightarrow> None
             | Some meta \<Rightarrow>
                 let v = \<lparr>b_meta = meta, b_voltage_mv = get16 b 16, b_current_ma = get16 b 18,
                          b_remaining_permille = get16 b 20, b_reserved = get16 b 22\<rparr>
                 in if b_remaining_permille v \<le> 1000 \<and> b_reserved v = 0 then Some v else None))"

definition encode_heartbeat :: "Heartbeat \<Rightarrow> ptr \<Rightarrow> nat \<Rightarrow> byte list option" where
  "encode_heartbeat v out capacity =
     (case out of
        None \<Rightarrow> None
      | Some b \<Rightarrow>
          if capacity < kHeartbeatBytes then None
          else
            let b = put_at b 0 (put64 (hb_uptime_ms v));
                b = put_at b 8 (put32 (hb_capabilities v));
                b = put_at b 12 (put32 (hb_state v))
            in Some b)"

definition decode_heartbeat :: "ptr \<Rightarrow> nat \<Rightarrow> Heartbeat option" where
  "decode_heartbeat bytes len =
     (case bytes of
        None \<Rightarrow> None
      | Some b \<Rightarrow>
          if len \<noteq> kHeartbeatBytes then None
          else Some \<lparr>hb_uptime_ms = get64 b 0, hb_capabilities = get32 b 8, hb_state = get32 b 12\<rparr>)"

section \<open>The contract of a codec\<close>

text \<open>
  \<open>valid\<close> are the values with an encoding, \<open>wire\<close> is that encoding, \<open>size\<close> its length. The laws
  say that the encoder stores the wire image at the start of a large enough buffer and touches
  nothing behind it, and that the decoder accepts exactly the wire images of valid values.
\<close>

locale codec =
  fixes encode :: "'v \<Rightarrow> ptr \<Rightarrow> nat \<Rightarrow> byte list option"
    and decode :: "ptr \<Rightarrow> nat \<Rightarrow> 'v option"
    and valid :: "'v \<Rightarrow> bool"
    and wire :: "'v \<Rightarrow> byte list"
    and size :: nat
  assumes encode_valid: "valid v \<Longrightarrow> size \<le> cap \<Longrightarrow> size \<le> length out \<Longrightarrow>
      encode v (Some out) cap = Some (wire v @ drop size out)"
    and encode_null: "encode v None cap = None"
    and encode_short: "cap < size \<Longrightarrow> encode v (Some out) cap = None"
    and wire_length: "valid v \<Longrightarrow> length (wire v) = size"
    and decode_wire: "valid v \<Longrightarrow> decode (Some (wire v @ rest)) size = Some v"
    and decode_sound: "size \<le> length bs \<Longrightarrow> decode (Some bs) size = Some v \<Longrightarrow>
      valid v \<and> wire v = take size bs"
    and decode_null: "decode None n = None"
    and decode_length: "n \<noteq> size \<Longrightarrow> decode (Some bs) n = None"
begin

lemma encode_decode:
  assumes "valid v" and "size \<le> cap" and "cap \<le> length out"
  shows "\<exists>buf. encode v (Some out) cap = Some buf \<and> length buf = length out \<and>
    drop size buf = drop size out \<and> decode (Some buf) size = Some v"
  using assms wire_length [of v] by (simp add: encode_valid decode_wire)

lemma decode_encode:
  assumes "decode (Some bs) n = Some v" and "n \<le> length bs"
  shows "n = size \<and> valid v \<and> encode v (Some (replicate n 0)) n = Some (take n bs)"
proof -
  have n: "n = size" using assms(1) decode_length by fastforce
  then have "valid v" and "wire v = take n bs" using assms decode_sound by auto
  with n show ?thesis by (simp add: encode_valid)
qed

lemma decode_reads_prefix:
  assumes "n \<le> length bs"
  shows "decode (Some (take n bs)) n = decode (Some bs) n"
proof (cases "n = size")
  case True
  have "decode (Some (take n bs)) n = Some v \<longleftrightarrow> decode (Some bs) n = Some v" for v
  proof
    assume "decode (Some (take n bs)) n = Some v"
    then have "valid v" and "wire v = take size bs"
      using decode_sound [of "take n bs" v] assms True by auto
    then show "decode (Some bs) n = Some v"
      using decode_wire [of v "drop size bs"] True by simp
  next
    assume "decode (Some bs) n = Some v"
    then have "valid v" and "wire v = take size bs"
      using decode_sound [of bs v] assms True by auto
    then show "decode (Some (take n bs)) n = Some v"
      using decode_wire [of v "[]"] True by simp
  qed
  then show ?thesis by (metis not_None_eq)
next
  case False
  then show ?thesis by (simp add: decode_length)
qed

lemma wire_inj: "valid v \<Longrightarrow> valid v' \<Longrightarrow> wire v = wire v' \<longleftrightarrow> v = v'"
  using decode_wire by (metis option.inject)

end

text \<open>A strict codec also refuses to encode every value without an encoding.\<close>

locale strict_codec = codec +
  fixes wf :: "'v \<Rightarrow> bool"
  assumes encode_invalid: "wf v \<Longrightarrow> \<not> valid v \<Longrightarrow> encode v (Some out) cap = None"
begin

lemma encode_iff:
  "wf v \<Longrightarrow> size \<le> length out \<Longrightarrow> (encode v (Some out) cap \<noteq> None) \<longleftrightarrow> valid v \<and> size \<le> cap"
  using encode_valid encode_invalid encode_short by (metis not_less option.distinct(1))

lemma checked_round_trip:
  assumes "wf v" and "size \<le> length out" and "cap \<le> length out"
  shows "case encode v (Some out) cap of
      None \<Rightarrow> \<not> valid v \<or> cap < size
    | Some buf \<Rightarrow> valid v \<and> size \<le> cap \<and> length buf = length out \<and>
        drop size buf = drop size out \<and> decode (Some buf) size = Some v"
proof (cases "encode v (Some out) cap")
  case None
  then show ?thesis using encode_iff [OF assms(1,2), of cap] by auto
next
  case (Some buf)
  then have "valid v" and "size \<le> cap" using encode_iff [OF assms(1,2), of cap] by auto
  with Some show ?thesis using encode_decode [of v cap out] assms(3) by auto
qed

end

section \<open>Wire images and valid values\<close>

definition command_wire :: "CommandRequest \<Rightarrow> byte list" where
  "command_wire v = put64 (cr_request_id v) @ put16 (cr_command_id v) @ put16 (cr_deadline_ms v) @
     [cr_arg_count v, 0, 0, 0] @ concat (map put32 (cr_args v))"

definition command_ok :: "CommandRequest \<Rightarrow> bool" where
  "command_ok v \<longleftrightarrow> length (cr_args v) = kMaxArgs \<and> valid_command v"

definition ack_wire :: "CommandAck \<Rightarrow> byte list" where
  "ack_wire v = put64 (ca_request_id v) @ [ca_status v, ca_detail v] @ put16 (ca_reserved v) @
     put32 (ca_result_code v)"

definition ack_ok :: "CommandAck \<Rightarrow> bool" where
  "ack_ok v \<longleftrightarrow> ca_request_id v \<noteq> 0"

definition subscription_wire :: "Subscription \<Rightarrow> byte list" where
  "subscription_wire v = [MessageType_u8 (sb_type v), Qos_u8 (sb_qos v)] @ put16 (sb_source_id v) @
     put16 (sb_interval_ms v) @ put32 (sb_flags v)"

definition subscription_ok :: "Subscription \<Rightarrow> bool" where
  "subscription_ok v \<longleftrightarrow> known_type (sb_type v) \<and> sb_source_id v \<noteq> 0 \<and>
     Qos_u8 (sb_qos v) \<le> Qos_u8 Qos_Explicit \<and> canonical_qos (sb_qos v)"

definition resync_wire :: "ResyncRequest \<Rightarrow> byte list" where
  "resync_wire v = [MessageType_u8 (rs_type v), 0] @ put16 (rs_source_id v) @ put32 (rs_resource_id v)"

definition resync_ok :: "ResyncRequest \<Rightarrow> bool" where
  "resync_ok v \<longleftrightarrow> state_type (rs_type v) \<and> rs_source_id v \<noteq> 0 \<and> rs_resource_id v \<noteq> 0"

definition meta_wire :: "StateMeta \<Rightarrow> byte list" where
  "meta_wire v = put32 (sm_resource_id v) @ put32 (sm_generation v) @ put32 (sm_base_generation v) @
     put16 (sm_source_id v) @ [sm_snapshot v, sm_reserved v]"

definition meta_ok :: "StateMeta \<Rightarrow> bool" where
  "meta_ok v \<longleftrightarrow> sm_resource_id v \<noteq> 0 \<and> sm_generation v \<noteq> 0 \<and> sm_source_id v \<noteq> 0 \<and>
     sm_snapshot v \<le> 1 \<and> sm_reserved v = 0"

definition position_wire :: "Position \<Rightarrow> byte list" where
  "position_wire v = meta_wire (p_meta v) @ put32 (p_latitude_e7 v) @ put32 (p_longitude_e7 v) @
     put32 (p_altitude_mm v)"

definition position_ok :: "Position \<Rightarrow> bool" where
  "position_ok v \<longleftrightarrow> meta_ok (p_meta v) \<and> \<bar>sint (p_latitude_e7 v)\<bar> \<le> 900000000 \<and>
     \<bar>sint (p_longitude_e7 v)\<bar> \<le> 1800000000"

definition attitude_wire :: "Attitude \<Rightarrow> byte list" where
  "attitude_wire v = meta_wire (a_meta v) @ put32 (a_roll_urad v) @ put32 (a_pitch_urad v) @
     put32 (a_yaw_urad v)"

definition attitude_ok :: "Attitude \<Rightarrow> bool" where
  "attitude_ok v \<longleftrightarrow> meta_ok (a_meta v)"

definition battery_wire :: "Battery \<Rightarrow> byte list" where
  "battery_wire v = meta_wire (b_meta v) @ put16 (b_voltage_mv v) @ put16 (b_current_ma v) @
     put16 (b_remaining_permille v) @ put16 (b_reserved v)"

definition battery_ok :: "Battery \<Rightarrow> bool" where
  "battery_ok v \<longleftrightarrow> meta_ok (b_meta v) \<and> b_remaining_permille v \<le> 1000 \<and> b_reserved v = 0"

definition heartbeat_wire :: "Heartbeat \<Rightarrow> byte list" where
  "heartbeat_wire v = put64 (hb_uptime_ms v) @ put32 (hb_capabilities v) @ put32 (hb_state v)"

section \<open>Every codec meets the contract\<close>

interpretation ack: strict_codec "\<lambda>v out cap. map_option fst (encode_ack v out cap)" decode_ack
  ack_ok ack_wire kAckBytes "\<lambda>_. True"
  by unfold_locales
    (auto simp: encode_ack_def decode_ack_def ack_ok_def ack_wire_def message_consts Let_def
      codec_simps rejoin_simps split: if_splits)

interpretation subscription: codec "\<lambda>v out cap. map_option fst (encode_subscription v out cap)"
  decode_subscription subscription_ok subscription_wire kSubscribeBytes
  by unfold_locales
    (auto simp: encode_subscription_def decode_subscription_def subscription_ok_def
      subscription_wire_def message_consts Let_def known_type_canonical canonical_qos_def
      codec_simps rejoin_simps split: if_splits)

interpretation unsubscribe: codec "\<lambda>v out cap. map_option fst (encode_unsubscribe v out cap)"
  decode_unsubscribe subscription_ok subscription_wire kSubscribeBytes
  unfolding encode_unsubscribe_def decode_unsubscribe_def
  by (rule subscription.codec_axioms)

lemma resync_decode_sound:
  assumes "decode_resync (Some bs) kResyncBytes = Some v" and "kResyncBytes \<le> length bs"
  shows "resync_ok v \<and> resync_wire v = take kResyncBytes bs"
proof -
  have v: "v = \<lparr>rs_type = MessageType_of_u8 (bs ! 0), rs_source_id = get16 bs 2,
      rs_resource_id = get32 bs 4\<rparr>" and zero: "[bs ! 0, 0] = [bs ! 0, bs ! 1]" and ok: "resync_ok v"
    using assms(1) by (auto simp: decode_resync_def resync_ok_def Let_def split: if_splits)
  have "resync_wire v = [bs ! 0, 0] @ put16 (get16 bs 2) @ put32 (get32 bs 4)"
    by (simp add: v resync_wire_def)
  also have "\<dots> = take kResyncBytes bs"
    using assms(2) unfolding zero by (simp add: message_consts rejoin_simps)
  finally show ?thesis using ok by simp
qed

interpretation resync: strict_codec "\<lambda>v out cap. map_option fst (encode_resync v out cap)"
  decode_resync resync_ok resync_wire kResyncBytes "\<lambda>_. True"
proof (unfold_locales, goal_cases)
  case (6 bs v)
  then show ?case using resync_decode_sound by simp
qed
   (auto simp: encode_resync_def decode_resync_def resync_ok_def resync_wire_def message_consts
      Let_def state_type_known known_type_canonical codec_simps split: if_splits)

interpretation heartbeat: strict_codec encode_heartbeat decode_heartbeat "\<lambda>_. True" heartbeat_wire
  kHeartbeatBytes "\<lambda>_. True"
  by unfold_locales
    (auto simp: encode_heartbeat_def decode_heartbeat_def heartbeat_wire_def message_consts Let_def
      codec_simps rejoin_simps split: if_splits)

lemma meta_decode_sound:
  assumes "decode_state_meta (Some bs) 16 = Some v" and "16 \<le> length bs"
  shows "meta_ok v \<and> meta_wire v = take 16 bs"
proof -
  have v: "v = \<lparr>sm_resource_id = get32 bs 0, sm_generation = get32 bs 4, sm_base_generation = get32 bs 8,
      sm_source_id = get16 bs 12, sm_snapshot = bs ! 14, sm_reserved = bs ! 15\<rparr>"
    and ok: "meta_ok v"
    using assms(1) by (auto simp: decode_state_meta_def meta_ok_def Let_def split: if_splits)
  show ?thesis
    using assms(2) ok unfolding v by (simp add: meta_wire_def rejoin_simps)
qed


interpretation meta: codec encode_state_meta decode_state_meta meta_ok meta_wire 16
proof (unfold_locales, goal_cases)
  case (6 bs v)
  then show ?case using meta_decode_sound by simp
qed
   (auto simp: encode_state_meta_def decode_state_meta_def meta_ok_def meta_wire_def Let_def
      codec_simps split: if_splits)

lemma encode_state_meta_guarded:
  "sm_snapshot v \<le> 1 \<Longrightarrow> sm_reserved v = 0 \<Longrightarrow> \<not> meta_ok v \<Longrightarrow>
     encode_state_meta v (Some out) cap = None"
  by (auto simp: encode_state_meta_def meta_ok_def)

lemma meta_ok_snapshot: "meta_ok v \<Longrightarrow> \<not> 1 < sm_snapshot v \<and> sm_reserved v = 0"
  by (simp add: meta_ok_def not_less)

lemmas state_codec_simps = meta.encode_valid meta.decode_wire meta.wire_length meta_ok_snapshot
  Let_def message_consts codec_simps

interpretation position: strict_codec encode_position decode_position position_ok position_wire
  kPositionBytes "\<lambda>_. True"
proof (unfold_locales, goal_cases)
  case (6 bs v)
  then show ?case
    using meta_decode_sound [of bs "p_meta v"]
    by (auto simp: decode_position_def position_ok_def position_wire_def message_consts Let_def
        rejoin_simps split: if_splits option.splits)
next
  case (9 v out cap)
  then show ?case
    using encode_state_meta_guarded [of "p_meta v" out cap]
    by (auto simp: encode_position_def position_ok_def not_less abs_le_iff split: option.splits)
qed (auto simp: encode_position_def decode_position_def position_ok_def position_wire_def
      state_codec_simps split: if_splits option.splits)

interpretation attitude: strict_codec encode_attitude decode_attitude attitude_ok attitude_wire
  kAttitudeBytes "\<lambda>_. True"
proof (unfold_locales, goal_cases)
  case (6 bs v)
  then show ?case
    using meta_decode_sound [of bs "a_meta v"]
    by (auto simp: decode_attitude_def attitude_ok_def attitude_wire_def message_consts Let_def
        rejoin_simps split: if_splits option.splits)
next
  case (9 v out cap)
  then show ?case
    using encode_state_meta_guarded [of "a_meta v" out cap]
    by (auto simp: encode_attitude_def attitude_ok_def not_less split: option.splits)
qed (auto simp: encode_attitude_def decode_attitude_def attitude_ok_def attitude_wire_def
      state_codec_simps split: if_splits option.splits)

lemma battery_decode_sound:
  assumes "decode_battery (Some bs) kBatteryBytes = Some v" and "kBatteryBytes \<le> length bs"
  shows "battery_ok v \<and> battery_wire v = take kBatteryBytes bs"
proof -
  obtain m where m: "decode_state_meta (Some bs) 16 = Some m"
    and v: "v = \<lparr>b_meta = m, b_voltage_mv = get16 bs 16, b_current_ma = get16 bs 18,
      b_remaining_permille = get16 bs 20, b_reserved = get16 bs 22\<rparr>"
    and ok: "b_remaining_permille v \<le> 1000" "b_reserved v = 0"
    using assms(1)
    by (auto simp: decode_battery_def Let_def split: if_splits option.splits)
  have meta: "meta_ok m \<and> meta_wire m = take 16 bs"
    using meta_decode_sound [OF m] assms(2) by (simp add: message_consts)
  then have "battery_wire v = take kBatteryBytes bs"
    using assms(2) by (simp add: v battery_wire_def message_consts rejoin_simps)
  then show ?thesis
    using ok meta by (simp add: battery_ok_def v)
qed

interpretation battery: strict_codec encode_battery decode_battery battery_ok battery_wire
  kBatteryBytes "\<lambda>_. True"
proof (unfold_locales, goal_cases)
  case (6 bs v)
  then show ?case using battery_decode_sound by simp
next
  case (9 v out cap)
  then show ?case
    using encode_state_meta_guarded [of "b_meta v" out cap]
    by (auto simp: encode_battery_def battery_ok_def not_less split: option.splits)
qed (auto simp: encode_battery_def decode_battery_def battery_ok_def battery_wire_def
      state_codec_simps split: if_splits option.splits)


lemma command_args_cases:
  assumes "length (cr_args v) = kMaxArgs"
  obtains a b c d e f g where "cr_args v = [a, b, c, d, e, f, g]"
proof -
  have "length (cr_args v) = Suc (Suc (Suc (Suc (Suc (Suc (Suc 0))))))"
    using assms by (simp add: message_consts)
  then show ?thesis using that by (auto simp: length_Suc_conv)
qed

lemma arg_indices: "[0..<7] = [0, 1, 2, 3, 4, 5, 6 :: nat]"
  by (simp add: upt_rec)

lemma command_wire_length: "length (cr_args v) = kMaxArgs \<Longrightarrow> length (command_wire v) = kCommandBytes"
  by (erule command_args_cases) (simp add: command_wire_def message_consts)

lemma command_encode_valid:
  assumes "length (cr_args v) = kMaxArgs" and "valid_command v"
    and "kCommandBytes \<le> cap" and "kCommandBytes \<le> length out"
  shows "encode_command v (Some out) cap = Some (command_wire v @ drop kCommandBytes out, kCommandBytes)"
  using assms
  by (elim command_args_cases)
     (simp add: encode_command_def command_wire_def message_consts Let_def put_float_def
       arg_indices codec_simps)

lemma command_decode_wire:
  assumes "command_ok v"
  shows "decode_command (Some (command_wire v @ rest)) kCommandBytes = Some v"
proof -
  obtain a b c d e f g where args: "cr_args v = [a, b, c, d, e, f, g]"
    using assms unfolding command_ok_def by (elim conjE command_args_cases)
  have "map (\<lambda>i. get_float (command_wire v @ rest) (16 + 4 * i)) [0..<kMaxArgs] = cr_args v"
    by (simp add: args command_wire_def message_consts get_float_def arg_indices codec_simps)
  moreover have "valid_command \<lparr>cr_request_id = cr_request_id v, cr_command_id = cr_command_id v,
      cr_deadline_ms = cr_deadline_ms v, cr_arg_count = cr_arg_count v, cr_args = cr_args v\<rparr>"
    using assms by (cases v) (simp add: command_ok_def)
  ultimately show ?thesis
    by (simp add: decode_command_def Let_def) (simp add: command_wire_def codec_simps)
qed

lemma command_decode_sound:
  assumes "decode_command (Some bs) kCommandBytes = Some v" and "kCommandBytes \<le> length bs"
  shows "command_ok v \<and> command_wire v = take kCommandBytes bs"
proof -
  have v: "v = \<lparr>cr_request_id = get64 bs 0, cr_command_id = get16 bs 8, cr_deadline_ms = get16 bs 10,
      cr_arg_count = bs ! 12, cr_args = map (\<lambda>i. get_float bs (16 + 4 * i)) [0..<kMaxArgs]\<rparr>"
    and zero: "[bs ! 12, 0, 0, 0] = [bs ! 12, bs ! 13, bs ! 14, bs ! 15]" and ok: "valid_command v"
    using assms(1) by (auto simp: decode_command_def Let_def split: if_splits)
  have "command_wire v = put64 (get64 bs 0) @ put16 (get16 bs 8) @ put16 (get16 bs 10) @
     [bs ! 12, 0, 0, 0] @ concat (map (\<lambda>i. put32 (get32 bs (16 + 4 * i))) [0..<kMaxArgs])"
    by (simp add: v command_wire_def get_float_def comp_def)
  also have "\<dots> = take kCommandBytes bs"
    using assms(2) unfolding zero by (simp add: message_consts arg_indices rejoin_simps)
  finally show ?thesis using ok by (simp add: command_ok_def v)
qed

interpretation command: strict_codec "\<lambda>v out cap. map_option fst (encode_command v out cap)"
  decode_command command_ok command_wire kCommandBytes "\<lambda>v. length (cr_args v) = kMaxArgs"
proof (unfold_locales, goal_cases)
  case (1 v cap out)
  then show ?case using command_encode_valid by (simp add: command_ok_def)
next
  case (4 v)
  then show ?case using command_wire_length by (simp add: command_ok_def)
next
  case (5 v rest)
  then show ?case by (rule command_decode_wire)
next
  case (6 bs v)
  then show ?case using command_decode_sound by simp
qed (simp_all add: command_ok_def encode_command_def decode_command_def)


lemma reported_length:
  "map_option fst x = Some y \<Longrightarrow> (\<And>b k. x = Some (b, k) \<Longrightarrow> k = n) \<Longrightarrow> x = Some (y, n)"
  by (cases x) auto

lemma encode_command_reports: "encode_command v out cap = Some (buf, n) \<Longrightarrow> n = kCommandBytes"
  by (auto simp: encode_command_def Let_def split: option.splits if_splits)

lemma encode_ack_reports: "encode_ack v out cap = Some (buf, n) \<Longrightarrow> n = kAckBytes"
  by (auto simp: encode_ack_def Let_def split: option.splits if_splits)

lemma encode_resync_reports: "encode_resync v out cap = Some (buf, n) \<Longrightarrow> n = kResyncBytes"
  by (auto simp: encode_resync_def Let_def split: option.splits if_splits)

lemma encode_subscription_reports:
  "encode_subscription v out cap = Some (buf, n) \<Longrightarrow> n = kSubscribeBytes"
  by (auto simp: encode_subscription_def Let_def split: option.splits if_splits)

section \<open>Properties\<close>

text \<open>
  C35: Encoding a command into a buffer of at least the given capacity succeeds exactly when the
  command is valid (non-zero identifiers and deadline, at most seven arguments, the used ones
  finite) and the capacity suffices; it then reports \<open>kCommandBytes\<close>, leaves the rest of the buffer
  alone, and \<^verbatim>\<open>decode_command\<close> returns the very same request.
\<close>

theorem command_codec_round_trip:
  assumes "length (cr_args v) = kMaxArgs" and "kCommandBytes \<le> length out" and "cap \<le> length out"
  shows "case encode_command v (Some out) cap of
      None \<Rightarrow> \<not> valid_command v \<or> cap < kCommandBytes
    | Some (buf, n) \<Rightarrow> valid_command v \<and> n = kCommandBytes \<and> n \<le> cap \<and> length buf = length out \<and>
        drop n buf = drop n out \<and> decode_command (Some buf) n = Some v"
proof (cases "command_ok v \<and> kCommandBytes \<le> cap")
  case True
  then show ?thesis
    using command.decode_wire command.wire_length [of v] assms
    by (simp add: command_encode_valid command_ok_def)
next
  case False
  then have "encode_command v (Some out) cap = None"
    using command.encode_iff [of v out cap] assms by auto
  then show ?thesis using False assms by (auto simp: command_ok_def)
qed

definition example_command :: CommandRequest where
  "example_command = \<lparr>cr_request_id = 7, cr_command_id = 400, cr_deadline_ms = 500, cr_arg_count = 1,
     cr_args = [0x3F800000, 0, 0, 0, 0, 0, 0]\<rparr>"

theorem command_codec_round_trip_witness:
  "case encode_command example_command (Some (replicate 50 0xAA)) 50 of
      None \<Rightarrow> False
    | Some (buf, n) \<Rightarrow> n = 44 \<and> drop 44 buf = replicate 6 0xAA \<and>
        decode_command (Some buf) n = Some example_command"
  using command_codec_round_trip [of example_command "replicate 50 0xAA" 50]
  by (auto simp: example_command_def valid_command_def isfinite_def message_consts
      drop_bit_eq_div split: option.splits)

text \<open>
  C36: The three state payloads. Each encoder succeeds exactly on the values that satisfy the range
  checks of the code (with a sufficient capacity), it touches nothing after its fixed size, and its
  decoder gives the value back.
\<close>

theorem state_codecs_round_trip:
  assumes "kPositionBytes \<le> length out" and "cap \<le> length out"
  shows "(case encode_position pos (Some out) cap of
        None \<Rightarrow> \<not> position_ok pos \<or> cap < kPositionBytes
      | Some buf \<Rightarrow> position_ok pos \<and> kPositionBytes \<le> cap \<and> length buf = length out \<and>
          drop kPositionBytes buf = drop kPositionBytes out \<and>
          decode_position (Some buf) kPositionBytes = Some pos) \<and>
    (case encode_attitude att (Some out) cap of
        None \<Rightarrow> \<not> attitude_ok att \<or> cap < kAttitudeBytes
      | Some buf \<Rightarrow> attitude_ok att \<and> kAttitudeBytes \<le> cap \<and> length buf = length out \<and>
          drop kAttitudeBytes buf = drop kAttitudeBytes out \<and>
          decode_attitude (Some buf) kAttitudeBytes = Some att) \<and>
    (case encode_battery bat (Some out) cap of
        None \<Rightarrow> \<not> battery_ok bat \<or> cap < kBatteryBytes
      | Some buf \<Rightarrow> battery_ok bat \<and> kBatteryBytes \<le> cap \<and> length buf = length out \<and>
          drop kBatteryBytes buf = drop kBatteryBytes out \<and>
          decode_battery (Some buf) kBatteryBytes = Some bat)"
proof -
  have sizes: "kAttitudeBytes \<le> length out" "kBatteryBytes \<le> length out"
    using assms(1) by (simp_all add: message_consts)
  show ?thesis
    using assms sizes
    by (intro conjI position.checked_round_trip attitude.checked_round_trip
        battery.checked_round_trip) simp_all
qed

definition example_meta :: StateMeta where
  "example_meta = \<lparr>sm_resource_id = 1, sm_generation = 3, sm_base_generation = 0, sm_source_id = 9,
     sm_snapshot = 1, sm_reserved = 0\<rparr>"

definition example_position :: Position where
  "example_position = \<lparr>p_meta = example_meta, p_latitude_e7 = 525000000, p_longitude_e7 = - 134000000,
     p_altitude_mm = 34000\<rparr>"

definition example_battery :: Battery where
  "example_battery = \<lparr>b_meta = example_meta, b_voltage_mv = 11800, b_current_ma = 500,
     b_remaining_permille = 1001, b_reserved = 0\<rparr>"

lemma example_state_valid: "position_ok example_position \<and> \<not> battery_ok example_battery"
  by (simp add: position_ok_def battery_ok_def meta_ok_def example_position_def example_battery_def
      example_meta_def)

theorem state_codecs_round_trip_witness:
  "(\<exists>buf. encode_position example_position (Some (replicate 28 0)) 28 = Some buf \<and>
      decode_position (Some buf) 28 = Some example_position) \<and>
   encode_battery example_battery (Some (replicate 28 0)) 28 = None"
  using state_codecs_round_trip [of "replicate 28 0" 28 example_position
      "\<lparr>a_meta = example_meta, a_roll_urad = 0, a_pitch_urad = 0, a_yaw_urad = 0\<rparr>" example_battery]
    example_state_valid
  by (auto simp: message_consts split: option.splits)

text \<open>
  The control payloads: the acknowledgement, the resync request and the heartbeat encode exactly
  the valid values and decode to the value encoded; a valid subscription round-trips too, and
  \<^verbatim>\<open>unsubscribe\<close> has the same bytes.
\<close>

theorem control_codecs_round_trip:
  assumes "16 \<le> cap" and "cap \<le> length out"
  shows "(case encode_ack a (Some out) cap of
        None \<Rightarrow> ca_request_id a = 0
      | Some (buf, n) \<Rightarrow> n = kAckBytes \<and> ca_request_id a \<noteq> 0 \<and> drop n buf = drop n out \<and>
          decode_ack (Some buf) n = Some a) \<and>
    (case encode_resync r (Some out) cap of
        None \<Rightarrow> \<not> resync_ok r
      | Some (buf, n) \<Rightarrow> n = kResyncBytes \<and> resync_ok r \<and> drop n buf = drop n out \<and>
          decode_resync (Some buf) n = Some r) \<and>
    (\<exists>buf. encode_heartbeat h (Some out) cap = Some buf \<and>
          drop kHeartbeatBytes buf = drop kHeartbeatBytes out \<and>
          decode_heartbeat (Some buf) kHeartbeatBytes = Some h) \<and>
    (subscription_ok s \<longrightarrow>
      (\<exists>buf. encode_subscription s (Some out) cap = Some (buf, kSubscribeBytes) \<and>
          encode_unsubscribe s (Some out) cap = Some (buf, kSubscribeBytes) \<and>
          drop kSubscribeBytes buf = drop kSubscribeBytes out \<and>
          decode_subscription (Some buf) kSubscribeBytes = Some s))"
proof (intro conjI impI)
  have len: "16 \<le> length out" using assms by simp
  show "case encode_ack a (Some out) cap of
        None \<Rightarrow> ca_request_id a = 0
      | Some (buf, n) \<Rightarrow> n = kAckBytes \<and> ca_request_id a \<noteq> 0 \<and> drop n buf = drop n out \<and>
          decode_ack (Some buf) n = Some a"
    using ack.checked_round_trip [where v = a and out = out and cap = cap] assms len
    by (auto simp: message_consts ack_ok_def dest!: encode_ack_reports split: option.splits)
  show "case encode_resync r (Some out) cap of
        None \<Rightarrow> \<not> resync_ok r
      | Some (buf, n) \<Rightarrow> n = kResyncBytes \<and> resync_ok r \<and> drop n buf = drop n out \<and>
          decode_resync (Some buf) n = Some r"
    using resync.checked_round_trip [where v = r and out = out and cap = cap] assms len
    by (auto simp: message_consts dest!: encode_resync_reports split: option.splits)
  show "\<exists>buf. encode_heartbeat h (Some out) cap = Some buf \<and>
          drop kHeartbeatBytes buf = drop kHeartbeatBytes out \<and>
          decode_heartbeat (Some buf) kHeartbeatBytes = Some h"
    using heartbeat.encode_decode [where v = h and cap = cap and out = out] assms by (auto simp: message_consts)
  assume "subscription_ok s"
  then show "\<exists>buf. encode_subscription s (Some out) cap = Some (buf, kSubscribeBytes) \<and>
          encode_unsubscribe s (Some out) cap = Some (buf, kSubscribeBytes) \<and>
          drop kSubscribeBytes buf = drop kSubscribeBytes out \<and>
          decode_subscription (Some buf) kSubscribeBytes = Some s"
    using subscription.encode_decode [of s cap out] assms
    by (fastforce simp: message_consts encode_unsubscribe_def dest: encode_subscription_reports)
qed

theorem control_codecs_round_trip_witness:
  "\<exists>buf. encode_subscription \<lparr>sb_type = MT_Position, sb_qos = Qos_of_u8 1, sb_source_id = 9,
        sb_interval_ms = 100, sb_flags = 0\<rparr> (Some (replicate 16 0)) 16 = Some (buf, 10) \<and>
     decode_subscription (Some buf) 10 = Some \<lparr>sb_type = MT_Position, sb_qos = Qos_of_u8 1,
        sb_source_id = 9, sb_interval_ms = 100, sb_flags = 0\<rparr>"
  using control_codecs_round_trip [of 16 "replicate 16 0"
      "\<lparr>ca_request_id = 1, ca_status = 0, ca_detail = 0, ca_reserved = 0, ca_result_code = 0\<rparr>"
      "\<lparr>rs_type = MT_Position, rs_source_id = 9, rs_resource_id = 1\<rparr>"
      "\<lparr>hb_uptime_ms = 1, hb_capabilities = 0, hb_state = 0\<rparr>"
      "\<lparr>sb_type = MT_Position, sb_qos = Qos_of_u8 1, sb_source_id = 9, sb_interval_ms = 100, sb_flags = 0\<rparr>"]
  by (auto simp: message_consts subscription_ok_def canonical_qos_def type_class_defs wire_consts)


text \<open>
  No payload has two readings or two spellings. Whatever bytes a decoder accepts, it accepts at
  exactly one length, it has read nothing beyond that length, and re-encoding the decoded value
  gives the same bytes back.
\<close>

theorem accepted_payloads_are_canonical:
  assumes "n \<le> length bs"
  shows "(decode_command (Some bs) n = Some c \<longrightarrow>
      encode_command c (Some (replicate n 0)) n = Some (take n bs, n)) \<and>
    (decode_position (Some bs) n = Some p \<longrightarrow>
      encode_position p (Some (replicate n 0)) n = Some (take n bs)) \<and>
    (decode_attitude (Some bs) n = Some a \<longrightarrow>
      encode_attitude a (Some (replicate n 0)) n = Some (take n bs)) \<and>
    (decode_battery (Some bs) n = Some b \<longrightarrow>
      encode_battery b (Some (replicate n 0)) n = Some (take n bs)) \<and>
    (decode_subscription (Some bs) n = Some s \<longrightarrow>
      encode_subscription s (Some (replicate n 0)) n = Some (take n bs, n)) \<and>
    (decode_resync (Some bs) n = Some r \<longrightarrow>
      encode_resync r (Some (replicate n 0)) n = Some (take n bs, n)) \<and>
    decode_command (Some (take n bs)) n = decode_command (Some bs) n \<and>
    decode_position (Some (take n bs)) n = decode_position (Some bs) n \<and>
    decode_battery (Some (take n bs)) n = decode_battery (Some bs) n"
proof (intro conjI impI)
  show "encode_command c (Some (replicate n 0)) n = Some (take n bs, n)" if "decode_command (Some bs) n = Some c"
    using command.decode_encode [OF that assms] by (auto intro: reported_length encode_command_reports)
  show "encode_subscription s (Some (replicate n 0)) n = Some (take n bs, n)"
    if "decode_subscription (Some bs) n = Some s"
    using subscription.decode_encode [OF that assms] by (auto intro: reported_length encode_subscription_reports)
  show "encode_resync r (Some (replicate n 0)) n = Some (take n bs, n)" if "decode_resync (Some bs) n = Some r"
    using resync.decode_encode [OF that assms] by (auto intro: reported_length encode_resync_reports)
  show "encode_position p (Some (replicate n 0)) n = Some (take n bs)" if "decode_position (Some bs) n = Some p"
    using position.decode_encode [OF that assms] by blast
  show "encode_attitude a (Some (replicate n 0)) n = Some (take n bs)" if "decode_attitude (Some bs) n = Some a"
    using attitude.decode_encode [OF that assms] by blast
  show "encode_battery b (Some (replicate n 0)) n = Some (take n bs)" if "decode_battery (Some bs) n = Some b"
    using battery.decode_encode [OF that assms] by blast
qed (use assms in \<open>simp_all add: command.decode_reads_prefix position.decode_reads_prefix
      battery.decode_reads_prefix\<close>)

theorem accepted_payloads_are_canonical_witness:
  "\<exists>v. decode_resync (Some [18, 0, 9, 0, 1, 0, 0, 0, 0xEE]) 8 = Some v \<and>
     encode_resync v (Some (replicate 8 0)) 8 = Some ([18, 0, 9, 0, 1, 0, 0, 0], 8)"
proof -
  obtain v where v: "decode_resync (Some [18, 0, 9, 0, 1, 0, 0, 0, 0xEE]) 8 = Some v"
    by (simp add: decode_resync_def message_consts Let_def MessageType_of_u8_def enumerators_def
        type_class_defs get16_def get32_def bytes_word_def upt_rec)
  then show ?thesis
    using accepted_payloads_are_canonical
      [of 8 "[18, 0, 9, 0, 1, 0, 0, 0, 0xEE]" example_command example_position
        "\<lparr>a_meta = example_meta, a_roll_urad = 0, a_pitch_urad = 0, a_yaw_urad = 0\<rparr>" example_battery
        "\<lparr>sb_type = MT_Position, sb_qos = Qos_Liveness, sb_source_id = 9, sb_interval_ms = 0, sb_flags = 0\<rparr>" v]
    by simp
qed

text \<open>
  The subscription encoder does not check the QoS it writes: a value outside the enumeration is
  encoded successfully into a payload that \<^verbatim>\<open>decode_subscription\<close> refuses.
\<close>

theorem subscription_qos_unchecked_on_encode:
  assumes "known_type t" and "src \<noteq> 0" and "5 < q" and "10 \<le> cap" and "10 \<le> length out"
  shows "\<exists>buf. encode_subscription \<lparr>sb_type = t, sb_qos = Qos_Other q, sb_source_id = src,
            sb_interval_ms = i, sb_flags = f\<rparr> (Some out) cap = Some (buf, kSubscribeBytes) \<and>
          decode_subscription (Some buf) kSubscribeBytes = None"
  using assms
  by (simp add: encode_subscription_def decode_subscription_def message_consts Let_def codec_simps)

theorem subscription_qos_unchecked_on_encode_witness:
  "\<exists>buf. encode_subscription \<lparr>sb_type = MT_Battery, sb_qos = Qos_Other 6, sb_source_id = 1,
            sb_interval_ms = 0, sb_flags = 0\<rparr> (Some (replicate 10 0)) 10 = Some (buf, kSubscribeBytes) \<and>
          decode_subscription (Some buf) kSubscribeBytes = None"
  using subscription_qos_unchecked_on_encode [of MT_Battery 1 6 10 "replicate 10 0" 0 0]
  by (simp add: type_class_defs)

end
