(* ===== verification/Handshake.thy ===== *)
theory Handshake
  imports Crc16 Record_Layer
begin

text \<open>
  The HELLO / ACCEPT / FINISH session establishment of \<^verbatim>\<open>include/new_mavlink/session.hpp\<close> and
  \<^verbatim>\<open>src/session.cpp\<close>: the three fixed-size message codecs, the authenticated transcript, and the
  state machines \<^verbatim>\<open>InitiatorSession\<close> and \<^verbatim>\<open>ResponderSession\<close>. An operation of a state machine
  returns the \<^verbatim>\<open>error\<close> it sets (the C++ result is \<^verbatim>\<open>true\<close> exactly for \<open>SE_None\<close>), what it wrote
  to its message out-parameter (\<open>None\<close>: left alone) and the object after the call: some failures
  come after the object or the out-parameter has been written, and the model keeps that.
\<close>

section \<open>Structures\<close>

datatype SessionError =
    SE_None | SE_InvalidInput | SE_InvalidState | SE_AuthenticationFailed | SE_NonceReuse
  | SE_InvalidTranscript

record Hello =
  hl_initiator_id :: u16
  hl_responder_id :: u16
  hl_client_nonce :: u64
  hl_capabilities :: u32

record Accept =
  ac_initiator_id :: u16
  ac_responder_id :: u16
  ac_client_nonce :: u64
  ac_server_nonce :: u64
  ac_session_id :: u64
  ac_epoch :: u64
  ac_authenticator :: "byte list"

record Finish =
  fi_initiator_id :: u16
  fi_responder_id :: u16
  fi_session_id :: u64
  fi_epoch :: u64
  fi_authenticator :: "byte list"

definition kHelloBytes :: nat where "kHelloBytes = 24"
definition kAcceptBytes :: nat where "kAcceptBytes = 64"
definition kFinishBytes :: nat where "kFinishBytes = 48"

lemmas handshake_consts = kHelloBytes_def kAcceptBytes_def kFinishBytes_def

definition default_hello :: Hello where
  "default_hello = \<lparr>hl_initiator_id = 0, hl_responder_id = 0, hl_client_nonce = 0, hl_capabilities = 0\<rparr>"

definition default_accept :: Accept where
  "default_accept = \<lparr>ac_initiator_id = 0, ac_responder_id = 0, ac_client_nonce = 0, ac_server_nonce = 0,
     ac_session_id = 0, ac_epoch = 0, ac_authenticator = replicate 16 0\<rparr>"

definition default_keys :: DirectionalKeys where
  "default_keys = \<lparr>dk_session = \<lparr>sid_value = 0, sid_epoch = 0\<rparr>, dk_local_id = 0, dk_peer_id = 0,
     dk_tx = replicate 16 0, dk_rx = replicate 16 0\<rparr>"

record InitiatorSession =
  in_local_id :: u16
  in_peer_id :: u16
  in_psk :: "byte list"
  in_hello :: Hello
  in_keys :: DirectionalKeys
  in_started :: bool
  in_established :: bool

record ResponderSession =
  re_local_id :: u16
  re_peer_id :: u16
  re_psk :: "byte list"
  re_hello :: Hello
  re_accept :: Accept
  re_keys :: DirectionalKeys
  re_accepted :: bool
  re_established :: bool

section \<open>Transcript and authenticators\<close>

definition valid_ids :: "u16 \<Rightarrow> u16 \<Rightarrow> bool" where
  "valid_ids a b \<longleftrightarrow> a \<noteq> 0 \<and> b \<noteq> 0 \<and> a \<noteq> b"

definition transcript :: "Hello \<Rightarrow> Accept \<Rightarrow> byte list" where
  "transcript hello acc =
     (let bytes = replicate 52 0;
          bytes = put_at bytes 0 (put16 (hl_initiator_id hello));
          bytes = put_at bytes 2 (put16 (hl_responder_id hello));
          bytes = put_at bytes 4 (put64 (hl_client_nonce hello));
          bytes = put_at bytes 12 (put32 (hl_capabilities hello));
          bytes = put_at bytes 16 (put16 (ac_initiator_id acc));
          bytes = put_at bytes 18 (put16 (ac_responder_id acc));
          bytes = put_at bytes 20 (put64 (ac_client_nonce acc));
          bytes = put_at bytes 28 (put64 (ac_server_nonce acc));
          bytes = put_at bytes 36 (put64 (ac_session_id acc))
      in put_at bytes 44 (put64 (ac_epoch acc)))"

text \<open>An authenticator is the tag of an empty plaintext under the all-zero nonce.\<close>

definition make_auth :: "ascon \<Rightarrow> byte list \<Rightarrow> byte list \<Rightarrow> nat \<Rightarrow> byte list option" where
  "make_auth A psk input input_length =
     (case crypto_aead_encrypt A [] (take input_length input) (replicate 16 0) psk of
        None \<Rightarrow> None
      | Some ciphertext \<Rightarrow> if length ciphertext \<noteq> 16 then None else Some ciphertext)"

section \<open>Message codecs\<close>

text \<open>
  An encoder fills the whole array before it checks anything, so it returns the result and the
  array; a decoder returns \<open>None\<close> for \<^verbatim>\<open>false\<close>.
\<close>

definition encode_hello :: "Hello \<Rightarrow> bool \<times> byte list" where
  "encode_hello v =
     (let out = replicate kHelloBytes 0
      in if \<not> valid_ids (hl_initiator_id v) (hl_responder_id v) \<or> hl_client_nonce v = 0 then (False, out)
         else
           let out = put_at out 0 (put16 (hl_initiator_id v));
               out = put_at out 2 (put16 (hl_responder_id v));
               out = put_at out 4 (put64 (hl_client_nonce v));
               out = put_at out 12 (put32 (hl_capabilities v))
           in (crc16_ccitt (Some out) 16 \<noteq> 0, out))"

definition decode_hello :: "ptr \<Rightarrow> nat \<Rightarrow> Hello option" where
  "decode_hello bytes len =
     (case bytes of
        None \<Rightarrow> None
      | Some b \<Rightarrow>
          if len \<noteq> kHelloBytes \<or> get16 b 16 \<noteq> crc16_ccitt (Some b) 16 then None
          else
            let v = \<lparr>hl_initiator_id = get16 b 0, hl_responder_id = get16 b 2, hl_client_nonce = get64 b 4,
                     hl_capabilities = get32 b 12\<rparr>
            in if valid_ids (hl_initiator_id v) (hl_responder_id v) \<and> hl_client_nonce v \<noteq> 0
               then Some v else None)"

definition encode_accept :: "Accept \<Rightarrow> bool \<times> byte list" where
  "encode_accept v =
     (let out = replicate kAcceptBytes 0
      in if \<not> valid_ids (ac_initiator_id v) (ac_responder_id v) \<or> ac_client_nonce v = 0 \<or>
            ac_server_nonce v = 0 \<or> ac_session_id v = 0 \<or> ac_epoch v = 0 then (False, out)
         else
           let out = put_at out 0 (put16 (ac_initiator_id v));
               out = put_at out 2 (put16 (ac_responder_id v));
               out = put_at out 4 (put64 (ac_client_nonce v));
               out = put_at out 12 (put64 (ac_server_nonce v));
               out = put_at out 20 (put64 (ac_session_id v));
               out = put_at out 28 (put64 (ac_epoch v));
               out = put_at out 36 (ac_authenticator v);
               out = put_at out 52 (put16 (crc16_ccitt (Some out) 52))
           in (True, out))"

definition decode_accept :: "ptr \<Rightarrow> nat \<Rightarrow> Accept option" where
  "decode_accept bytes len =
     (case bytes of
        None \<Rightarrow> None
      | Some b \<Rightarrow>
          if len \<noteq> kAcceptBytes \<or> get16 b 52 \<noteq> crc16_ccitt (Some b) 52 then None
          else
            let v = \<lparr>ac_initiator_id = get16 b 0, ac_responder_id = get16 b 2, ac_client_nonce = get64 b 4,
                     ac_server_nonce = get64 b 12, ac_session_id = get64 b 20, ac_epoch = get64 b 28,
                     ac_authenticator = take 16 (drop 36 b)\<rparr>
            in if valid_ids (ac_initiator_id v) (ac_responder_id v) \<and> ac_client_nonce v \<noteq> 0 \<and>
                  ac_server_nonce v \<noteq> 0 \<and> ac_session_id v \<noteq> 0 \<and> ac_epoch v \<noteq> 0
               then Some v else None)"

definition encode_finish :: "Finish \<Rightarrow> bool \<times> byte list" where
  "encode_finish v =
     (let out = replicate kFinishBytes 0
      in if \<not> valid_ids (fi_initiator_id v) (fi_responder_id v) \<or> fi_session_id v = 0 \<or> fi_epoch v = 0
         then (False, out)
         else
           let out = put_at out 0 (put16 (fi_initiator_id v));
               out = put_at out 2 (put16 (fi_responder_id v));
               out = put_at out 4 (put64 (fi_session_id v));
               out = put_at out 12 (put64 (fi_epoch v));
               out = put_at out 20 (fi_authenticator v);
               out = put_at out 36 (put16 (crc16_ccitt (Some out) 36))
           in (True, out))"

definition decode_finish :: "ptr \<Rightarrow> nat \<Rightarrow> Finish option" where
  "decode_finish bytes len =
     (case bytes of
        None \<Rightarrow> None
      | Some b \<Rightarrow>
          if len \<noteq> kFinishBytes \<or> get16 b 36 \<noteq> crc16_ccitt (Some b) 36 then None
          else
            let v = \<lparr>fi_initiator_id = get16 b 0, fi_responder_id = get16 b 2, fi_session_id = get64 b 4,
                     fi_epoch = get64 b 12, fi_authenticator = take 16 (drop 20 b)\<rparr>
            in if valid_ids (fi_initiator_id v) (fi_responder_id v) \<and> fi_session_id v \<noteq> 0 \<and>
                  fi_epoch v \<noteq> 0
               then Some v else None)"

section \<open>The initiator\<close>

definition new_InitiatorSession :: "u16 \<Rightarrow> u16 \<Rightarrow> byte list \<Rightarrow> InitiatorSession" where
  "new_InitiatorSession local_id peer_id psk =
     \<lparr>in_local_id = local_id, in_peer_id = peer_id, in_psk = psk, in_hello = default_hello,
      in_keys = default_keys, in_started = False, in_established = False\<rparr>"

definition InitiatorSession_start ::
    "InitiatorSession \<Rightarrow> u64 \<Rightarrow> SessionError \<times> Hello option \<times> InitiatorSession" where
  "InitiatorSession_start s client_nonce =
     (if in_started s \<or> \<not> valid_ids (in_local_id s) (in_peer_id s) \<or> client_nonce = 0
      then (if in_started s then SE_NonceReuse else SE_InvalidInput, None, s)
      else
        let hello = \<lparr>hl_initiator_id = in_local_id s, hl_responder_id = in_peer_id s,
                     hl_client_nonce = client_nonce, hl_capabilities = 0\<rparr>
        in (SE_None, Some hello, s\<lparr>in_hello := hello, in_started := True\<rparr>))"

text \<open>The 20 bytes a FINISH authenticator covers (both ends build them the same way).\<close>

definition finish_input :: "Finish \<Rightarrow> nat \<Rightarrow> byte list" where
  "finish_input m bytes =
     (let f = replicate bytes 0;
          f = put_at f 0 (put16 (fi_initiator_id m));
          f = put_at f 2 (put16 (fi_responder_id m));
          f = put_at f 4 (put64 (fi_session_id m))
      in put_at f 12 (put64 (fi_epoch m)))"

definition InitiatorSession_accept ::
    "ascon \<Rightarrow> InitiatorSession \<Rightarrow> Accept \<Rightarrow> SessionError \<times> Finish option \<times> InitiatorSession" where
  "InitiatorSession_accept A s received =
     (if \<not> in_started s \<or> in_established s then (SE_InvalidState, None, s)
      else if ac_initiator_id received \<noteq> in_local_id s \<or> ac_responder_id received \<noteq> in_peer_id s \<or>
         ac_client_nonce received \<noteq> hl_client_nonce (in_hello s)
      then (SE_InvalidTranscript, None, s)
      else
        let without_auth = received\<lparr>ac_authenticator := replicate 16 0\<rparr>;
            tr = transcript (in_hello s) without_auth
        in if make_auth A (in_psk s) tr 52 \<noteq> Some (ac_authenticator received)
           then (SE_AuthenticationFailed, None, s)
           else
             let sid = \<lparr>sid_value = ac_session_id received, sid_epoch = ac_epoch received\<rparr>
             in case derive_directional_keys A (in_psk s) sid (in_local_id s) (in_peer_id s) of
                  None \<Rightarrow> (SE_InvalidInput, None, s)
                | Some (initiator_keys, responder_keys) \<Rightarrow>
                    let s = s\<lparr>in_keys := initiator_keys\<rparr>;
                        finish_message = \<lparr>fi_initiator_id = in_local_id s, fi_responder_id = in_peer_id s,
                          fi_session_id = ac_session_id received, fi_epoch = ac_epoch received,
                          fi_authenticator = replicate 16 0\<rparr>
                    in case make_auth A (in_psk s) (finish_input finish_message 48) 20 of
                         None \<Rightarrow> (SE_AuthenticationFailed, Some finish_message, s)
                       | Some auth \<Rightarrow>
                           (SE_None, Some (finish_message\<lparr>fi_authenticator := auth\<rparr>),
                            s\<lparr>in_established := True\<rparr>))"

section \<open>The responder\<close>

definition new_ResponderSession :: "u16 \<Rightarrow> u16 \<Rightarrow> byte list \<Rightarrow> ResponderSession" where
  "new_ResponderSession local_id peer_id psk =
     \<lparr>re_local_id = local_id, re_peer_id = peer_id, re_psk = psk, re_hello = default_hello,
      re_accept = default_accept, re_keys = default_keys, re_accepted = False, re_established = False\<rparr>"

definition ResponderSession_receive_hello ::
    "ascon \<Rightarrow> ResponderSession \<Rightarrow> Hello \<Rightarrow> u64 \<Rightarrow> SessionError \<times> Accept option \<times> ResponderSession" where
  "ResponderSession_receive_hello A s hello server_nonce =
     (if re_accepted s \<or> \<not> valid_ids (re_local_id s) (re_peer_id s) \<or>
         hl_initiator_id hello \<noteq> re_peer_id s \<or> hl_responder_id hello \<noteq> re_local_id s \<or>
         hl_client_nonce hello = 0 \<or> server_nonce = 0
      then (if re_accepted s then SE_NonceReuse else SE_InvalidInput, None, s)
      else
        let s = s\<lparr>re_hello := hello,
                  re_accept := \<lparr>ac_initiator_id = re_peer_id s, ac_responder_id = re_local_id s,
                    ac_client_nonce = hl_client_nonce hello, ac_server_nonce = server_nonce,
                    ac_session_id = hl_client_nonce hello XOR server_nonce, ac_epoch = 1,
                    ac_authenticator = replicate 16 0\<rparr>\<rparr>;
            no_auth = re_accept s;
            tr = transcript (re_hello s) no_auth
        in case make_auth A (re_psk s) tr 52 of
             None \<Rightarrow> (SE_AuthenticationFailed, None, s)
           | Some auth \<Rightarrow>
               let s = s\<lparr>re_accept := (re_accept s)\<lparr>ac_authenticator := auth\<rparr>\<rparr>;
                   response = re_accept s;
                   sid = \<lparr>sid_value = ac_session_id (re_accept s), sid_epoch = ac_epoch (re_accept s)\<rparr>
               in case derive_directional_keys A (re_psk s) sid (re_peer_id s) (re_local_id s) of
                    None \<Rightarrow> (SE_InvalidInput, Some response, s)
                  | Some (initiator_keys, responder_keys) \<Rightarrow>
                      (SE_None, Some response, s\<lparr>re_keys := responder_keys, re_accepted := True\<rparr>))"

definition ResponderSession_finish ::
    "ascon \<Rightarrow> ResponderSession \<Rightarrow> Finish \<Rightarrow> SessionError \<times> ResponderSession" where
  "ResponderSession_finish A s message =
     (if \<not> re_accepted s \<or> re_established s \<or> fi_initiator_id message \<noteq> re_peer_id s \<or>
         fi_responder_id message \<noteq> re_local_id s \<or>
         fi_session_id message \<noteq> ac_session_id (re_accept s) \<or>
         fi_epoch message \<noteq> ac_epoch (re_accept s)
      then (SE_InvalidState, s)
      else if make_auth A (re_psk s) (finish_input message 20) 20 \<noteq> Some (fi_authenticator message)
      then (SE_AuthenticationFailed, s)
      else (SE_None, s\<lparr>re_established := True\<rparr>))"

section \<open>Wire images\<close>

definition transcript_wire :: "Hello \<Rightarrow> Accept \<Rightarrow> byte list" where
  "transcript_wire h a =
     put16 (hl_initiator_id h) @ put16 (hl_responder_id h) @ put64 (hl_client_nonce h) @
     put32 (hl_capabilities h) @ put16 (ac_initiator_id a) @ put16 (ac_responder_id a) @
     put64 (ac_client_nonce a) @ put64 (ac_server_nonce a) @ put64 (ac_session_id a) @ put64 (ac_epoch a)"

definition finish_wire :: "Finish \<Rightarrow> byte list" where
  "finish_wire m = put16 (fi_initiator_id m) @ put16 (fi_responder_id m) @ put64 (fi_session_id m) @
     put64 (fi_epoch m)"

lemma transcript_eq: "transcript h a = transcript_wire h a"
  by (simp add: transcript_def transcript_wire_def Let_def codec_simps)

lemma length_transcript_wire [simp]: "length (transcript_wire h a) = 52"
  by (simp add: transcript_wire_def)

lemma length_finish_wire [simp]: "length (finish_wire m) = 20"
  by (simp add: finish_wire_def)

lemma finish_input_eq: "20 \<le> n \<Longrightarrow> take 20 (finish_input m n) = finish_wire m"
  by (simp add: finish_input_def finish_wire_def Let_def codec_simps)

lemma transcript_wire_auth [simp]: "transcript_wire h (a\<lparr>ac_authenticator := x\<rparr>) = transcript_wire h a"
  by (simp add: transcript_wire_def)

lemma finish_wire_auth [simp]: "finish_wire (m\<lparr>fi_authenticator := x\<rparr>) = finish_wire m"
  by (simp add: finish_wire_def)

lemma transcript_wire_inj:
  "transcript_wire h a = transcript_wire h' a' \<longleftrightarrow>
     h = h' \<and> a\<lparr>ac_authenticator := []\<rparr> = a'\<lparr>ac_authenticator := []\<rparr>"
  by (cases h; cases h'; cases a; cases a') (auto simp: transcript_wire_def)

lemma transcript_not_finish: "transcript_wire h a \<noteq> finish_wire m"
proof
  assume "transcript_wire h a = finish_wire m"
  then have "length (transcript_wire h a) = length (finish_wire m)" by simp
  then show False by simp
qed

text \<open>The authenticator of a byte string: the tag of the empty message.\<close>

definition auth_tag :: "ascon \<Rightarrow> byte list \<Rightarrow> byte list \<Rightarrow> byte list option" where
  "auth_tag A psk input = make_auth A psk input (length input)"

lemma make_auth_transcript: "make_auth A psk (transcript h a) 52 = auth_tag A psk (transcript_wire h a)"
  by (simp add: auth_tag_def transcript_eq)

lemma make_auth_take: "make_auth A psk (take n x) n = make_auth A psk x n"
  by (simp add: make_auth_def)

lemma make_auth_finish: "20 \<le> n \<Longrightarrow> make_auth A psk (finish_input m n) 20 = auth_tag A psk (finish_wire m)"
  using make_auth_take [of A psk 20 "finish_input m n"] by (simp add: auth_tag_def finish_input_eq)

lemma auth_tag_Some: "aead_correct A \<Longrightarrow> \<exists>t. auth_tag A psk x = Some t \<and> length t = 16"
  using encrypt_Some [of A "[]" x "replicate 16 0" psk] by (auto simp: auth_tag_def make_auth_def)

lemmas auth_simps = make_auth_transcript make_auth_finish

section \<open>What a successful operation implies\<close>

lemma start_okD:
  assumes "InitiatorSession_start s n = (SE_None, out, s')"
  shows "\<not> in_started s" "valid_ids (in_local_id s) (in_peer_id s)" "n \<noteq> 0" "out = Some (in_hello s')"
    "s' = s\<lparr>in_hello := \<lparr>hl_initiator_id = in_local_id s, hl_responder_id = in_peer_id s,
       hl_client_nonce = n, hl_capabilities = 0\<rparr>, in_started := True\<rparr>"
  using assms by (auto simp: InitiatorSession_start_def Let_def split: if_splits)

lemma accept_okD:
  assumes "InitiatorSession_accept A s a = (SE_None, out, s')"
  shows "in_started s \<and> \<not> in_established s \<and> ac_initiator_id a = in_local_id s \<and>
    ac_responder_id a = in_peer_id s \<and> ac_client_nonce a = hl_client_nonce (in_hello s) \<and>
    auth_tag A (in_psk s) (transcript_wire (in_hello s) a) = Some (ac_authenticator a) \<and>
    (\<exists>k1 k2 m. derive_directional_keys A (in_psk s)
        \<lparr>sid_value = ac_session_id a, sid_epoch = ac_epoch a\<rparr> (in_local_id s) (in_peer_id s) = Some (k1, k2) \<and>
      out = Some m \<and> fi_initiator_id m = in_local_id s \<and> fi_responder_id m = in_peer_id s \<and>
      fi_session_id m = ac_session_id a \<and> fi_epoch m = ac_epoch a \<and>
      auth_tag A (in_psk s) (finish_wire m) = Some (fi_authenticator m) \<and>
      s' = s\<lparr>in_keys := k1, in_established := True\<rparr>)"
  using assms
  by (auto simp: InitiatorSession_accept_def Let_def auth_simps finish_wire_def
      split: if_splits option.splits prod.splits)

lemma hello_okD:
  assumes "ResponderSession_receive_hello A s h n = (SE_None, out, s')"
  shows "\<not> re_accepted s \<and> valid_ids (re_local_id s) (re_peer_id s) \<and> hl_initiator_id h = re_peer_id s \<and>
    hl_responder_id h = re_local_id s \<and> hl_client_nonce h \<noteq> 0 \<and> n \<noteq> 0 \<and>
    (\<exists>k1 k2 t a. a = \<lparr>ac_initiator_id = re_peer_id s, ac_responder_id = re_local_id s,
          ac_client_nonce = hl_client_nonce h, ac_server_nonce = n,
          ac_session_id = hl_client_nonce h XOR n, ac_epoch = 1, ac_authenticator = t\<rparr> \<and>
      auth_tag A (re_psk s) (transcript_wire h a) = Some t \<and>
      derive_directional_keys A (re_psk s) \<lparr>sid_value = hl_client_nonce h XOR n, sid_epoch = 1\<rparr>
        (re_peer_id s) (re_local_id s) = Some (k1, k2) \<and>
      out = Some a \<and> s' = s\<lparr>re_hello := h, re_accept := a, re_keys := k2, re_accepted := True\<rparr>)"
  using assms
  by (auto simp: ResponderSession_receive_hello_def Let_def auth_simps transcript_wire_def
      split: if_splits option.splits prod.splits)

lemma finish_okD:
  assumes "ResponderSession_finish A s m = (SE_None, s')"
  shows "re_accepted s \<and> \<not> re_established s \<and> fi_initiator_id m = re_peer_id s \<and>
    fi_responder_id m = re_local_id s \<and> fi_session_id m = ac_session_id (re_accept s) \<and>
    fi_epoch m = ac_epoch (re_accept s) \<and> auth_tag A (re_psk s) (finish_wire m) = Some (fi_authenticator m) \<and>
    s' = s\<lparr>re_established := True\<rparr>"
  using assms by (auto simp: ResponderSession_finish_def auth_simps split: if_splits)


section \<open>Message codecs\<close>

definition accept_ok :: "Accept \<Rightarrow> bool" where
  "accept_ok v \<longleftrightarrow> valid_ids (ac_initiator_id v) (ac_responder_id v) \<and> ac_client_nonce v \<noteq> 0 \<and>
     ac_server_nonce v \<noteq> 0 \<and> ac_session_id v \<noteq> 0 \<and> ac_epoch v \<noteq> 0"

definition finish_ok :: "Finish \<Rightarrow> bool" where
  "finish_ok v \<longleftrightarrow> valid_ids (fi_initiator_id v) (fi_responder_id v) \<and> fi_session_id v \<noteq> 0 \<and> fi_epoch v \<noteq> 0"

definition accept_body :: "Accept \<Rightarrow> byte list" where
  "accept_body v = put16 (ac_initiator_id v) @ put16 (ac_responder_id v) @ put64 (ac_client_nonce v) @
     put64 (ac_server_nonce v) @ put64 (ac_session_id v) @ put64 (ac_epoch v) @ ac_authenticator v"

definition finish_body :: "Finish \<Rightarrow> byte list" where
  "finish_body v = put16 (fi_initiator_id v) @ put16 (fi_responder_id v) @ put64 (fi_session_id v) @
     put64 (fi_epoch v) @ fi_authenticator v"

lemma length_accept_body: "length (ac_authenticator v) = 16 \<Longrightarrow> length (accept_body v) = 52"
  by (simp add: accept_body_def)

lemma length_finish_body: "length (fi_authenticator v) = 16 \<Longrightarrow> length (finish_body v) = 36"
  by (simp add: finish_body_def)

lemma encode_accept_wire:
  assumes "length (ac_authenticator v) = 16"
  shows "encode_accept v = (if accept_ok v
    then (True, accept_body v @ put16 (crc16_ccitt (Some (accept_body v)) 52) @ replicate 10 0)
    else (False, replicate kAcceptBytes 0))"
proof -
  have "length (accept_body v) = 52" using assms by (simp add: length_accept_body)
  then have crc: "crc16_ccitt (Some (accept_body v @ rest)) 52 = crc16_ccitt (Some (accept_body v)) 52" for rest
    by (rule crc16_ccitt_append)
  show ?thesis
    using assms crc [of "replicate 12 0"]
    by (simp add: encode_accept_def accept_ok_def Let_def handshake_consts codec_simps accept_body_def)
qed

lemma decode_accept_wire:
  assumes "length (ac_authenticator v) = 16" and "accept_ok v"
  shows "decode_accept (Some (accept_body v @ put16 (crc16_ccitt (Some (accept_body v)) 52) @ rest))
    kAcceptBytes = Some v"
proof -
  have len: "length (accept_body v) = 52" using assms by (simp add: length_accept_body)
  show ?thesis
    using assms unfolding decode_accept_def
    by (simp add: crc16_ccitt_append [OF len] get16_skip len get16_put16 Let_def)
       (simp add: accept_body_def accept_ok_def codec_simps)
qed

lemma encode_finish_wire:
  assumes "length (fi_authenticator v) = 16"
  shows "encode_finish v = (if finish_ok v
    then (True, finish_body v @ put16 (crc16_ccitt (Some (finish_body v)) 36) @ replicate 10 0)
    else (False, replicate kFinishBytes 0))"
proof -
  have "length (finish_body v) = 36" using assms by (simp add: length_finish_body)
  then have crc: "crc16_ccitt (Some (finish_body v @ rest)) 36 = crc16_ccitt (Some (finish_body v)) 36" for rest
    by (rule crc16_ccitt_append)
  show ?thesis
    using assms crc [of "replicate 12 0"]
    by (simp add: encode_finish_def finish_ok_def Let_def handshake_consts codec_simps finish_body_def)
qed

lemma decode_finish_wire:
  assumes "length (fi_authenticator v) = 16" and "finish_ok v"
  shows "decode_finish (Some (finish_body v @ put16 (crc16_ccitt (Some (finish_body v)) 36) @ rest))
    kFinishBytes = Some v"
proof -
  have len: "length (finish_body v) = 36" using assms by (simp add: length_finish_body)
  show ?thesis
    using assms unfolding decode_finish_def
    by (simp add: crc16_ccitt_append [OF len] get16_skip len get16_put16 Let_def)
       (simp add: finish_body_def finish_ok_def codec_simps)
qed

section \<open>Runs of the two state machines\<close>

text \<open>
  A state of a run is the calls made so far, with the messages the endpoint was given, and the object
  after them.
\<close>

datatype initiator_call = Call_start u64 | Call_accept Accept

datatype responder_call = Call_hello Hello u64 | Call_finish Finish

type_synonym initiator_run = "initiator_call list \<times> InitiatorSession"
type_synonym responder_run = "responder_call list \<times> ResponderSession"

inductive initiator_step :: "ascon \<Rightarrow> initiator_run \<Rightarrow> initiator_run \<Rightarrow> bool" for A where
  start: "InitiatorSession_start s n = (e, out, s') \<Longrightarrow> initiator_step A (cs, s) (cs @ [Call_start n], s')"
| accept: "InitiatorSession_accept A s a = (e, out, s') \<Longrightarrow> initiator_step A (cs, s) (cs @ [Call_accept a], s')"

inductive responder_step :: "ascon \<Rightarrow> responder_run \<Rightarrow> responder_run \<Rightarrow> bool" for A where
  hello: "ResponderSession_receive_hello A s h n = (e, out, s') \<Longrightarrow>
    responder_step A (cs, s) (cs @ [Call_hello h n], s')"
| finish: "ResponderSession_finish A s m = (e, s') \<Longrightarrow> responder_step A (cs, s) (cs @ [Call_finish m], s')"

inductive_cases initiator_stepE: "initiator_step A (cs, s) c"
inductive_cases responder_stepE: "responder_step A (cs, s) c"

text \<open>The ACCEPT an initiator trusts: for its own HELLO, with the tag of the transcript of the two.\<close>

definition trusted_accept :: "ascon \<Rightarrow> byte list \<Rightarrow> Hello \<Rightarrow> Accept \<Rightarrow> bool" where
  "trusted_accept A psk h a \<longleftrightarrow> ac_initiator_id a = hl_initiator_id h \<and> ac_responder_id a = hl_responder_id h \<and>
     ac_client_nonce a = hl_client_nonce h \<and>
     crypto_aead_encrypt A [] (transcript_wire h a) (replicate 16 0) psk = Some (ac_authenticator a)"

text \<open>The FINISH a responder trusts: for the session of its ACCEPT, with the tag of its own fields.\<close>

definition trusted_finish :: "ascon \<Rightarrow> byte list \<Rightarrow> Accept \<Rightarrow> Finish \<Rightarrow> bool" where
  "trusted_finish A psk a m \<longleftrightarrow> fi_initiator_id m = ac_initiator_id a \<and> fi_responder_id m = ac_responder_id a \<and>
     fi_session_id m = ac_session_id a \<and> fi_epoch m = ac_epoch a \<and>
     crypto_aead_encrypt A [] (finish_wire m) (replicate 16 0) psk = Some (fi_authenticator m)"

lemma auth_tag_SomeD: "auth_tag A psk x = Some t \<Longrightarrow> crypto_aead_encrypt A [] x (replicate 16 0) psk = Some t"
  by (auto simp: auth_tag_def make_auth_def split: option.splits if_splits)

definition initiator_inv :: "ascon \<Rightarrow> u16 \<Rightarrow> u16 \<Rightarrow> byte list \<Rightarrow> initiator_run \<Rightarrow> bool" where
  "initiator_inv A i r psk = (\<lambda>(cs, s). in_local_id s = i \<and> in_peer_id s = r \<and> in_psk s = psk \<and>
     (in_started s \<longrightarrow> valid_ids i r \<and> (\<exists>n. n \<noteq> 0 \<and> Call_start n \<in> set cs \<and>
        in_hello s = \<lparr>hl_initiator_id = i, hl_responder_id = r, hl_client_nonce = n, hl_capabilities = 0\<rparr>)) \<and>
     (in_established s \<longrightarrow> in_started s \<and>
        (\<exists>before a later k. cs = before @ Call_accept a # later \<and>
           Call_start (hl_client_nonce (in_hello s)) \<in> set before \<and> trusted_accept A psk (in_hello s) a \<and>
           derive_directional_keys A psk \<lparr>sid_value = ac_session_id a, sid_epoch = ac_epoch a\<rparr> i r =
             Some (in_keys s, k))))"

lemma start_failD: "InitiatorSession_start s n = (e, out, s') \<Longrightarrow> e \<noteq> SE_None \<Longrightarrow> s' = s"
  by (auto simp: InitiatorSession_start_def Let_def split: if_splits)

lemma accept_failD:
  "InitiatorSession_accept A s a = (e, out, s') \<Longrightarrow> e \<noteq> SE_None \<Longrightarrow>
     s' = s \<or> in_started s \<and> \<not> in_established s \<and> (\<exists>k. s' = s\<lparr>in_keys := k\<rparr>)"
  by (auto simp: InitiatorSession_accept_def Let_def split: if_splits option.splits prod.splits)

lemma initiator_inv_more: "initiator_inv A i r psk (cs, s) \<Longrightarrow> initiator_inv A i r psk (cs @ [c], s)"
  by (fastforce simp: initiator_inv_def)

lemma initiator_inv_step:
  assumes "initiator_step A c c'" and "initiator_inv A i r psk c"
  shows "initiator_inv A i r psk c'"
  using assms(1)
proof (cases rule: initiator_step.cases)
  case (start s n e out s' cs)
  show ?thesis
  proof (cases "e = SE_None")
    case True
    with start have "InitiatorSession_start s n = (SE_None, out, s')" by simp
    from start_okD [OF this] assms(2) start(1,2) show ?thesis
      by (simp add: initiator_inv_def)
  next
    case False
    then have "s' = s" using start_failD [OF start(3)] by blast
    then show ?thesis using initiator_inv_more assms(2) start(1,2) by simp
  qed
next
  case (accept s a e out s' cs)
  show ?thesis
  proof (cases "e = SE_None")
    case True
    with accept have "InitiatorSession_accept A s a = (SE_None, out, s')" by simp
    note ok = accept_okD [OF this]
    have ids: "in_local_id s = i" "in_peer_id s = r" "in_psk s = psk"
      and started: "in_started s \<longrightarrow> valid_ids i r \<and> (\<exists>n. n \<noteq> 0 \<and> Call_start n \<in> set cs \<and>
        in_hello s = \<lparr>hl_initiator_id = i, hl_responder_id = r, hl_client_nonce = n, hl_capabilities = 0\<rparr>)"
      using assms(2) unfolding accept(1) initiator_inv_def prod.case by blast+
    obtain n where n: "valid_ids i r" "n \<noteq> 0" "Call_start n \<in> set cs"
      "in_hello s = \<lparr>hl_initiator_id = i, hl_responder_id = r, hl_client_nonce = n, hl_capabilities = 0\<rparr>"
      using started ok by blast
    have "trusted_accept A psk (in_hello s) a"
      using ok ids n(4) by (simp add: trusted_accept_def auth_tag_SomeD)
    moreover obtain k1 k2 where
      "derive_directional_keys A psk \<lparr>sid_value = ac_session_id a, sid_epoch = ac_epoch a\<rparr> i r = Some (k1, k2)"
      "s' = s\<lparr>in_keys := k1, in_established := True\<rparr>"
      using ok ids by blast
    ultimately show ?thesis
      unfolding accept(2) initiator_inv_def prod.case using ids n ok by (intro conjI impI exI [of _ cs]) auto
  next
    case False
    from accept_failD [OF accept(3) False] assms(2) accept(1) have "initiator_inv A i r psk (cs, s')"
      by (auto simp: initiator_inv_def)
    then show ?thesis using initiator_inv_more accept(2) by simp
  qed
qed

lemma initiator_established_final:
  assumes "initiator_step A c c'" and "in_established (snd c)" and "in_started (snd c)"
  shows "snd c' = snd c"
  using assms
  by (cases rule: initiator_step.cases) (auto simp: InitiatorSession_start_def InitiatorSession_accept_def)

interpretation initiator: final_state_system "\<lambda>c. c = ([], new_InitiatorSession i r psk)" "initiator_step A"
  "initiator_inv A i r psk" "\<lambda>c. in_established (snd c)" snd
  for A i r psk
proof (unfold_locales, goal_cases)
  case (1 s)
  then show ?case by (simp add: initiator_inv_def new_InitiatorSession_def)
next
  case (2 s s')
  then show ?case using initiator_inv_step by blast
next
  case (3 s s')
  then have "in_started (snd s)" by (auto simp: initiator_inv_def)
  with 3 show ?case using initiator_established_final by metis
qed

text \<open>The ACCEPT a responder answers a HELLO with, under the nonce \<open>n\<close> it was given.\<close>

definition answers_hello :: "ascon \<Rightarrow> byte list \<Rightarrow> Hello \<Rightarrow> u64 \<Rightarrow> Accept \<Rightarrow> bool" where
  "answers_hello A psk h n a \<longleftrightarrow> ac_initiator_id a = hl_initiator_id h \<and> ac_responder_id a = hl_responder_id h \<and>
     ac_client_nonce a = hl_client_nonce h \<and> ac_server_nonce a = n \<and>
     ac_session_id a = hl_client_nonce h XOR n \<and> ac_epoch a = 1 \<and>
     crypto_aead_encrypt A [] (transcript_wire h a) (replicate 16 0) psk = Some (ac_authenticator a)"

definition responder_inv :: "ascon \<Rightarrow> u16 \<Rightarrow> u16 \<Rightarrow> byte list \<Rightarrow> responder_run \<Rightarrow> bool" where
  "responder_inv A r i psk = (\<lambda>(cs, s). re_local_id s = r \<and> re_peer_id s = i \<and> re_psk s = psk \<and>
     (re_accepted s \<longrightarrow> valid_ids r i \<and> hl_initiator_id (re_hello s) = i \<and> hl_responder_id (re_hello s) = r \<and>
        hl_client_nonce (re_hello s) \<noteq> 0 \<and> ac_server_nonce (re_accept s) \<noteq> 0 \<and>
        Call_hello (re_hello s) (ac_server_nonce (re_accept s)) \<in> set cs \<and>
        answers_hello A psk (re_hello s) (ac_server_nonce (re_accept s)) (re_accept s) \<and>
        (\<exists>k. derive_directional_keys A psk \<lparr>sid_value = ac_session_id (re_accept s), sid_epoch = 1\<rparr> i r =
           Some (k, re_keys s))) \<and>
     (re_established s \<longrightarrow> re_accepted s \<and>
        (\<exists>before m later. cs = before @ Call_finish m # later \<and>
           Call_hello (re_hello s) (ac_server_nonce (re_accept s)) \<in> set before \<and>
           trusted_finish A psk (re_accept s) m)))"

lemma hello_failD:
  "ResponderSession_receive_hello A s h n = (e, out, s') \<Longrightarrow> e \<noteq> SE_None \<Longrightarrow>
     s' = s \<or> \<not> re_accepted s \<and> (\<exists>h a. s' = s\<lparr>re_hello := h, re_accept := a\<rparr>)"
  by (auto simp: ResponderSession_receive_hello_def Let_def split: if_splits option.splits prod.splits)

lemma finish_failD: "ResponderSession_finish A s m = (e, s') \<Longrightarrow> e \<noteq> SE_None \<Longrightarrow> s' = s"
  by (auto simp: ResponderSession_finish_def split: if_splits)

lemma responder_inv_more: "responder_inv A r i psk (cs, s) \<Longrightarrow> responder_inv A r i psk (cs @ [c], s)"
  by (fastforce simp: responder_inv_def)

lemma responder_inv_step:
  assumes "responder_step A c c'" and "responder_inv A r i psk c"
  shows "responder_inv A r i psk c'"
  using assms(1)
proof (cases rule: responder_step.cases)
  case (hello s h n e out s' cs)
  show ?thesis
  proof (cases "e = SE_None")
    case True
    with hello have "ResponderSession_receive_hello A s h n = (SE_None, out, s')" by simp
    from hello_okD [OF this] assms(2) hello(1,2) show ?thesis
      by (auto simp: responder_inv_def answers_hello_def dest: auth_tag_SomeD)
  next
    case False
    from hello_failD [OF hello(3) False] assms(2) hello(1) have "responder_inv A r i psk (cs, s')"
      by (auto simp: responder_inv_def)
    then show ?thesis using responder_inv_more hello(2) by simp
  qed
next
  case (finish s m e s' cs)
  show ?thesis
  proof (cases "e = SE_None")
    case True
    with finish have ok: "ResponderSession_finish A s m = (SE_None, s')" by simp
    have inv: "responder_inv A r i psk (cs, s)" using assms(2) finish(1) by simp
    have "trusted_finish A psk (re_accept s) m"
      using finish_okD [OF ok] inv
      by (auto simp: responder_inv_def trusted_finish_def answers_hello_def dest: auth_tag_SomeD)
    then show ?thesis
      using finish_okD [OF ok] inv unfolding finish(2) by (auto simp: responder_inv_def intro!: exI [of _ cs])
  next
    case False
    then have "s' = s" using finish_failD [OF finish(3)] by blast
    then show ?thesis using responder_inv_more assms(2) finish(1,2) by simp
  qed
qed

lemma responder_established_final:
  assumes "responder_step A c c'" and "re_established (snd c)" and "re_accepted (snd c)"
  shows "snd c' = snd c"
  using assms
  by (cases rule: responder_step.cases) (auto simp: ResponderSession_receive_hello_def ResponderSession_finish_def)

interpretation responder: final_state_system "\<lambda>c. c = ([], new_ResponderSession r i psk)" "responder_step A"
  "responder_inv A r i psk" "\<lambda>c. re_established (snd c)" snd
  for A i r psk
proof (unfold_locales, goal_cases)
  case (1 s)
  then show ?case by (simp add: responder_inv_def new_ResponderSession_def)
next
  case (2 s s')
  then show ?case using responder_inv_step by blast
next
  case (3 s s')
  then have "re_accepted (snd s)" by (auto simp: responder_inv_def)
  with 3 show ?case using responder_established_final by metis
qed

section \<open>The handshake as a whole\<close>

lemma valid_ids_sym: "valid_ids a b \<longleftrightarrow> valid_ids b a"
  by (auto simp: valid_ids_def)

lemma auth_tag_not_None: "aead_correct A \<Longrightarrow> auth_tag A psk x \<noteq> None"
  using auth_tag_Some by fastforce

lemma hello_success:
  assumes "aead_correct A" "prf_ok A" "\<not> re_accepted s" "valid_ids (re_local_id s) (re_peer_id s)"
    "hl_initiator_id h = re_peer_id s" "hl_responder_id h = re_local_id s"
    "hl_client_nonce h \<noteq> 0" "n \<noteq> 0" "hl_client_nonce h \<noteq> n"
  shows "\<exists>a s'. ResponderSession_receive_hello A s h n = (SE_None, Some a, s')"
proof -
  have "hl_client_nonce h XOR n \<noteq> 0"
    using assms(9) by (metis xor_cancel xor_self_eq)
  then obtain k1 k2 where "derive_directional_keys A (re_psk s)
      \<lparr>sid_value = hl_client_nonce h XOR n, sid_epoch = 1\<rparr> (re_peer_id s) (re_local_id s) = Some (k1, k2)"
    using derive_directional_keys_Some [OF assms(2)] assms(4) by (fastforce simp: valid_ids_def)
  then show ?thesis
    using assms auth_tag_not_None [OF assms(1)]
    by (simp add: ResponderSession_receive_hello_def Let_def auth_simps split: option.split)
qed

lemma accept_success:
  assumes "aead_correct A" "prf_ok A" "in_started s" "\<not> in_established s"
    "valid_ids (in_local_id s) (in_peer_id s)" "ac_initiator_id a = in_local_id s"
    "ac_responder_id a = in_peer_id s" "ac_client_nonce a = hl_client_nonce (in_hello s)"
    "auth_tag A (in_psk s) (transcript_wire (in_hello s) a) = Some (ac_authenticator a)"
    "ac_session_id a \<noteq> 0" "ac_epoch a \<noteq> 0"
  shows "\<exists>f s'. InitiatorSession_accept A s a = (SE_None, Some f, s')"
proof -
  obtain k1 k2 where "derive_directional_keys A (in_psk s)
      \<lparr>sid_value = ac_session_id a, sid_epoch = ac_epoch a\<rparr> (in_local_id s) (in_peer_id s) = Some (k1, k2)"
    using derive_directional_keys_Some [OF assms(2)] assms by (fastforce simp: valid_ids_def)
  then show ?thesis
    using assms auth_tag_not_None [OF assms(1)]
    by (simp add: InitiatorSession_accept_def Let_def auth_simps split: option.split)
qed

lemma finish_success:
  assumes "re_accepted s" "\<not> re_established s" "fi_initiator_id m = re_peer_id s"
    "fi_responder_id m = re_local_id s" "fi_session_id m = ac_session_id (re_accept s)"
    "fi_epoch m = ac_epoch (re_accept s)"
    "auth_tag A (re_psk s) (finish_wire m) = Some (fi_authenticator m)"
  shows "ResponderSession_finish A s m = (SE_None, s\<lparr>re_established := True\<rparr>)"
  using assms by (simp add: ResponderSession_finish_def auth_simps)

lemma handshake_runs:
  assumes "aead_correct A" "prf_ok A" "valid_ids i r" "cn \<noteq> 0" "sn \<noteq> 0" "cn \<noteq> sn"
  shows "\<exists>h I1 a R1 f I2 R2.
    InitiatorSession_start (new_InitiatorSession i r psk) cn = (SE_None, Some h, I1) \<and>
    ResponderSession_receive_hello A (new_ResponderSession r i psk) h sn = (SE_None, Some a, R1) \<and>
    InitiatorSession_accept A I1 a = (SE_None, Some f, I2) \<and>
    ResponderSession_finish A R1 f = (SE_None, R2) \<and>
    in_established I2 \<and> re_established R2 \<and> mirrored (in_keys I2) (re_keys R2) \<and>
    dk_session (in_keys I2) = \<lparr>sid_value = cn XOR sn, sid_epoch = 1\<rparr> \<and>
    dk_local_id (in_keys I2) = i \<and> dk_peer_id (in_keys I2) = r"
proof -
  let ?I = "new_InitiatorSession i r psk" and ?R = "new_ResponderSession r i psk"
  define h where "h = \<lparr>hl_initiator_id = i, hl_responder_id = r, hl_client_nonce = cn,
    hl_capabilities = 0\<rparr>"
  define I1 where "I1 = ?I\<lparr>in_hello := h, in_started := True\<rparr>"
  have start: "InitiatorSession_start ?I cn = (SE_None, Some h, I1)"
    using assms by (simp add: InitiatorSession_start_def new_InitiatorSession_def h_def I1_def Let_def)
  have I1: "in_started I1" "\<not> in_established I1" "in_local_id I1 = i" "in_peer_id I1 = r"
    "in_psk I1 = psk" "in_hello I1 = h"
    by (simp_all add: I1_def new_InitiatorSession_def)
  have R: "\<not> re_accepted ?R" "\<not> re_established ?R" "re_local_id ?R = r" "re_peer_id ?R = i" "re_psk ?R = psk"
    by (simp_all add: new_ResponderSession_def)
  have ids: "valid_ids r i" using assms(3) valid_ids_sym by simp
  obtain a R1 where hello: "ResponderSession_receive_hello A ?R h sn = (SE_None, Some a, R1)"
    using hello_success [of A ?R h sn] assms ids R by (auto simp: h_def)
  from hello_okD [OF hello] R obtain k1 k2 t where
    a: "a = \<lparr>ac_initiator_id = i, ac_responder_id = r, ac_client_nonce = cn, ac_server_nonce = sn,
        ac_session_id = cn XOR sn, ac_epoch = 1, ac_authenticator = t\<rparr>"
    and tag: "auth_tag A psk (transcript_wire h a) = Some t"
    and keys: "derive_directional_keys A psk \<lparr>sid_value = cn XOR sn, sid_epoch = 1\<rparr> i r = Some (k1, k2)"
    and R1: "R1 = ?R\<lparr>re_hello := h, re_accept := a, re_keys := k2, re_accepted := True\<rparr>"
    by (auto simp: h_def)
  have "cn XOR sn \<noteq> 0" using derive_directional_keys_SomeD(9) [OF keys] by simp
  then obtain f I2 where acc: "InitiatorSession_accept A I1 a = (SE_None, Some f, I2)"
    using accept_success [of A I1 a] assms I1 a tag by (auto simp: h_def)
  from accept_okD [OF acc] I1 a keys have
    f: "fi_initiator_id f = i" "fi_responder_id f = r" "fi_session_id f = cn XOR sn" "fi_epoch f = 1"
      "auth_tag A psk (finish_wire f) = Some (fi_authenticator f)"
    and I2: "I2 = I1\<lparr>in_keys := k1, in_established := True\<rparr>"
    by auto
  have "ResponderSession_finish A R1 f = (SE_None, R1\<lparr>re_established := True\<rparr>)"
    using f a R by (intro finish_success) (simp_all add: R1)
  moreover have "mirrored k1 k2"
    using derive_directional_keys_SomeD [OF keys] by (simp add: mirrored_def)
  ultimately show ?thesis
    using start hello acc derive_directional_keys_SomeD [OF keys]
    by (intro exI [of _ h] exI [of _ I1] exI [of _ a] exI [of _ R1] exI [of _ f] exI [of _ I2]
        exI [of _ "R1\<lparr>re_established := True\<rparr>"]) (simp add: I2 R1)
qed


section \<open>Properties\<close>

text \<open>
  C10: The handshake completes. With two distinct non-zero identifiers, a shared key and two distinct
  non-zero nonces, the four calls (start, receive_hello, accept, finish) all succeed on fresh
  endpoints, both ends are established, and they hold mirrored directional keys for the session
  number \<open>client_nonce XOR server_nonce\<close> in epoch 1. With equal nonces the session number would be 0
  and the responder refuses the HELLO, staying unaccepted.
\<close>

theorem handshake_establishes:
  assumes "aead_correct A" "prf_ok A" "valid_ids i r" "cn \<noteq> 0" "sn \<noteq> 0"
  shows "(cn \<noteq> sn \<longrightarrow> (\<exists>h I1 a R1 f I2 R2.
      InitiatorSession_start (new_InitiatorSession i r psk) cn = (SE_None, Some h, I1) \<and>
      ResponderSession_receive_hello A (new_ResponderSession r i psk) h sn = (SE_None, Some a, R1) \<and>
      InitiatorSession_accept A I1 a = (SE_None, Some f, I2) \<and>
      ResponderSession_finish A R1 f = (SE_None, R2) \<and>
      in_established I2 \<and> re_established R2 \<and> mirrored (in_keys I2) (re_keys R2) \<and>
      dk_session (in_keys I2) = \<lparr>sid_value = cn XOR sn, sid_epoch = 1\<rparr> \<and>
      dk_local_id (in_keys I2) = i \<and> dk_peer_id (in_keys I2) = r)) \<and>
    (cn = sn \<longrightarrow> (\<exists>a R1. ResponderSession_receive_hello A (new_ResponderSession r i psk)
        \<lparr>hl_initiator_id = i, hl_responder_id = r, hl_client_nonce = cn, hl_capabilities = 0\<rparr> sn =
          (SE_InvalidInput, Some a, R1) \<and> \<not> re_accepted R1))"
proof (intro conjI impI)
  assume "cn \<noteq> sn"
  then show "\<exists>h I1 a R1 f I2 R2.
      InitiatorSession_start (new_InitiatorSession i r psk) cn = (SE_None, Some h, I1) \<and>
      ResponderSession_receive_hello A (new_ResponderSession r i psk) h sn = (SE_None, Some a, R1) \<and>
      InitiatorSession_accept A I1 a = (SE_None, Some f, I2) \<and>
      ResponderSession_finish A R1 f = (SE_None, R2) \<and>
      in_established I2 \<and> re_established R2 \<and> mirrored (in_keys I2) (re_keys R2) \<and>
      dk_session (in_keys I2) = \<lparr>sid_value = cn XOR sn, sid_epoch = 1\<rparr> \<and>
      dk_local_id (in_keys I2) = i \<and> dk_peer_id (in_keys I2) = r"
    using assms by (intro handshake_runs)
next
  assume "cn = sn"
  then show "\<exists>a R1. ResponderSession_receive_hello A (new_ResponderSession r i psk)
        \<lparr>hl_initiator_id = i, hl_responder_id = r, hl_client_nonce = cn, hl_capabilities = 0\<rparr> sn =
          (SE_InvalidInput, Some a, R1) \<and> \<not> re_accepted R1"
    using assms auth_tag_not_None [OF assms(1)] valid_ids_sym
    by (simp add: ResponderSession_receive_hello_def new_ResponderSession_def Let_def
        auth_simps derive_directional_keys_def split: option.split)
qed

theorem handshake_establishes_witness:
  "\<exists>h I1 a R1 f I2 R2.
      InitiatorSession_start (new_InitiatorSession 10 20 [1, 2, 3]) 0x1122 = (SE_None, Some h, I1) \<and>
      ResponderSession_receive_hello xor_ascon (new_ResponderSession 20 10 [1, 2, 3]) h 0x8877 =
        (SE_None, Some a, R1) \<and>
      InitiatorSession_accept xor_ascon I1 a = (SE_None, Some f, I2) \<and>
      ResponderSession_finish xor_ascon R1 f = (SE_None, R2) \<and>
      in_established I2 \<and> re_established R2 \<and> mirrored (in_keys I2) (re_keys R2) \<and>
      dk_session (in_keys I2) = \<lparr>sid_value = 0x9955, sid_epoch = 1\<rparr> \<and>
      dk_local_id (in_keys I2) = 10 \<and> dk_peer_id (in_keys I2) = 20"
  using handshake_establishes [OF xor_ascon_correct xor_ascon_prf_ok, of 10 20 "0x1122" "0x8877" "[1, 2, 3]"]
  by (simp add: valid_ids_def)

text \<open>
  C11: Agreement on the transcript. Suppose the initiator accepts a message carrying the authenticator
  that a responder with the same key computed for a HELLO it received. Then either the initiator's
  HELLO is the one the responder answered, the ACCEPT is the responder's unchanged, and both ends
  hold mirrored keys, or the two byte strings the authenticators cover are an explicit collision of
  the MAC. The bytes a FINISH authenticator covers are never those of an ACCEPT.
\<close>

theorem accept_agrees_with_responder:
  assumes "InitiatorSession_accept A s a' = (SE_None, Some f, s')"
    and "ResponderSession_receive_hello A t h sn = (SE_None, Some a, t')"
    and "in_psk s = re_psk t" and "ac_authenticator a' = ac_authenticator a"
  shows "(in_hello s = h \<and> a' = a \<and> mirrored (in_keys s') (re_keys t') \<or>
      transcript (in_hello s) a' \<noteq> transcript h a \<and>
      make_auth A (in_psk s) (transcript (in_hello s) a') 52 = make_auth A (in_psk s) (transcript h a) 52) \<and>
    transcript h a \<noteq> take 20 (finish_input f 48)"
proof (intro conjI)
  obtain k1 k2 where I: "auth_tag A (in_psk s) (transcript_wire (in_hello s) a') = Some (ac_authenticator a')"
    "ac_initiator_id a' = in_local_id s" "ac_responder_id a' = in_peer_id s"
    and kI: "derive_directional_keys A (in_psk s)
        \<lparr>sid_value = ac_session_id a', sid_epoch = ac_epoch a'\<rparr> (in_local_id s) (in_peer_id s) = Some (k1, k2)"
    and s': "in_keys s' = k1"
    using accept_okD [OF assms(1)] by auto
  obtain l1 l2 where R: "auth_tag A (re_psk t) (transcript_wire h a) = Some (ac_authenticator a)"
    "ac_initiator_id a = re_peer_id t" "ac_responder_id a = re_local_id t"
    and kR: "derive_directional_keys A (re_psk t)
        \<lparr>sid_value = ac_session_id a, sid_epoch = ac_epoch a\<rparr> (re_peer_id t) (re_local_id t) = Some (l1, l2)"
    and t': "re_keys t' = l2"
    using hello_okD [OF assms(2)] by auto
  show "in_hello s = h \<and> a' = a \<and> mirrored (in_keys s') (re_keys t') \<or>
      transcript (in_hello s) a' \<noteq> transcript h a \<and>
      make_auth A (in_psk s) (transcript (in_hello s) a') 52 = make_auth A (in_psk s) (transcript h a) 52"
  proof (cases "transcript (in_hello s) a' = transcript h a")
    case True
    then have same: "in_hello s = h \<and> a' = a"
      using assms(4) by (cases a; cases a') (auto simp: transcript_eq transcript_wire_inj)
    then have "k1 = l1" and "k2 = l2" using kI kR I R assms(3) by auto
    then have "mirrored (in_keys s') (re_keys t')"
      using derive_directional_keys_SomeD [OF kR] s' t' by (simp add: mirrored_def)
    with same show ?thesis by blast
  next
    case False
    then show ?thesis using I R assms(3,4) by (simp add: make_auth_transcript)
  qed
  show "transcript h a \<noteq> take 20 (finish_input f 48)"
    by (simp add: transcript_eq finish_input_eq transcript_not_finish)
qed


theorem accept_agrees_with_responder_witness:
  "\<exists>h I1 a R1 f I2. ResponderSession_receive_hello xor_ascon (new_ResponderSession 20 10 [1, 2, 3]) h 9 =
      (SE_None, Some a, R1) \<and> InitiatorSession_accept xor_ascon I1 a = (SE_None, Some f, I2) \<and>
    transcript h a \<noteq> take 20 (finish_input f 48)"
proof -
  obtain h I1 a R1 f I2 where
    start: "InitiatorSession_start (new_InitiatorSession 10 20 [1, 2, 3]) 5 = (SE_None, Some h, I1)"
    and R: "ResponderSession_receive_hello xor_ascon (new_ResponderSession 20 10 [1, 2, 3]) h 9 =
      (SE_None, Some a, R1)"
    and I: "InitiatorSession_accept xor_ascon I1 a = (SE_None, Some f, I2)"
    using handshake_runs [OF xor_ascon_correct xor_ascon_prf_ok, of 10 20 5 9 "[1, 2, 3]"]
    by (auto simp: valid_ids_def)
  have "in_psk I1 = re_psk (new_ResponderSession 20 10 [1, 2, 3])"
    using start_okD(5) [OF start] by (simp add: new_InitiatorSession_def new_ResponderSession_def)
  from accept_agrees_with_responder [OF I R this refl] R I show ?thesis by blast
qed

text \<open>
  C12: An initiator becomes established only through an authenticated ACCEPT. Whatever calls are made
  on a fresh endpoint, with whatever messages, if it is established then one of the calls gave it an
  ACCEPT for its own identifiers and nonce whose authenticator is the tag, under the shared key, of the
  52 bytes of its HELLO and of that ACCEPT; an earlier call had started it with this nonce, which is not
  zero; its keys are the ones derived for the session of that ACCEPT; and no further call changes the
  object.
\<close>

theorem initiator_established_authenticated:
  assumes "(initiator_step A)\<^sup>*\<^sup>* ([], new_InitiatorSession i r psk) (calls, s)" and "in_established s"
  shows "\<exists>before a later n h k. calls = before @ Call_accept a # later \<and> Call_start n \<in> set before \<and>
      n \<noteq> 0 \<and> valid_ids i r \<and>
      h = \<lparr>hl_initiator_id = i, hl_responder_id = r, hl_client_nonce = n, hl_capabilities = 0\<rparr> \<and> in_hello s = h \<and>
      ac_initiator_id a = i \<and> ac_responder_id a = r \<and> ac_client_nonce a = n \<and>
      crypto_aead_encrypt A [] (transcript_wire h a) (replicate 16 0) psk = Some (ac_authenticator a) \<and>
      derive_directional_keys A psk \<lparr>sid_value = ac_session_id a, sid_epoch = ac_epoch a\<rparr> i r = Some (in_keys s, k) \<and>
      (\<forall>calls' s'. (initiator_step A)\<^sup>*\<^sup>* (calls, s) (calls', s') \<longrightarrow> s' = s)"
proof -
  have inv: "initiator_inv A i r psk (calls, s)"
    using initiator.inv_reachable assms(1) by blast
  have final: "\<forall>calls' s'. (initiator_step A)\<^sup>*\<^sup>* (calls, s) (calls', s') \<longrightarrow> s' = s"
    using initiator.final_run [OF _ inv] assms(2) by fastforce
  from inv assms(2) show ?thesis
    unfolding initiator_inv_def trusted_accept_def using final by fastforce
qed

lemma handshake_reachable:
  assumes "aead_correct A" "prf_ok A" "valid_ids i r" "(cn :: u64) \<noteq> 0" "sn \<noteq> 0" "cn \<noteq> sn"
  shows "\<exists>h a f s t. (initiator_step A)\<^sup>*\<^sup>* ([], new_InitiatorSession i r psk) ([Call_start cn, Call_accept a], s) \<and>
    in_established s \<and>
    (responder_step A)\<^sup>*\<^sup>* ([], new_ResponderSession r i psk) ([Call_hello h sn, Call_finish f], t) \<and> re_established t"
proof -
  let ?I = "new_InitiatorSession i r psk" and ?R = "new_ResponderSession r i psk"
  obtain h I1 a R1 f I2 R2 where calls: "InitiatorSession_start ?I cn = (SE_None, Some h, I1)"
    "ResponderSession_receive_hello A ?R h sn = (SE_None, Some a, R1)"
    "InitiatorSession_accept A I1 a = (SE_None, Some f, I2)" "ResponderSession_finish A R1 f = (SE_None, R2)"
    and est: "in_established I2" "re_established R2"
    using handshake_runs [OF assms] by blast
  have "initiator_step A ([], ?I) ([Call_start cn], I1)"
    "initiator_step A ([Call_start cn], I1) ([Call_start cn, Call_accept a], I2)"
    "responder_step A ([], ?R) ([Call_hello h sn], R1)"
    "responder_step A ([Call_hello h sn], R1) ([Call_hello h sn, Call_finish f], R2)"
    using initiator_step.start [OF calls(1), of A "[]"] initiator_step.accept [OF calls(3), of "[Call_start cn]"]
      responder_step.hello [OF calls(2), of "[]"] responder_step.finish [OF calls(4), of "[Call_hello h sn]"]
    by simp_all
  then have "(initiator_step A)\<^sup>*\<^sup>* ([], ?I) ([Call_start cn, Call_accept a], I2)"
    "(responder_step A)\<^sup>*\<^sup>* ([], ?R) ([Call_hello h sn, Call_finish f], R2)"
    by (meson converse_rtranclp_into_rtranclp r_into_rtranclp)+
  then show ?thesis using est by blast
qed

lemma example_established:
  "\<exists>h a f s t. (initiator_step xor_ascon)\<^sup>*\<^sup>* ([], new_InitiatorSession 10 20 [1, 2, 3]) ([Call_start 5, Call_accept a], s) \<and>
    in_established s \<and>
    (responder_step xor_ascon)\<^sup>*\<^sup>* ([], new_ResponderSession 20 10 [1, 2, 3]) ([Call_hello h 9, Call_finish f], t) \<and>
    re_established t"
  by (rule handshake_reachable [OF xor_ascon_correct xor_ascon_prf_ok, of 10 20 5 9])
     (simp_all add: valid_ids_def)

theorem initiator_established_authenticated_witness:
  "\<exists>a s. (initiator_step xor_ascon)\<^sup>*\<^sup>* ([], new_InitiatorSession 10 20 [1, 2, 3]) ([Call_start 5, Call_accept a], s) \<and>
     in_established s \<and> ac_client_nonce a = 5 \<and>
     crypto_aead_encrypt xor_ascon [] (transcript_wire (in_hello s) a) (replicate 16 0) [1, 2, 3] = Some (ac_authenticator a)"
proof -
  obtain a s where run: "(initiator_step xor_ascon)\<^sup>*\<^sup>* ([], new_InitiatorSession 10 20 [1, 2, 3]) ([Call_start 5, Call_accept a], s)"
    and est: "in_established s"
    using example_established by blast
  have one: "before = [Call_start 5] \<and> b = a" if "[Call_start 5, Call_accept a] = before @ Call_accept b # later" for before b later
    using that by (cases before; cases "tl before") auto
  from initiator_established_authenticated [OF run est] one run est show ?thesis by fastforce
qed

text \<open>
  C13: A responder becomes established only through an authenticated FINISH. Whatever calls are made
  on a fresh endpoint, with whatever messages, if it is established then one of the calls gave it a
  FINISH for its session whose authenticator is the tag, under the shared key, of the 20 bytes of that
  FINISH; an earlier call had given it a HELLO from its peer, which it had answered with an ACCEPT for
  the exclusive-or of the two nonces, authenticated by the tag of the transcript; it holds the keys
  derived for that session; and no further call changes the object.
\<close>

theorem responder_established_authenticated:
  assumes "(responder_step A)\<^sup>*\<^sup>* ([], new_ResponderSession r i psk) (calls, s)" and "re_established s"
  shows "\<exists>before m later h n a k. calls = before @ Call_finish m # later \<and> Call_hello h n \<in> set before \<and>
      valid_ids r i \<and> hl_initiator_id h = i \<and> hl_responder_id h = r \<and> hl_client_nonce h \<noteq> 0 \<and> n \<noteq> 0 \<and>
      re_hello s = h \<and> re_accept s = a \<and> ac_client_nonce a = hl_client_nonce h \<and> ac_server_nonce a = n \<and>
      ac_session_id a = hl_client_nonce h XOR n \<and> ac_epoch a = 1 \<and>
      crypto_aead_encrypt A [] (transcript_wire h a) (replicate 16 0) psk = Some (ac_authenticator a) \<and>
      fi_initiator_id m = i \<and> fi_responder_id m = r \<and> fi_session_id m = ac_session_id a \<and> fi_epoch m = 1 \<and>
      crypto_aead_encrypt A [] (finish_wire m) (replicate 16 0) psk = Some (fi_authenticator m) \<and>
      derive_directional_keys A psk \<lparr>sid_value = ac_session_id a, sid_epoch = 1\<rparr> i r = Some (k, re_keys s) \<and>
      (\<forall>calls' s'. (responder_step A)\<^sup>*\<^sup>* (calls, s) (calls', s') \<longrightarrow> s' = s)"
proof -
  have inv: "responder_inv A r i psk (calls, s)"
    using responder.inv_reachable assms(1) by blast
  have final: "\<forall>calls' s'. (responder_step A)\<^sup>*\<^sup>* (calls, s) (calls', s') \<longrightarrow> s' = s"
    using responder.final_run [OF _ inv] assms(2) by fastforce
  from inv assms(2) obtain before m later k where
    "calls = before @ Call_finish m # later" "Call_hello (re_hello s) (ac_server_nonce (re_accept s)) \<in> set before"
    "trusted_finish A psk (re_accept s) m" "answers_hello A psk (re_hello s) (ac_server_nonce (re_accept s)) (re_accept s)"
    "valid_ids r i" "hl_initiator_id (re_hello s) = i" "hl_responder_id (re_hello s) = r"
    "hl_client_nonce (re_hello s) \<noteq> 0" "ac_server_nonce (re_accept s) \<noteq> 0"
    "derive_directional_keys A psk \<lparr>sid_value = ac_session_id (re_accept s), sid_epoch = 1\<rparr> i r = Some (k, re_keys s)"
    by (auto simp: responder_inv_def)
  with final show ?thesis
    by (intro exI [of _ before] exI [of _ m] exI [of _ later] exI [of _ "re_hello s"]
        exI [of _ "ac_server_nonce (re_accept s)"] exI [of _ "re_accept s"] exI [of _ k])
      (simp add: trusted_finish_def answers_hello_def)
qed

theorem responder_established_authenticated_witness:
  "\<exists>h m s. (responder_step xor_ascon)\<^sup>*\<^sup>* ([], new_ResponderSession 20 10 [1, 2, 3]) ([Call_hello h 9, Call_finish m], s) \<and>
     re_established s \<and> fi_session_id m = hl_client_nonce h XOR 9 \<and>
     crypto_aead_encrypt xor_ascon [] (finish_wire m) (replicate 16 0) [1, 2, 3] = Some (fi_authenticator m)"
proof -
  obtain h m s where run: "(responder_step xor_ascon)\<^sup>*\<^sup>* ([], new_ResponderSession 20 10 [1, 2, 3]) ([Call_hello h 9, Call_finish m], s)"
    and est: "re_established s"
    using example_established by blast
  have one: "before = [Call_hello h 9] \<and> b = m" if "[Call_hello h 9, Call_finish m] = before @ Call_finish b # later" for before b later
    using that by (cases before; cases "tl before") auto
  from responder_established_authenticated [OF run est] one run est show ?thesis by fastforce
qed

text \<open>
  What the session key and the FINISH message are bound to. A responder derives the same key pair
  from any two handshakes whose nonces have the same exclusive-or, whatever the nonces are, and it
  accepts the FINISH of the one as the FINISH of the other: neither covers the transcript.
\<close>

theorem keys_bind_only_nonce_xor:
  assumes "ResponderSession_receive_hello A (new_ResponderSession r i psk) h sn = (SE_None, Some a, t)"
    and "ResponderSession_receive_hello A (new_ResponderSession r i psk) h' sn' = (SE_None, Some a', t')"
    and "hl_client_nonce h XOR sn = hl_client_nonce h' XOR sn'"
  shows "re_keys t = re_keys t' \<and>
    fst (ResponderSession_finish A t m) = fst (ResponderSession_finish A t' m)"
proof -
  let ?R = "new_ResponderSession r i psk" and ?sid = "\<lparr>sid_value = hl_client_nonce h XOR sn, sid_epoch = 1\<rparr>"
  obtain k l where t: "derive_directional_keys A psk ?sid i r = Some (k, l)"
    "t = ?R\<lparr>re_hello := h, re_accept := a, re_keys := l, re_accepted := True\<rparr>"
    "ac_session_id a = hl_client_nonce h XOR sn" "ac_epoch a = 1"
    using hello_okD [OF assms(1)] by (auto simp: new_ResponderSession_def)
  obtain k' l' where t': "derive_directional_keys A psk ?sid i r = Some (k', l')"
    "t' = ?R\<lparr>re_hello := h', re_accept := a', re_keys := l', re_accepted := True\<rparr>"
    "ac_session_id a' = hl_client_nonce h XOR sn" "ac_epoch a' = 1"
    using hello_okD [OF assms(2)] assms(3) by (auto simp: new_ResponderSession_def)
  show ?thesis
    using t t' by (simp add: ResponderSession_finish_def)
qed

theorem keys_bind_only_nonce_xor_witness:
  "\<exists>a t a' t'. ResponderSession_receive_hello xor_ascon (new_ResponderSession 20 10 [1, 2, 3])
      \<lparr>hl_initiator_id = 10, hl_responder_id = 20, hl_client_nonce = 1, hl_capabilities = 0\<rparr> 2 =
        (SE_None, Some a, t) \<and>
    ResponderSession_receive_hello xor_ascon (new_ResponderSession 20 10 [1, 2, 3])
      \<lparr>hl_initiator_id = 10, hl_responder_id = 20, hl_client_nonce = 5, hl_capabilities = 0\<rparr> 6 =
        (SE_None, Some a', t') \<and> re_keys t = re_keys t'"
proof -
  let ?R = "new_ResponderSession 20 10 [1, 2, 3]"
  let ?h = "\<lambda>n. \<lparr>hl_initiator_id = 10, hl_responder_id = 20, hl_client_nonce = n, hl_capabilities = 0\<rparr>"
  obtain a t where 1: "ResponderSession_receive_hello xor_ascon ?R (?h 1) 2 = (SE_None, Some a, t)"
    using hello_success [OF xor_ascon_correct xor_ascon_prf_ok, of ?R "?h 1" 2]
    by (auto simp: new_ResponderSession_def valid_ids_def)
  obtain a' t' where 2: "ResponderSession_receive_hello xor_ascon ?R (?h 5) 6 = (SE_None, Some a', t')"
    using hello_success [OF xor_ascon_correct xor_ascon_prf_ok, of ?R "?h 5" 6]
    by (auto simp: new_ResponderSession_def valid_ids_def)
  from keys_bind_only_nonce_xor [OF 1 2] 1 2 show ?thesis by simp
qed

text \<open>
  The ACCEPT and FINISH messages survive the wire: a message with valid fields and a 16-byte
  authenticator encodes, and decodes to itself; one with a zero identifier, nonce, session or epoch
  is refused by the encoder.
\<close>

theorem accept_finish_round_trip:
  assumes "length (ac_authenticator a) = 16" and "length (fi_authenticator f) = 16"
  shows "(if valid_ids (ac_initiator_id a) (ac_responder_id a) \<and> ac_client_nonce a \<noteq> 0 \<and>
        ac_server_nonce a \<noteq> 0 \<and> ac_session_id a \<noteq> 0 \<and> ac_epoch a \<noteq> 0
      then fst (encode_accept a) \<and> length (snd (encode_accept a)) = kAcceptBytes \<and>
        decode_accept (Some (snd (encode_accept a))) kAcceptBytes = Some a
      else encode_accept a = (False, replicate kAcceptBytes 0)) \<and>
    (if valid_ids (fi_initiator_id f) (fi_responder_id f) \<and> fi_session_id f \<noteq> 0 \<and> fi_epoch f \<noteq> 0
      then fst (encode_finish f) \<and> length (snd (encode_finish f)) = kFinishBytes \<and>
        decode_finish (Some (snd (encode_finish f))) kFinishBytes = Some f
      else encode_finish f = (False, replicate kFinishBytes 0))"
  using assms encode_accept_wire [of a] encode_finish_wire [of f] decode_accept_wire [of a]
    decode_finish_wire [of f] length_accept_body [of a] length_finish_body [of f]
  by (simp add: accept_ok_def finish_ok_def handshake_consts)


theorem accept_finish_round_trip_witness:
  "decode_accept (Some (snd (encode_accept \<lparr>ac_initiator_id = 10, ac_responder_id = 20, ac_client_nonce = 1,
      ac_server_nonce = 2, ac_session_id = 3, ac_epoch = 1, ac_authenticator = replicate 16 7\<rparr>)))
      kAcceptBytes = Some \<lparr>ac_initiator_id = 10, ac_responder_id = 20, ac_client_nonce = 1,
      ac_server_nonce = 2, ac_session_id = 3, ac_epoch = 1, ac_authenticator = replicate 16 7\<rparr>"
  using accept_finish_round_trip [of "\<lparr>ac_initiator_id = 10, ac_responder_id = 20, ac_client_nonce = 1,
      ac_server_nonce = 2, ac_session_id = 3, ac_epoch = 1, ac_authenticator = replicate 16 7\<rparr>"
      "\<lparr>fi_initiator_id = 10, fi_responder_id = 20, fi_session_id = 3, fi_epoch = 1,
        fi_authenticator = replicate 16 7\<rparr>"]
  by (simp add: valid_ids_def)

text \<open>
  C34: The HELLO codec does not round-trip. \<^verbatim>\<open>encode_hello\<close> computes the checksum of the sixteen
  field bytes but never stores it, and returns \<^verbatim>\<open>true\<close> only when the checksum is not zero;
  \<^verbatim>\<open>decode_hello\<close> compares the checksum with the two zero bytes found there. So whatever HELLO is
  encoded successfully, the decoder rejects the result, and the only valid HELLO messages it accepts
  from the encoder are those for which the encoder reported failure.
\<close>

theorem encoded_hello_never_decodes:
  "(fst (encode_hello v) \<longrightarrow> decode_hello (Some (snd (encode_hello v))) kHelloBytes = None) \<and>
   (decode_hello (Some (snd (encode_hello v))) kHelloBytes = Some w \<longrightarrow> \<not> fst (encode_hello v))"
proof -
  have "get16 (snd (encode_hello v)) 16 = 0"
    by (simp add: encode_hello_def Let_def handshake_consts codec_simps get16_def)
  then show ?thesis
    by (auto simp: decode_hello_def encode_hello_def Let_def split: if_splits)
qed

lemma some_hello_encodes: "\<exists>v. fst (encode_hello v)"
proof -
  define hello where "hello c = \<lparr>hl_initiator_id = 10, hl_responder_id = 20, hl_client_nonce = 5,
    hl_capabilities = c\<rparr>" for c :: u32
  let ?pre = "put16 10 @ put16 20 @ put64 5"
  have out: "snd (encode_hello (hello c)) = (?pre @ put32 c) @ replicate 8 0"
    and enc: "fst (encode_hello (hello c)) \<longleftrightarrow> crc16_ccitt (Some (snd (encode_hello (hello c)))) 16 \<noteq> 0" for c
    by (simp_all add: encode_hello_def hello_def valid_ids_def Let_def handshake_consts codec_simps)
  have bytes: "put32 0 = [0, 0] @ [0, 0]" "put32 1 = [1, 0] @ [0, 0]"
    by (simp_all add: put32_def word_bytes_def upt_rec)
  have "crc16_ccitt (Some (?pre @ [0, 0] @ [0, 0])) 16 \<noteq> crc16_ccitt (Some (?pre @ [1, 0] @ [0, 0])) 16"
    by (rule crc_burst) simp_all
  then have "crc16_ccitt (Some ((?pre @ put32 0) @ replicate 8 0)) 16 \<noteq>
      crc16_ccitt (Some ((?pre @ put32 1) @ replicate 8 0)) 16"
    by (simp add: crc16_ccitt_Some bytes)
  then have "fst (encode_hello (hello 0)) \<or> fst (encode_hello (hello 1))"
    unfolding enc out by auto
  then show ?thesis by blast
qed

theorem encoded_hello_never_decodes_witness:
  "\<exists>v. fst (encode_hello v) \<and> decode_hello (Some (snd (encode_hello v))) kHelloBytes = None"
proof -
  obtain v where "fst (encode_hello v)" using some_hello_encodes by blast
  with encoded_hello_never_decodes [of v] show ?thesis by blast
qed

end
