(* ===== verification/Qos_Queue.thy ===== *)
theory Qos_Queue
  imports Messages "HOL-Library.Multiset"
begin

text \<open>
  The bounded QoS queue of \<^verbatim>\<open>include/new_mavlink/qos.hpp\<close> and \<^verbatim>\<open>src/qos.cpp\<close>: three lanes
  (reliable messages, events, and a map from a stream key to the latest state message of the
  stream) that share one capacity. The hash map is an association list: its order stands for the
  unspecified iteration order, and \<open>pop\<close> scans it the way the loop does. The locale \<open>message_queue\<close>
  is what the proxy relies on.
\<close>

section \<open>Structures\<close>

record QueueMetrics =
  qm_enqueued :: u64
  qm_delivered :: u64
  qm_dropped_latest :: u64
  qm_rejected_critical :: u64
  qm_expired :: u64

definition zero_metrics :: QueueMetrics where
  "zero_metrics = \<lparr>qm_enqueued = 0, qm_delivered = 0, qm_dropped_latest = 0, qm_rejected_critical = 0,
     qm_expired = 0\<rparr>"

record BoundedQosQueue =
  q_capacity :: nat
  q_critical :: "NativeMessage list"
  q_events :: "NativeMessage list"
  q_state :: "(u64 \<times> NativeMessage) list"
  q_metrics :: QueueMetrics

definition new_BoundedQosQueue :: "nat \<Rightarrow> BoundedQosQueue" where
  "new_BoundedQosQueue capacity =
     \<lparr>q_capacity = capacity, q_critical = [], q_events = [], q_state = [], q_metrics = zero_metrics\<rparr>"

definition BoundedQosQueue_size :: "BoundedQosQueue \<Rightarrow> nat" where
  "BoundedQosQueue_size q = length (q_critical q) + length (q_state q) + length (q_events q)"

definition inc_enqueued :: "BoundedQosQueue \<Rightarrow> BoundedQosQueue" where
  "inc_enqueued q = q\<lparr>q_metrics := (q_metrics q)\<lparr>qm_enqueued := qm_enqueued (q_metrics q) + 1\<rparr>\<rparr>"

definition inc_delivered :: "BoundedQosQueue \<Rightarrow> BoundedQosQueue" where
  "inc_delivered q = q\<lparr>q_metrics := (q_metrics q)\<lparr>qm_delivered := qm_delivered (q_metrics q) + 1\<rparr>\<rparr>"

definition inc_dropped_latest :: "BoundedQosQueue \<Rightarrow> BoundedQosQueue" where
  "inc_dropped_latest q =
     q\<lparr>q_metrics := (q_metrics q)\<lparr>qm_dropped_latest := qm_dropped_latest (q_metrics q) + 1\<rparr>\<rparr>"

definition inc_rejected_critical :: "BoundedQosQueue \<Rightarrow> BoundedQosQueue" where
  "inc_rejected_critical q =
     q\<lparr>q_metrics := (q_metrics q)\<lparr>qm_rejected_critical := qm_rejected_critical (q_metrics q) + 1\<rparr>\<rparr>"

definition inc_expired :: "BoundedQosQueue \<Rightarrow> BoundedQosQueue" where
  "inc_expired q = q\<lparr>q_metrics := (q_metrics q)\<lparr>qm_expired := qm_expired (q_metrics q) + 1\<rparr>\<rparr>"

lemmas metric_incs = inc_enqueued_def inc_delivered_def inc_dropped_latest_def
  inc_rejected_critical_def inc_expired_def

section \<open>Operations\<close>

definition expired :: "NativeMessage \<Rightarrow> u64 \<Rightarrow> bool" where
  "expired message now_ms \<longleftrightarrow>
     h_deadline_ms (m_header message) \<noteq> 0 \<and> now_ms > ucast (h_deadline_ms (m_header message))"

definition is_state :: "NativeMessage \<Rightarrow> bool" where
  "is_state message \<longleftrightarrow>
     state_type (h_type (m_header message)) \<and> h_qos (m_header message) = Qos_StateLatest"

definition stream_key :: "NativeMessage \<Rightarrow> u64" where
  "stream_key message =
     (let (resource, src) =
        (if m_length message \<ge> 16 then
           (case decode_state_meta (Some (m_payload message)) 16 of
              Some meta \<Rightarrow> (sm_resource_id meta, sm_source_id meta)
            | None \<Rightarrow> (0, h_source_id (m_header message)))
         else (0, h_source_id (m_header message)))
      in push_bit 56 (ucast (MessageType_u8 (h_type (m_header message)))) OR
         push_bit 32 (ucast src) OR ucast resource)"

text \<open>\<^verbatim>\<open>while (size() >= capacity_) { if (!events_.empty()) ... else break; }\<close>\<close>

function drop_events :: "BoundedQosQueue \<Rightarrow> BoundedQosQueue" where
  "drop_events q =
     (if BoundedQosQueue_size q \<ge> q_capacity q \<and> q_events q \<noteq> []
      then drop_events (inc_dropped_latest (q\<lparr>q_events := tl (q_events q)\<rparr>))
      else q)"
  by pat_completeness auto
termination
  by (relation "measure (\<lambda>q. length (q_events q))") (auto simp: inc_dropped_latest_def)

declare drop_events.simps [simp del]

definition BoundedQosQueue_push ::
    "BoundedQosQueue \<Rightarrow> NativeMessage \<Rightarrow> u64 \<Rightarrow> bool \<times> BoundedQosQueue" where
  "BoundedQosQueue_push q message now_ms =
     (if q_capacity q = 0 \<or> m_length message > kMaxPayloadBytes \<or> expired message now_ms
      then (False, inc_expired q)
      else if is_state message then
        let key = stream_key message
        in if map_of (q_state q) key \<noteq> None
           then (True, inc_enqueued (inc_dropped_latest
                  (q\<lparr>q_state := map (\<lambda>(k, m). if k = key then (k, message) else (k, m)) (q_state q)\<rparr>)))
           else
             let q = drop_events q
             in if BoundedQosQueue_size q \<ge> q_capacity q then (False, inc_dropped_latest q)
                else (True, inc_enqueued (q\<lparr>q_state := (key, message) # q_state q\<rparr>))
      else
        let critical = h_qos (m_header message) = Qos_CriticalReliable \<or>
                       h_qos (m_header message) = Qos_CommandReliable;
            enqueue = (\<lambda>q. (True, inc_enqueued
              (if critical then q\<lparr>q_critical := q_critical q @ [message]\<rparr>
               else q\<lparr>q_events := q_events q @ [message]\<rparr>)))
        in if BoundedQosQueue_size q \<ge> q_capacity q then
             if critical then (False, inc_rejected_critical q)
             else if q_events q \<noteq> []
             then enqueue (inc_dropped_latest (q\<lparr>q_events := tl (q_events q)\<rparr>))
             else (False, inc_dropped_latest q)
           else enqueue q)"

text \<open>The scan of the map for the entry with the smallest key.\<close>

definition min_entry :: "(u64 \<times> NativeMessage) list \<Rightarrow> u64 \<times> NativeMessage" where
  "min_entry kvs =
     fold (\<lambda>candidate it. if fst candidate < fst it then candidate else it) (tl kvs) (hd kvs)"

definition take_next :: "BoundedQosQueue \<Rightarrow> (NativeMessage \<times> BoundedQosQueue) option" where
  "take_next q =
     (if q_critical q \<noteq> [] then Some (hd (q_critical q), q\<lparr>q_critical := tl (q_critical q)\<rparr>)
      else if q_events q \<noteq> [] then Some (hd (q_events q), q\<lparr>q_events := tl (q_events q)\<rparr>)
      else if q_state q \<noteq> [] then
        let it = min_entry (q_state q)
        in Some (snd it, q\<lparr>q_state := remove1 it (q_state q)\<rparr>)
      else None)"

lemma min_entry_mem: "kvs \<noteq> [] \<Longrightarrow> min_entry kvs \<in> set kvs"
proof -
  have "fold (\<lambda>c it. if fst c < fst it then c else it) xs a \<in> insert a (set xs)"
    for a :: "u64 \<times> NativeMessage" and xs
  proof (induction xs arbitrary: a)
    case (Cons x xs)
    show ?case
      using Cons.IH [of x] Cons.IH [of a] by auto
  qed simp
  then show "kvs \<noteq> [] \<Longrightarrow> min_entry kvs \<in> set kvs"
    by (cases kvs) (auto simp: min_entry_def)
qed

lemma take_next_size:
  "take_next q = Some (m, q') \<Longrightarrow> Suc (BoundedQosQueue_size q') = BoundedQosQueue_size q"
  using min_entry_mem [of "q_state q"]
  by (auto simp: take_next_def BoundedQosQueue_size_def Let_def length_remove1 Suc_diff_1
      split: if_splits)

function BoundedQosQueue_pop :: "BoundedQosQueue \<Rightarrow> u64 \<Rightarrow> NativeMessage option \<times> BoundedQosQueue" where
  "BoundedQosQueue_pop q now_ms =
     (case take_next q of
        None \<Rightarrow> (None, q)
      | Some (message, q) \<Rightarrow>
          if expired message now_ms then BoundedQosQueue_pop (inc_expired q) now_ms
          else (Some message, inc_delivered q))"
  by pat_completeness auto
termination
proof (relation "measure (\<lambda>(q, now_ms). BoundedQosQueue_size q)", goal_cases)
  case 1
  then show ?case by simp
next
  case (2 q now_ms x m q')
  then show ?case using take_next_size [of q m q'] by (simp add: inc_expired_def BoundedQosQueue_size_def)
qed

declare BoundedQosQueue_pop.simps [simp del]

definition BoundedQosQueue_clear :: "BoundedQosQueue \<Rightarrow> BoundedQosQueue" where
  "BoundedQosQueue_clear q = q\<lparr>q_critical := [], q_events := [], q_state := []\<rparr>"

section \<open>The queue as one list\<close>

text \<open>
  The abstract content: the messages in the order in which they would leave (reliable, events,
  state by increasing stream key).
\<close>

definition queue_order :: "BoundedQosQueue \<Rightarrow> NativeMessage list" where
  "queue_order q = q_critical q @ q_events q @ map snd (sort_key fst (q_state q))"

definition reliable :: "NativeMessage \<Rightarrow> bool" where
  "reliable m \<longleftrightarrow> h_qos (m_header m) = Qos_CriticalReliable \<or> h_qos (m_header m) = Qos_CommandReliable"

definition queue_inv :: "BoundedQosQueue \<Rightarrow> bool" where
  "queue_inv q \<longleftrightarrow> BoundedQosQueue_size q \<le> q_capacity q \<and> distinct (map fst (q_state q)) \<and>
     list_all (\<lambda>(k, m). is_state m \<and> k = stream_key m) (q_state q) \<and>
     list_all reliable (q_critical q) \<and> list_all (\<lambda>m. \<not> reliable m \<and> \<not> is_state m) (q_events q) \<and>
     list_all (\<lambda>m. m_length m \<le> kMaxPayloadBytes) (queue_order q)"

lemma length_queue_order [simp]: "length (queue_order q) = BoundedQosQueue_size q"
  by (simp add: queue_order_def BoundedQosQueue_size_def)

lemma is_state_not_reliable: "is_state m \<Longrightarrow> \<not> reliable m"
  by (simp add: is_state_def reliable_def)

lemma metric_incs_simps [simp]:
  "q_critical (inc_enqueued q) = q_critical q" "q_critical (inc_delivered q) = q_critical q"
  "q_critical (inc_dropped_latest q) = q_critical q" "q_critical (inc_rejected_critical q) = q_critical q"
  "q_critical (inc_expired q) = q_critical q"
  "q_events (inc_enqueued q) = q_events q" "q_events (inc_delivered q) = q_events q"
  "q_events (inc_dropped_latest q) = q_events q" "q_events (inc_rejected_critical q) = q_events q"
  "q_events (inc_expired q) = q_events q"
  "q_state (inc_enqueued q) = q_state q" "q_state (inc_delivered q) = q_state q"
  "q_state (inc_dropped_latest q) = q_state q" "q_state (inc_rejected_critical q) = q_state q"
  "q_state (inc_expired q) = q_state q"
  "q_capacity (inc_enqueued q) = q_capacity q" "q_capacity (inc_delivered q) = q_capacity q"
  "q_capacity (inc_dropped_latest q) = q_capacity q" "q_capacity (inc_rejected_critical q) = q_capacity q"
  "q_capacity (inc_expired q) = q_capacity q"
  by (simp_all add: metric_incs)

lemma metric_incs_inv [simp]:
  "queue_inv (inc_enqueued q) = queue_inv q" "queue_inv (inc_delivered q) = queue_inv q"
  "queue_inv (inc_dropped_latest q) = queue_inv q" "queue_inv (inc_rejected_critical q) = queue_inv q"
  "queue_inv (inc_expired q) = queue_inv q"
  "queue_order (inc_enqueued q) = queue_order q" "queue_order (inc_delivered q) = queue_order q"
  "queue_order (inc_dropped_latest q) = queue_order q" "queue_order (inc_rejected_critical q) = queue_order q"
  "queue_order (inc_expired q) = queue_order q"
  "BoundedQosQueue_size (inc_enqueued q) = BoundedQosQueue_size q"
  "BoundedQosQueue_size (inc_delivered q) = BoundedQosQueue_size q"
  "BoundedQosQueue_size (inc_dropped_latest q) = BoundedQosQueue_size q"
  "BoundedQosQueue_size (inc_rejected_critical q) = BoundedQosQueue_size q"
  "BoundedQosQueue_size (inc_expired q) = BoundedQosQueue_size q"
  by (simp_all only: queue_inv_def queue_order_def BoundedQosQueue_size_def metric_incs_simps)

section \<open>Taking the next message\<close>

lemma min_entry_le: "kvs \<noteq> [] \<Longrightarrow> kv \<in> set kvs \<Longrightarrow> fst (min_entry kvs) \<le> fst kv"
proof -
  have scan: "fst (fold (\<lambda>c it. if fst c < fst it then c else it) xs a) \<le> fst y"
    if "y \<in> insert a (set xs)" for a y :: "u64 \<times> NativeMessage" and xs
    using that
  proof (induction xs arbitrary: a y)
    case (Cons x xs)
    let ?b = "if fst x < fst a then x else a"
    have "fst (fold (\<lambda>c it. if fst c < fst it then c else it) xs ?b) \<le> fst ?b"
      by (rule Cons.IH) simp
    then have "fst (fold (\<lambda>c it. if fst c < fst it then c else it) xs ?b) \<le> fst y"
      if "y = x \<or> y = a"
      using that by (auto split: if_splits)
    moreover have "fst (fold (\<lambda>c it. if fst c < fst it then c else it) xs ?b) \<le> fst y" if "y \<in> set xs"
      by (rule Cons.IH) (use that in simp)
    ultimately show ?case using Cons.prems by auto
  qed simp
  assume "kvs \<noteq> []" and "kv \<in> set kvs"
  then show ?thesis using scan [of kv "hd kvs" "tl kvs"] by (cases kvs) (auto simp: min_entry_def)
qed

lemma sort_key_min_entry:
  assumes "kvs \<noteq> []" and "distinct (map fst kvs)"
  shows "sort_key fst kvs = min_entry kvs # sort_key fst (remove1 (min_entry kvs) kvs)"
proof (rule sort_key_inj_key_eq)
  show "mset kvs = mset (min_entry kvs # sort_key fst (remove1 (min_entry kvs) kvs))"
    using min_entry_mem [OF assms(1)] by simp
  show "inj_on fst (set kvs)" using assms(2) by (simp add: distinct_map)
  show "sorted (map fst (min_entry kvs # sort_key fst (remove1 (min_entry kvs) kvs)))"
    using min_entry_le [OF assms(1)] notin_set_remove1 by fastforce
qed

lemma take_next_order:
  assumes "distinct (map fst (q_state q))"
  shows "case take_next q of
      None \<Rightarrow> queue_order q = []
    | Some (m, q') \<Rightarrow> queue_order q = m # queue_order q' \<and> distinct (map fst (q_state q'))"
  using assms sort_key_min_entry [of "q_state q"]
  by (auto simp: take_next_def queue_order_def Let_def distinct_map distinct_remove1
      intro: inj_on_diff)

lemma take_next_inv:
  assumes "queue_inv q" and "take_next q = Some (m, q')"
  shows "queue_inv q' \<and> q_capacity q' = q_capacity q"
proof -
  have "queue_order q = m # queue_order q'" and "distinct (map fst (q_state q'))"
    using take_next_order [of q] assms by (auto simp: queue_inv_def)
  moreover have "set (q_state q') \<subseteq> set (q_state q)" "set (q_critical q') \<subseteq> set (q_critical q)"
    "set (q_events q') \<subseteq> set (q_events q)" "q_capacity q' = q_capacity q"
    using assms(2) by (auto simp: take_next_def Let_def list.set_sel(2) split: if_splits
        dest: subsetD [OF set_remove1_subset])
  ultimately show ?thesis
    using assms take_next_size [OF assms(2)] unfolding queue_inv_def list_all_iff by auto
qed


section \<open>Pop\<close>

lemma metric_expired:
  "qm_expired (q_metrics (inc_expired q)) = qm_expired (q_metrics q) + 1"
  "qm_expired (q_metrics (inc_delivered q)) = qm_expired (q_metrics q)"
  by (simp_all add: metric_incs)

lemma pop_order:
  assumes "distinct (map fst (q_state q))"
  shows "fst (BoundedQosQueue_pop q now) =
      (case dropWhile (\<lambda>m. expired m now) (queue_order q) of [] \<Rightarrow> None | m # _ \<Rightarrow> Some m) \<and>
    queue_order (snd (BoundedQosQueue_pop q now)) =
      tl (dropWhile (\<lambda>m. expired m now) (queue_order q)) \<and>
    qm_expired (q_metrics (snd (BoundedQosQueue_pop q now))) =
      qm_expired (q_metrics q) + of_nat (length (takeWhile (\<lambda>m. expired m now) (queue_order q)))"
  using assms
proof (induction q now rule: BoundedQosQueue_pop.induct)
  case (1 q now)
  show ?case
  proof (cases "take_next q")
    case None
    then show ?thesis
      using take_next_order [OF 1(2)] by (simp add: BoundedQosQueue_pop.simps [of q])
  next
    case (Some p)
    obtain m q' where p: "p = (m, q')" by (cases p)
    have order: "queue_order q = m # queue_order q'" "distinct (map fst (q_state q'))"
      using take_next_order [OF 1(2)] Some p by auto
    have metrics: "q_metrics q' = q_metrics q"
      using Some p by (auto simp: take_next_def Let_def split: if_splits)
    show ?thesis
      using 1(1) [OF Some p [symmetric]] order metrics Some p
      by (auto simp: BoundedQosQueue_pop.simps [of q] metric_expired)
  qed
qed

lemma pop_inv:
  "queue_inv q \<Longrightarrow> queue_inv (snd (BoundedQosQueue_pop q now)) \<and>
     q_capacity (snd (BoundedQosQueue_pop q now)) = q_capacity q"
proof (induction q now rule: BoundedQosQueue_pop.induct)
  case (1 q now)
  show ?case
  proof (cases "take_next q")
    case None
    then show ?thesis using 1(2) by (simp add: BoundedQosQueue_pop.simps [of q])
  next
    case (Some p)
    obtain m q' where p: "p = (m, q')" by (cases p)
    then have "queue_inv q'" and "q_capacity q' = q_capacity q"
      using take_next_inv [OF 1(2)] Some by auto
    then show ?thesis
      using 1(1) [OF Some p [symmetric]] Some p by (simp add: BoundedQosQueue_pop.simps [of q])
  qed
qed

section \<open>Push\<close>

lemma drop_events_eq:
  assumes "BoundedQosQueue_size q \<le> q_capacity q"
  shows "drop_events q =
    (if BoundedQosQueue_size q = q_capacity q \<and> q_events q \<noteq> []
     then inc_dropped_latest (q\<lparr>q_events := tl (q_events q)\<rparr>) else q)"
proof (cases "BoundedQosQueue_size q = q_capacity q \<and> q_events q \<noteq> []")
  case True
  let ?q = "inc_dropped_latest (q\<lparr>q_events := tl (q_events q)\<rparr>)"
  have "BoundedQosQueue_size ?q < q_capacity ?q"
    using True by (auto simp: BoundedQosQueue_size_def neq_Nil_conv)
  then have "drop_events ?q = ?q" by (simp add: drop_events.simps [of ?q])
  with True show ?thesis by (simp add: drop_events.simps [of q])
next
  case False
  then show ?thesis using assms by (auto simp: drop_events.simps [of q])
qed

definition push_needs_room :: "BoundedQosQueue \<Rightarrow> NativeMessage \<Rightarrow> bool" where
  "push_needs_room q m \<longleftrightarrow> BoundedQosQueue_size q \<ge> q_capacity q \<and>
     \<not> (is_state m \<and> stream_key m \<in> fst ` set (q_state q))"

definition push_accepts :: "BoundedQosQueue \<Rightarrow> NativeMessage \<Rightarrow> u64 \<Rightarrow> bool" where
  "push_accepts q m now \<longleftrightarrow> q_capacity q \<noteq> 0 \<and> m_length m \<le> kMaxPayloadBytes \<and> \<not> expired m now \<and>
     (push_needs_room q m \<longrightarrow> \<not> reliable m \<and> q_events q \<noteq> [])"

text \<open>The lanes after an accepted message.\<close>

definition pushed_lanes :: "BoundedQosQueue \<Rightarrow> NativeMessage \<Rightarrow> BoundedQosQueue \<Rightarrow> bool" where
  "pushed_lanes q m q' \<longleftrightarrow>
     q_critical q' = q_critical q @ (if reliable m then [m] else []) \<and>
     q_events q' = (if push_needs_room q m then tl (q_events q) else q_events q) @
       (if reliable m \<or> is_state m then [] else [m]) \<and>
     q_state q' = (if \<not> is_state m then q_state q
       else if stream_key m \<in> fst ` set (q_state q)
       then map (\<lambda>(k, v). if k = stream_key m then (k, m) else (k, v)) (q_state q)
       else (stream_key m, m) # q_state q)"

lemma push_lanes:
  assumes "BoundedQosQueue_size q \<le> q_capacity q" and "BoundedQosQueue_push q m now = (ok, q')"
  shows "ok = push_accepts q m now \<and> q_capacity q' = q_capacity q \<and>
    (if ok then pushed_lanes q m q'
     else q_critical q' = q_critical q \<and> q_events q' = q_events q \<and> q_state q' = q_state q)"
proof (cases "q_capacity q = 0 \<or> m_length m > kMaxPayloadBytes \<or> expired m now")
  case True
  then show ?thesis using assms(2) by (auto simp: BoundedQosQueue_push_def push_accepts_def)
next
  case False
  note guard = this
  show ?thesis
  proof (cases "is_state m")
    case True
    have key: "map_of (q_state q) (stream_key m) \<noteq> None \<longleftrightarrow> stream_key m \<in> fst ` set (q_state q)"
      by (simp add: map_of_eq_None_iff)
    show ?thesis
      using assms guard True is_state_not_reliable [OF True]
      unfolding BoundedQosQueue_push_def Let_def key drop_events_eq [OF assms(1)]
      by (cases "q_events q") (auto simp: push_accepts_def pushed_lanes_def push_needs_room_def BoundedQosQueue_size_def
          split: if_splits)
  next
    case False
    then show ?thesis
      using assms guard
      unfolding BoundedQosQueue_push_def Let_def reliable_def [symmetric]
      by (auto simp: push_accepts_def pushed_lanes_def push_needs_room_def split: if_splits)
  qed
qed


lemma set_queue_order:
  "set (queue_order q) = set (q_critical q) \<union> set (q_events q) \<union> snd ` set (q_state q)"
  by (auto simp: queue_order_def)

lemma pushed_state:
  assumes "pushed_lanes q m q'"
  shows "if is_state m then set (q_state q') \<subseteq> insert (stream_key m, m) (set (q_state q)) \<and>
      (stream_key m, m) \<in> set (q_state q') else q_state q' = q_state q"
proof -
  let ?upd = "map (\<lambda>(k, v). if k = stream_key m then (k, m) else (k, v)) (q_state q)"
  have "set ?upd \<subseteq> insert (stream_key m, m) (set (q_state q))"
    and "stream_key m \<in> fst ` set (q_state q) \<Longrightarrow> (stream_key m, m) \<in> set ?upd"
    by (auto simp: image_iff split: if_splits) force
  moreover have "q_state q' = (if \<not> is_state m then q_state q
       else if stream_key m \<in> fst ` set (q_state q) then ?upd else (stream_key m, m) # q_state q)"
    using assms by (simp only: pushed_lanes_def)
  ultimately show ?thesis
    by (cases "is_state m"; cases "stream_key m \<in> fst ` set (q_state q)") simp_all
qed

lemma pushed_lanes_content:
  assumes "pushed_lanes q m q'"
  shows "set (queue_order q') \<subseteq> insert m (set (queue_order q)) \<and> m \<in> set (queue_order q')"
proof
  have "set (tl (q_events q)) \<subseteq> set (q_events q)" by (cases "q_events q") auto
  then have events: "set (q_events q') \<subseteq> insert m (set (q_events q))"
    using assms by (auto simp: pushed_lanes_def split: if_splits)
  have critical: "set (q_critical q') \<subseteq> insert m (set (q_critical q))"
    using assms by (auto simp: pushed_lanes_def)
  have state: "snd ` set (q_state q') \<subseteq> insert m (snd ` set (q_state q))"
    using pushed_state [OF assms] by (cases "is_state m") auto
  show "set (queue_order q') \<subseteq> insert m (set (queue_order q))"
    using events critical state unfolding set_queue_order by blast
  consider "reliable m" | "\<not> reliable m" "\<not> is_state m" | "is_state m" by blast
  then show "m \<in> set (queue_order q')"
  proof cases
    case 3
    then have "m \<in> snd ` set (q_state q')"
      using pushed_state [OF assms] by force
    then show ?thesis unfolding set_queue_order by blast
  qed (use assms in \<open>simp_all add: pushed_lanes_def set_queue_order\<close>)
qed

lemma pushed_lanes_size:
  assumes "pushed_lanes q m q'" and "push_accepts q m now" and "BoundedQosQueue_size q \<le> q_capacity q"
  shows "BoundedQosQueue_size q' \<le> q_capacity q"
proof -
  let ?room = "push_needs_room q m" and ?old = "is_state m \<and> stream_key m \<in> fst ` set (q_state q)"
  have critical: "length (q_critical q') = length (q_critical q) + (if reliable m then 1 else 0)"
    and events: "length (q_events q') = (if ?room then length (q_events q) - 1 else length (q_events q)) +
        (if reliable m \<or> is_state m then 0 else 1)"
    and state: "length (q_state q') = length (q_state q) + (if is_state m \<and> \<not> ?old then 1 else 0)"
    using assms(1) by (simp_all add: pushed_lanes_def)
  have kind: "\<not> (is_state m \<and> reliable m)" using is_state_not_reliable by blast
  have room: "?room \<longleftrightarrow> BoundedQosQueue_size q \<ge> q_capacity q \<and> \<not> ?old"
    by (simp add: push_needs_room_def)
  have "?room \<Longrightarrow> length (q_events q) > 0" using assms(2) by (simp add: push_accepts_def)
  then have "BoundedQosQueue_size q' \<le> (if ?room \<or> ?old then 0 else 1) + BoundedQosQueue_size q"
    using kind unfolding BoundedQosQueue_size_def critical events state
    by (simp split: if_split)
  then show ?thesis using room assms(3) by (auto split: if_splits)
qed

lemma pushed_lanes_inv:
  assumes "queue_inv q" and "push_accepts q m now" and "q_capacity q' = q_capacity q"
    and "pushed_lanes q m q'"
  shows "queue_inv q'"
proof -
  have bound: "BoundedQosQueue_size q' \<le> q_capacity q'"
    using pushed_lanes_size assms by (simp add: queue_inv_def)
  have "map fst (q_state q') = (if is_state m \<and> stream_key m \<notin> fst ` set (q_state q)
      then stream_key m # map fst (q_state q) else map fst (q_state q))"
    using assms(4) by (simp add: pushed_lanes_def case_prod_beta)
  then have "distinct (map fst (q_state q'))"
    using assms(1) by (simp add: queue_inv_def)
  moreover have "list_all (\<lambda>(k, m). is_state m \<and> k = stream_key m) (q_state q')"
    using assms(1) pushed_state [OF assms(4)]
    by (cases "is_state m") (auto simp: queue_inv_def list_all_iff)
  moreover have "list_all reliable (q_critical q')"
    using assms(1,4) by (auto simp: queue_inv_def pushed_lanes_def)
  moreover have "list_all (\<lambda>m. \<not> reliable m \<and> \<not> is_state m) (q_events q')"
    using assms(1,4) by (cases "q_events q") (auto simp: queue_inv_def pushed_lanes_def)
  moreover have "list_all (\<lambda>m. m_length m \<le> kMaxPayloadBytes) (queue_order q')"
    using assms pushed_lanes_content [OF assms(4)]
    by (auto simp: queue_inv_def list_all_iff push_accepts_def)
  ultimately show ?thesis using bound by (simp add: queue_inv_def)
qed

lemma lanes_same:
  assumes "q_critical q' = q_critical q" "q_events q' = q_events q" "q_state q' = q_state q"
    "q_capacity q' = q_capacity q"
  shows "queue_order q' = queue_order q \<and> queue_inv q' = queue_inv q"
  using assms by (simp add: queue_inv_def queue_order_def BoundedQosQueue_size_def)

lemma push_inv:
  assumes "queue_inv q" and "BoundedQosQueue_push q m now = (ok, q')"
  shows "queue_inv q' \<and> q_capacity q' = q_capacity q \<and>
    (if ok then set (queue_order q') \<subseteq> insert m (set (queue_order q)) \<and> m \<in> set (queue_order q')
     else queue_order q' = queue_order q)"
proof -
  have "BoundedQosQueue_size q \<le> q_capacity q" using assms(1) by (simp add: queue_inv_def)
  note lanes = push_lanes [OF this assms(2)]
  show ?thesis
  proof (cases ok)
    case True
    then show ?thesis
      using lanes pushed_lanes_inv [OF assms(1), of m now q'] pushed_lanes_content [of q m q'] by simp
  next
    case False
    then show ?thesis using lanes lanes_same [of q' q] assms(1) by simp
  qed
qed

lemma new_queue: "queue_inv (new_BoundedQosQueue n)" "queue_order (new_BoundedQosQueue n) = []"
  "q_capacity (new_BoundedQosQueue n) = n"
  by (simp_all add: new_BoundedQosQueue_def queue_inv_def queue_order_def BoundedQosQueue_size_def)

lemma clear_queue:
  "queue_inv q \<Longrightarrow> queue_inv (BoundedQosQueue_clear q)" "queue_order (BoundedQosQueue_clear q) = []"
  "q_capacity (BoundedQosQueue_clear q) = q_capacity q"
  by (simp_all add: BoundedQosQueue_clear_def queue_inv_def queue_order_def BoundedQosQueue_size_def)

section \<open>What a client of the queue relies on\<close>

locale message_queue =
  fixes push :: "'q \<Rightarrow> 'm \<Rightarrow> 't \<Rightarrow> bool \<times> 'q"
    and pop :: "'q \<Rightarrow> 't \<Rightarrow> 'm option \<times> 'q"
    and contents :: "'q \<Rightarrow> 'm list"
    and cap :: "'q \<Rightarrow> nat"
    and ok :: "'q \<Rightarrow> bool"
    and dead :: "'m \<Rightarrow> 't \<Rightarrow> bool"
  assumes bounded: "ok q \<Longrightarrow> length (contents q) \<le> cap q"
    and push_ok: "ok q \<Longrightarrow> push q m t = (b, q') \<Longrightarrow> ok q' \<and> cap q' = cap q"
    and pop_ok: "ok q \<Longrightarrow> pop q t = (r, q') \<Longrightarrow> ok q' \<and> cap q' = cap q"
    and push_true: "ok q \<Longrightarrow> push q m t = (True, q') \<Longrightarrow>
      set (contents q') \<subseteq> insert m (set (contents q)) \<and> m \<in> set (contents q')"
    and push_false: "ok q \<Longrightarrow> push q m t = (False, q') \<Longrightarrow> contents q' = contents q"
    and pop_uncons: "ok q \<Longrightarrow> pop q t = (r, q') \<Longrightarrow>
      r = (case dropWhile (\<lambda>m. dead m t) (contents q) of [] \<Rightarrow> None | m # _ \<Rightarrow> Some m) \<and>
      contents q' = tl (dropWhile (\<lambda>m. dead m t) (contents q))"
begin

lemma pop_live:
  assumes "ok q" and "pop q t = (Some m, q')"
  shows "\<not> dead m t \<and> m \<in> set (contents q)"
proof -
  obtain rest where drop: "dropWhile (\<lambda>m. dead m t) (contents q) = m # rest"
    using pop_uncons [OF assms] by (auto split: list.splits)
  then have "\<not> dead m t" using hd_dropWhile [of "\<lambda>m. dead m t" "contents q"] by fastforce
  moreover have "m \<in> set (contents q)"
    using set_dropWhileD [of m "\<lambda>m. dead m t" "contents q"] drop by simp
  ultimately show ?thesis by blast
qed

lemma pop_shrinks:
  assumes "ok q" and "pop q t = (r, q')"
  shows "set (contents q') \<subseteq> set (contents q) \<and> (contents q \<noteq> [] \<longrightarrow> length (contents q') < length (contents q))"
proof -
  let ?d = "dropWhile (\<lambda>m. dead m t) (contents q)"
  have "set (tl ?d) \<subseteq> set (contents q)"
    by (metis list.sel(2) list.set_sel(2) set_dropWhileD subsetI)
  moreover have "length (tl ?d) < length (contents q)" if "contents q \<noteq> []"
  proof -
    have "length ?d \<le> length (contents q)" by (rule length_dropWhile_le)
    then show ?thesis using that by (cases "contents q") (simp_all only: length_tl list.size, arith)
  qed
  ultimately show ?thesis using pop_uncons [OF assms] by simp
qed

lemma pop_None_iff:
  assumes "ok q" and "pop q t = (r, q')"
  shows "r = None \<longleftrightarrow> (\<forall>m\<in>set (contents q). dead m t)"
proof -
  have "r = None \<longleftrightarrow> dropWhile (\<lambda>m. dead m t) (contents q) = []"
    using pop_uncons [OF assms]
    by (cases "dropWhile (\<lambda>m. dead m t) (contents q)") (simp_all only: list.case simp_thms option.distinct list.distinct)
  then show ?thesis by (simp only: dropWhile_eq_Nil_conv)
qed

lemma push_contents:
  assumes "ok q" and "push q m t = (b, q')"
  shows "set (contents q') \<subseteq> insert m (set (contents q))"
proof (cases b)
  case True
  then show ?thesis using push_true assms by simp
next
  case False
  then show ?thesis using push_false assms by auto
qed

end

interpretation qos_queue: message_queue BoundedQosQueue_push BoundedQosQueue_pop queue_order q_capacity
  queue_inv expired
proof (unfold_locales, goal_cases)
  case (1 q)
  then show ?case by (simp add: queue_inv_def)
next
  case (2 q m t b q')
  then show ?case using push_inv by blast
next
  case (3 q t r q')
  then show ?case using pop_inv [of q t] by simp
next
  case (4 q m t q')
  then show ?case using push_inv [of q m t True q'] by simp
next
  case (5 q m t q')
  then show ?case using push_inv [of q m t False q'] by simp
next
  case (6 q t r q')
  then show ?case using pop_order [of q t] by (simp add: queue_inv_def)
qed


lemma map_of_update:
  "k \<in> fst ` set kvs \<Longrightarrow> map_of (map (\<lambda>(k', v). if k' = k then (k', m) else (k', v)) kvs) = (map_of kvs)(k \<mapsto> m)"
proof (rule ext)
  fix x
  have "map_of (map (\<lambda>(k', v). if k' = k then (k', m) else (k', v)) kvs) x =
      (if x = k \<and> k \<in> fst ` set kvs then Some m else map_of kvs x)"
  proof (induction kvs)
    case (Cons kv kvs)
    obtain k' v where "kv = (k', v)" by (cases kv)
    with Cons.IH show ?case by (cases "k' = k"; cases "x = k") simp_all
  qed simp
  then show "k \<in> fst ` set kvs \<Longrightarrow>
      map_of (map (\<lambda>(k', v). if k' = k then (k', m) else (k', v)) kvs) x = ((map_of kvs)(k \<mapsto> m)) x"
    by simp
qed

section \<open>Stream keys\<close>

text \<open>The stream a message belongs to: its type, and the source and resource of its payload.\<close>

definition stream_of :: "NativeMessage \<Rightarrow> byte \<times> u16 \<times> u32" where
  "stream_of m = (MessageType_u8 (h_type (m_header m)),
     (case if m_length m \<ge> 16 then decode_state_meta (Some (m_payload m)) 16 else None of
        Some meta \<Rightarrow> (sm_source_id meta, sm_resource_id meta)
      | None \<Rightarrow> (h_source_id (m_header m), 0)))"

definition pack_key :: "byte \<Rightarrow> u16 \<Rightarrow> u32 \<Rightarrow> u64" where
  "pack_key t s r = push_bit 56 (ucast t) OR push_bit 32 (ucast s) OR ucast r"

lemma pack_key_bits:
  "n < 8 \<Longrightarrow> bit (pack_key t s r) (56 + n) = bit t n"
  "n < 16 \<Longrightarrow> bit (pack_key t s r) (32 + n) = bit s n"
  "n < 32 \<Longrightarrow> bit (pack_key t s r) n = bit r n"
  by (auto simp: pack_key_def bit_simps dest: bit_imp_le_length)

lemma pack_key_inj: "pack_key t s r = pack_key t' s' r' \<longleftrightarrow> t = t' \<and> s = s' \<and> r = r'"
proof
  assume eq: "pack_key t s r = pack_key t' s' r'"
  have "t = t'"
  proof (rule bit_word_eqI)
    fix n assume "n < LENGTH(8)"
    then show "bit t n = bit t' n"
      using eq pack_key_bits(1) [of n t s r] pack_key_bits(1) [of n t' s' r'] by simp
  qed
  moreover have "s = s'"
  proof (rule bit_word_eqI)
    fix n assume "n < LENGTH(16)"
    then show "bit s n = bit s' n"
      using eq pack_key_bits(2) [of n t s r] pack_key_bits(2) [of n t' s' r'] by simp
  qed
  moreover have "r = r'"
  proof (rule bit_word_eqI)
    fix n assume "n < LENGTH(32)"
    then show "bit r n = bit r' n"
      using eq pack_key_bits(3) [of n t s r] pack_key_bits(3) [of n t' s' r'] by simp
  qed
  ultimately show "t = t' \<and> s = s' \<and> r = r'" by simp
qed simp

lemma stream_key_eq_iff: "stream_key m = stream_key m' \<longleftrightarrow> stream_of m = stream_of m'"
proof -
  have "stream_key m = (case stream_of m of (t, s, r) \<Rightarrow> pack_key t s r)" for m
    by (auto simp: stream_key_def stream_of_def pack_key_def split: option.splits)
  then show ?thesis by (simp add: pack_key_inj split: prod.splits)
qed

section \<open>Runs\<close>

inductive queue_step :: "BoundedQosQueue \<Rightarrow> BoundedQosQueue \<Rightarrow> bool" where
  push: "BoundedQosQueue_push q m now = (b, q') \<Longrightarrow> queue_step q q'"
| pop: "BoundedQosQueue_pop q now = (r, q') \<Longrightarrow> queue_step q q'"
| clear: "queue_step q (BoundedQosQueue_clear q)"

interpretation queue_runs: invariant_system "\<lambda>q. q = new_BoundedQosQueue n" queue_step
  "\<lambda>q. queue_inv q \<and> q_capacity q = n" for n
proof (unfold_locales, goal_cases)
  case (1 q)
  then show ?case by (simp add: new_queue)
next
  case (2 q q')
  then have inv: "queue_inv q" "q_capacity q = n" by simp_all
  from 2(2) show ?case
  proof (cases rule: queue_step.cases)
    case (push m now b)
    then show ?thesis using qos_queue.push_ok inv by metis
  next
    case (pop now r)
    then show ?thesis using qos_queue.pop_ok inv by metis
  next
    case clear
    then show ?thesis using clear_queue inv by simp
  qed
qed

datatype queue_op = Push NativeMessage u64 | Pop u64

text \<open>
  A run of pushes and pops with its history: the messages accepted by \<open>push\<close> and the messages taken
  out by \<open>pop\<close> (those it skipped because they had expired, then the one it returned).
\<close>

definition pop_removed :: "BoundedQosQueue \<Rightarrow> u64 \<Rightarrow> NativeMessage list" where
  "pop_removed q now = takeWhile (\<lambda>m. expired m now) (queue_order q) @
     (case fst (BoundedQosQueue_pop q now) of None \<Rightarrow> [] | Some m \<Rightarrow> [m])"

fun queue_run ::
    "BoundedQosQueue \<Rightarrow> queue_op list \<Rightarrow> NativeMessage list \<times> NativeMessage list \<times> BoundedQosQueue" where
  "queue_run q [] = ([], [], q)"
| "queue_run q (Push m now # ops) =
     (let (b, q1) = BoundedQosQueue_push q m now; (acc, rem, q2) = queue_run q1 ops
      in (if b then m # acc else acc, rem, q2))"
| "queue_run q (Pop now # ops) =
     (let (acc, rem, q1) = queue_run (snd (BoundedQosQueue_pop q now)) ops
      in (acc, pop_removed q now @ rem, q1))"

lemma pop_removed_order:
  assumes "queue_inv q"
  shows "queue_order q = pop_removed q now @ queue_order (snd (BoundedQosQueue_pop q now))"
proof -
  let ?P = "\<lambda>m. expired m now"
  have pop: "fst (BoundedQosQueue_pop q now) = (case dropWhile ?P (queue_order q) of [] \<Rightarrow> None | m # _ \<Rightarrow> Some m)"
    "queue_order (snd (BoundedQosQueue_pop q now)) = tl (dropWhile ?P (queue_order q))"
    using pop_order [of q now] assms by (simp_all add: queue_inv_def)
  have "queue_order q = takeWhile ?P (queue_order q) @ dropWhile ?P (queue_order q)" by simp
  then show ?thesis
    unfolding pop_removed_def pop by (cases "dropWhile ?P (queue_order q)") (simp_all del: dropWhile_eq_Nil_conv)
qed

lemma critical_filter: "queue_inv q \<Longrightarrow> filter reliable (queue_order q) = q_critical q"
proof -
  assume inv: "queue_inv q"
  have "filter reliable (q_critical q) = q_critical q" and "filter reliable (q_events q) = []"
    using inv by (auto simp: queue_inv_def list_all_iff filter_empty_conv)
  moreover have "filter reliable (map snd (sort_key fst (q_state q))) = []"
    using inv is_state_not_reliable by (fastforce simp: queue_inv_def list_all_iff filter_empty_conv)
  ultimately show ?thesis by (simp add: queue_order_def)
qed

lemma queue_run_reliable:
  "queue_inv q \<Longrightarrow> queue_run q ops = (acc, rem, q') \<Longrightarrow>
     q_critical q @ filter reliable acc = filter reliable rem @ q_critical q'"
proof (induction q ops arbitrary: acc rem q' rule: queue_run.induct)
  case (1 q)
  then show ?case by simp
next
  case (2 q m now ops)
  obtain b q1 acc1 where push: "BoundedQosQueue_push q m now = (b, q1)"
    and run: "queue_run q1 ops = (acc1, rem, q')" and acc: "acc = (if b then m # acc1 else acc1)"
    using 2(3) by (auto split: prod.splits)
  have inv: "queue_inv q1" using push_inv [OF 2(2) push] by simp
  have "BoundedQosQueue_size q \<le> q_capacity q" using 2(2) by (simp add: queue_inv_def)
  from push_lanes [OF this push] have
    "q_critical q1 = q_critical q @ (if b \<and> reliable m then [m] else [])"
    by (cases b) (simp_all add: pushed_lanes_def)
  then show ?case using 2(1) [OF push [symmetric] refl inv run] acc
    by (cases b; cases "reliable m") simp_all
next
  case (3 q now ops)
  let ?q = "snd (BoundedQosQueue_pop q now)"
  obtain rem1 where run: "queue_run ?q ops = (acc, rem1, q')" and rem: "rem = pop_removed q now @ rem1"
    using 3(3) by (auto split: prod.splits)
  have inv: "queue_inv ?q" using pop_inv [OF 3(2)] by simp
  have "filter reliable (queue_order q) = filter reliable (pop_removed q now) @ filter reliable (queue_order ?q)"
    using pop_removed_order [OF 3(2), of now] by (metis filter_append)
  then have "q_critical q = filter reliable (pop_removed q now) @ q_critical ?q"
    using critical_filter 3(2) inv by simp
  then show ?case using 3(1) [OF inv run] rem by simp
qed


section \<open>Properties\<close>

text \<open>
  C20: The queue refines a list. In terms of the order in which messages leave (reliable messages
  first in, first out; then events, first in, first out; then the state streams by increasing key),
  \<open>pop\<close> discards the expired messages at the front, returns the next one if there is one and leaves
  the rest; it counts each discarded message. It always returns, the message it returns has not
  expired, and it finds nothing exactly when everything queued has expired. The result does not
  depend on the iteration order of the hash map.
\<close>

theorem pop_refines_list:
  assumes "queue_inv q" and "BoundedQosQueue_pop q now = (r, q')"
  shows "r = (case dropWhile (\<lambda>m. expired m now) (queue_order q) of [] \<Rightarrow> None | m # _ \<Rightarrow> Some m) \<and>
    queue_order q' = tl (dropWhile (\<lambda>m. expired m now) (queue_order q)) \<and>
    qm_expired (q_metrics q') = qm_expired (q_metrics q) +
      of_nat (length (takeWhile (\<lambda>m. expired m now) (queue_order q))) \<and>
    (r = None \<longleftrightarrow> (\<forall>m\<in>set (queue_order q). expired m now)) \<and>
    (\<forall>m. r = Some m \<longrightarrow> \<not> expired m now)"
proof (intro conjI allI impI)
  have keys: "distinct (map fst (q_state q))" using assms(1) by (simp add: queue_inv_def)
  show "r = (case dropWhile (\<lambda>m. expired m now) (queue_order q) of [] \<Rightarrow> None | m # _ \<Rightarrow> Some m)"
    and "queue_order q' = tl (dropWhile (\<lambda>m. expired m now) (queue_order q))"
    and "qm_expired (q_metrics q') = qm_expired (q_metrics q) +
      of_nat (length (takeWhile (\<lambda>m. expired m now) (queue_order q)))"
    using pop_order [OF keys, of now] assms(2) by simp_all
  show "r = None \<longleftrightarrow> (\<forall>m\<in>set (queue_order q). expired m now)"
    by (rule qos_queue.pop_None_iff [OF assms])
  show "\<not> expired m now" if "r = Some m" for m
    using qos_queue.pop_live [OF assms(1)] assms(2) that by blast
qed

definition example_message :: "MessageType \<Rightarrow> Qos \<Rightarrow> u16 \<Rightarrow> NativeMessage" where
  "example_message t qos deadline = \<lparr>m_header = default_header\<lparr>h_type := t, h_qos := qos,
     h_source_id := 1, h_deadline_ms := deadline\<rparr>, m_payload = replicate 768 0, m_length = 1\<rparr>"

definition example_queue :: BoundedQosQueue where
  "example_queue = (new_BoundedQosQueue 2)\<lparr>
     q_critical := [example_message MT_CommandAck Qos_CriticalReliable 10],
     q_events := [example_message MT_DiagnosticEvent Qos_TelemetryBestEffort 0]\<rparr>"

lemma example_queue_inv: "queue_inv example_queue"
  by (simp add: queue_inv_def example_queue_def new_BoundedQosQueue_def BoundedQosQueue_size_def
      example_message_def reliable_def is_state_def queue_order_def wire_consts)

theorem pop_refines_list_witness:
  "fst (BoundedQosQueue_pop example_queue 20) =
     Some (example_message MT_DiagnosticEvent Qos_TelemetryBestEffort 0)"
  using pop_refines_list [OF example_queue_inv, of 20 "fst (BoundedQosQueue_pop example_queue 20)"
      "snd (BoundedQosQueue_pop example_queue 20)"]
  by (simp add: example_queue_def new_BoundedQosQueue_def queue_order_def expired_def example_message_def)

text \<open>
  C21: What \<open>push\<close> accepts and what it displaces. A message is accepted exactly if the capacity is not
  zero, its length fits, it has not expired, and there is room for it: the queue is not full, or the
  message replaces the state of its own stream, or it is not a reliable message and there is an event
  to give up. A refused message leaves the three lanes as they are. An accepted one is appended to
  its lane, or becomes the only entry of its stream; at most the oldest event is displaced, and no
  reliable message and no other stream ever is.
\<close>

theorem push_accepts_and_displaces:
  assumes "queue_inv q" and "BoundedQosQueue_push q m now = (ok, q')"
  shows "(ok \<longleftrightarrow> q_capacity q \<noteq> 0 \<and> m_length m \<le> kMaxPayloadBytes \<and> \<not> expired m now \<and>
      (BoundedQosQueue_size q < q_capacity q \<or> is_state m \<and> map_of (q_state q) (stream_key m) \<noteq> None \<or>
       \<not> reliable m \<and> q_events q \<noteq> [])) \<and>
    (\<not> ok \<longrightarrow> q_critical q' = q_critical q \<and> q_events q' = q_events q \<and> q_state q' = q_state q) \<and>
    (ok \<longrightarrow> q_critical q' = q_critical q @ (if reliable m then [m] else []) \<and>
      map_of (q_state q') = (if is_state m then (map_of (q_state q))(stream_key m \<mapsto> m) else map_of (q_state q)) \<and>
      q_events q' = (if BoundedQosQueue_size q < q_capacity q \<or>
          is_state m \<and> map_of (q_state q) (stream_key m) \<noteq> None then q_events q else tl (q_events q)) @
        (if reliable m \<or> is_state m then [] else [m]))"
proof -
  have size: "BoundedQosQueue_size q \<le> q_capacity q" using assms(1) by (simp add: queue_inv_def)
  have key: "map_of (q_state q) (stream_key m) \<noteq> None \<longleftrightarrow> stream_key m \<in> fst ` set (q_state q)"
    by (simp add: map_of_eq_None_iff)
  have room: "push_needs_room q m \<longleftrightarrow> \<not> (BoundedQosQueue_size q < q_capacity q \<or>
      is_state m \<and> map_of (q_state q) (stream_key m) \<noteq> None)"
    unfolding key push_needs_room_def by auto
  have state: "map_of (q_state q') = (if is_state m then (map_of (q_state q))(stream_key m \<mapsto> m)
      else map_of (q_state q))" if "pushed_lanes q m q'"
    using that map_of_update [of "stream_key m" "q_state q" m] unfolding pushed_lanes_def
    by (simp split: if_splits)
  show ?thesis
    using push_lanes [OF size assms(2)] state
    unfolding push_accepts_def pushed_lanes_def room by auto
qed

text \<open>
  C22: The capacity is never exceeded and the lanes stay sorted. Whatever calls of \<open>push\<close>, \<open>pop\<close> and
  \<open>clear\<close> are made on a fresh queue, its size is at most the capacity, the state lane has one entry
  per stream, filed under the key of its message, and every message is in the lane of its class.
\<close>

theorem queue_bounded:
  assumes "queue_step\<^sup>*\<^sup>* (new_BoundedQosQueue n) q"
  shows "BoundedQosQueue_size q \<le> n \<and> distinct (map fst (q_state q)) \<and>
    (\<forall>(k, m)\<in>set (q_state q). is_state m \<and> k = stream_key m) \<and>
    list_all reliable (q_critical q) \<and> list_all (\<lambda>m. \<not> reliable m \<and> \<not> is_state m) (q_events q) \<and>
    list_all (\<lambda>m. m_length m \<le> kMaxPayloadBytes) (queue_order q)"
  using queue_runs.inv_reachable [OF refl assms] by (auto simp: queue_inv_def list_all_iff)

theorem queue_bounded_witness:
  "\<exists>q. queue_step\<^sup>*\<^sup>* (new_BoundedQosQueue 1) q \<and> BoundedQosQueue_size q \<le> 1"
proof -
  have "queue_step\<^sup>*\<^sup>* (new_BoundedQosQueue 1)
      (snd (BoundedQosQueue_push (new_BoundedQosQueue 1) (example_message MT_Position Qos_StateLatest 0) 5))"
    by (rule r_into_rtranclp, rule queue_step.push) (rule surjective_pairing)
  from queue_bounded [OF this] this show ?thesis by blast
qed

text \<open>
  C23: Reliable messages are neither lost nor reordered. Over any sequence of pushes and pops on a
  fresh queue, the reliable messages that were accepted are, in the same order, the ones that came
  out (returned, or discarded because their deadline had passed) followed by the ones still queued.
\<close>

theorem reliable_fifo:
  assumes "queue_run (new_BoundedQosQueue n) ops = (accepted, removed, q)"
  shows "filter reliable accepted = filter reliable removed @ q_critical q"
  using queue_run_reliable [OF new_queue(1) assms] by (simp add: new_BoundedQosQueue_def)

theorem reliable_fifo_witness:
  "\<exists>accepted removed q. queue_run (new_BoundedQosQueue 4)
      [Push (example_message MT_CommandAck Qos_CriticalReliable 10) 0, Pop 5] = (accepted, removed, q) \<and>
    filter reliable accepted = filter reliable removed @ q_critical q"
  using reliable_fifo by (metis prod_cases3)

theorem push_accepts_and_displaces_witness:
  "fst (BoundedQosQueue_push example_queue (example_message MT_Position Qos_StateLatest 0) 5)"
  using push_accepts_and_displaces [OF example_queue_inv surjective_pairing,
      of "example_message MT_Position Qos_StateLatest 0" 5]
  by (simp add: example_queue_def new_BoundedQosQueue_def example_message_def wire_consts expired_def reliable_def)

text \<open>
  A stream key identifies the stream. Two messages share a key, and so overwrite each other as
  latest state, exactly if they agree on the type byte and on the source and resource identifiers of
  their payload (of the header, with resource 0, for a payload without valid metadata).
\<close>

theorem stream_key_identifies_stream: "stream_key m = stream_key m' \<longleftrightarrow> stream_of m = stream_of m'"
  by (rule stream_key_eq_iff)

end
