(* ===== verification/Publisher.thy ===== *)
theory Publisher
  imports Messages
begin

text \<open>
  The state publisher of \<^verbatim>\<open>include/new_mavlink/publisher.hpp\<close> and \<^verbatim>\<open>src/publisher.cpp\<close>: it keeps
  the latest position, attitude and battery state with a generation counter each, emits a delta
  when a value changed and full snapshots every period. A \<open>build\<close> operation returns \<open>None\<close> for
  \<^verbatim>\<open>false\<close>; \<open>poll\<close> returns the messages in the slots it reports as filled (what a failed \<open>build\<close>
  leaves in the next slot is overwritten or never reported). The locale \<open>state_stream\<close> is the
  contract the three kinds of state share.
\<close>

section \<open>Structures\<close>

definition kHelpfulSnapshotPeriodMs :: u64 where "kHelpfulSnapshotPeriodMs = 10000"
definition kMaxHelpfulSnapshotMessages :: nat where "kMaxHelpfulSnapshotMessages = 3"

datatype PublishKind = OnChange | HelpfulSnapshot

record PublishedMessage =
  pm_message :: NativeMessage
  pm_kind :: PublishKind

definition default_meta :: StateMeta where
  "default_meta = \<lparr>sm_resource_id = 0, sm_generation = 0, sm_base_generation = 0, sm_source_id = 0,
     sm_snapshot = 0, sm_reserved = 0\<rparr>"

definition default_message :: NativeMessage where
  "default_message = \<lparr>m_header = default_header, m_payload = replicate kMaxPayloadBytes 0, m_length = 0\<rparr>"

record HelpfulState =
  hs_has_position :: bool
  hs_has_attitude :: bool
  hs_has_battery :: bool
  hs_position :: Position
  hs_attitude :: Attitude
  hs_battery :: Battery

definition default_state :: HelpfulState where
  "default_state = \<lparr>hs_has_position = False, hs_has_attitude = False, hs_has_battery = False,
     hs_position = \<lparr>p_meta = default_meta, p_latitude_e7 = 0, p_longitude_e7 = 0, p_altitude_mm = 0\<rparr>,
     hs_attitude = \<lparr>a_meta = default_meta, a_roll_urad = 0, a_pitch_urad = 0, a_yaw_urad = 0\<rparr>,
     hs_battery = \<lparr>b_meta = default_meta, b_voltage_mv = 0, b_current_ma = 0, b_remaining_permille = 0,
       b_reserved = 0\<rparr>\<rparr>"

record StatePublisher =
  sp_source_id :: u16
  sp_destination_id :: u16
  sp_snapshot_period_ms :: u64
  sp_next_snapshot_ms :: u64
  sp_state :: HelpfulState
  sp_position_generation :: u32
  sp_attitude_generation :: u32
  sp_battery_generation :: u32
  sp_position_dirty :: bool
  sp_attitude_dirty :: bool
  sp_battery_dirty :: bool

section \<open>Operations\<close>

definition next_generation :: "u32 \<Rightarrow> u32" where
  "next_generation current = (if current = - 1 then current else current + 1)"

definition prepare_header :: "MessageType \<Rightarrow> u16 \<Rightarrow> u16 \<Rightarrow> bool \<Rightarrow> NativeMessage" where
  "prepare_header type src destination snapshot =
     default_message\<lparr>m_header := default_header\<lparr>h_type := type, h_qos := Qos_StateLatest,
       h_source_id := src, h_destination_id := destination,
       h_flags := (if snapshot then kFlagSnapshot else kFlagDelta)\<rparr>\<rparr>"

definition new_StatePublisher :: "u16 \<Rightarrow> u16 \<Rightarrow> u64 \<Rightarrow> StatePublisher" where
  "new_StatePublisher source_id destination_id snapshot_period_ms =
     \<lparr>sp_source_id = source_id, sp_destination_id = destination_id,
      sp_snapshot_period_ms =
        (if snapshot_period_ms = 0 then kHelpfulSnapshotPeriodMs else snapshot_period_ms),
      sp_next_snapshot_ms = 0, sp_state = default_state, sp_position_generation = 0,
      sp_attitude_generation = 0, sp_battery_generation = 0, sp_position_dirty = False,
      sp_attitude_dirty = False, sp_battery_dirty = False\<rparr>"

definition changed_position :: "StatePublisher \<Rightarrow> Position \<Rightarrow> bool" where
  "changed_position p value =
     (if \<not> hs_has_position (sp_state p) then True
      else
        let old = hs_position (sp_state p)
        in sm_resource_id (p_meta old) \<noteq> sm_resource_id (p_meta value) \<or>
            sm_source_id (p_meta old) \<noteq> sm_source_id (p_meta value) \<or>
            p_latitude_e7 old \<noteq> p_latitude_e7 value \<or>
            p_longitude_e7 old \<noteq> p_longitude_e7 value \<or>
            p_altitude_mm old \<noteq> p_altitude_mm value)"

definition changed_attitude :: "StatePublisher \<Rightarrow> Attitude \<Rightarrow> bool" where
  "changed_attitude p value =
     (if \<not> hs_has_attitude (sp_state p) then True
      else
        let old = hs_attitude (sp_state p)
        in sm_resource_id (a_meta old) \<noteq> sm_resource_id (a_meta value) \<or>
            sm_source_id (a_meta old) \<noteq> sm_source_id (a_meta value) \<or>
            a_roll_urad old \<noteq> a_roll_urad value \<or>
            a_pitch_urad old \<noteq> a_pitch_urad value \<or>
            a_yaw_urad old \<noteq> a_yaw_urad value)"

definition changed_battery :: "StatePublisher \<Rightarrow> Battery \<Rightarrow> bool" where
  "changed_battery p value =
     (if \<not> hs_has_battery (sp_state p) then True
      else
        let old = hs_battery (sp_state p)
        in sm_resource_id (b_meta old) \<noteq> sm_resource_id (b_meta value) \<or>
            sm_source_id (b_meta old) \<noteq> sm_source_id (b_meta value) \<or>
            b_voltage_mv old \<noteq> b_voltage_mv value \<or>
            b_current_ma old \<noteq> b_current_ma value \<or>
            b_remaining_permille old \<noteq> b_remaining_permille value)"

definition update_position :: "StatePublisher \<Rightarrow> Position \<Rightarrow> u64 \<Rightarrow> bool \<times> StatePublisher" where
  "update_position p value now_ms =
     (if \<not> changed_position p value then (False, p)
      else
        let previous = (if hs_has_position (sp_state p) then sp_position_generation p else 0);
            generation = next_generation (sp_position_generation p);
            meta = (p_meta value)\<lparr>
              sm_source_id := (if sm_source_id (p_meta value) = 0 then sp_source_id p
                               else sm_source_id (p_meta value)),
              sm_generation := generation, sm_base_generation := previous, sm_snapshot := 0\<rparr>
        in (True, p\<lparr>
              sp_state := (sp_state p)\<lparr>hs_position := value\<lparr>p_meta := meta\<rparr>, hs_has_position := True\<rparr>,
              sp_position_generation := generation, sp_position_dirty := True,
              sp_next_snapshot_ms := (if sp_next_snapshot_ms p = 0 then now_ms + sp_snapshot_period_ms p
                                      else sp_next_snapshot_ms p)\<rparr>))"

definition update_attitude :: "StatePublisher \<Rightarrow> Attitude \<Rightarrow> u64 \<Rightarrow> bool \<times> StatePublisher" where
  "update_attitude p value now_ms =
     (if \<not> changed_attitude p value then (False, p)
      else
        let previous = (if hs_has_attitude (sp_state p) then sp_attitude_generation p else 0);
            generation = next_generation (sp_attitude_generation p);
            meta = (a_meta value)\<lparr>
              sm_source_id := (if sm_source_id (a_meta value) = 0 then sp_source_id p
                               else sm_source_id (a_meta value)),
              sm_generation := generation, sm_base_generation := previous, sm_snapshot := 0\<rparr>
        in (True, p\<lparr>
              sp_state := (sp_state p)\<lparr>hs_attitude := value\<lparr>a_meta := meta\<rparr>, hs_has_attitude := True\<rparr>,
              sp_attitude_generation := generation, sp_attitude_dirty := True,
              sp_next_snapshot_ms := (if sp_next_snapshot_ms p = 0 then now_ms + sp_snapshot_period_ms p
                                      else sp_next_snapshot_ms p)\<rparr>))"

definition update_battery :: "StatePublisher \<Rightarrow> Battery \<Rightarrow> u64 \<Rightarrow> bool \<times> StatePublisher" where
  "update_battery p value now_ms =
     (if \<not> changed_battery p value then (False, p)
      else
        let previous = (if hs_has_battery (sp_state p) then sp_battery_generation p else 0);
            generation = next_generation (sp_battery_generation p);
            meta = (b_meta value)\<lparr>
              sm_source_id := (if sm_source_id (b_meta value) = 0 then sp_source_id p
                               else sm_source_id (b_meta value)),
              sm_generation := generation, sm_base_generation := previous, sm_snapshot := 0\<rparr>
        in (True, p\<lparr>
              sp_state := (sp_state p)\<lparr>hs_battery := value\<lparr>b_meta := meta\<rparr>, hs_has_battery := True\<rparr>,
              sp_battery_generation := generation, sp_battery_dirty := True,
              sp_next_snapshot_ms := (if sp_next_snapshot_ms p = 0 then now_ms + sp_snapshot_period_ms p
                                      else sp_next_snapshot_ms p)\<rparr>))"

definition build_position :: "StatePublisher \<Rightarrow> bool \<Rightarrow> PublishedMessage option" where
  "build_position p snapshot =
     (if \<not> hs_has_position (sp_state p) then None
      else
        let message = prepare_header MT_Position (sp_source_id p) (sp_destination_id p) snapshot;
            value = hs_position (sp_state p);
            value = value\<lparr>p_meta := (p_meta value)\<lparr>sm_snapshot := (if snapshot then 1 else 0),
              sm_base_generation := (if snapshot then 0 else sm_base_generation (p_meta value))\<rparr>\<rparr>
        in case encode_position value (Some (m_payload message)) kMaxPayloadBytes of
             None \<Rightarrow> None
           | Some payload \<Rightarrow>
               Some \<lparr>pm_message = message\<lparr>m_payload := payload, m_length := kPositionBytes\<rparr>,
                     pm_kind = (if snapshot then HelpfulSnapshot else OnChange)\<rparr>)"

definition build_attitude :: "StatePublisher \<Rightarrow> bool \<Rightarrow> PublishedMessage option" where
  "build_attitude p snapshot =
     (if \<not> hs_has_attitude (sp_state p) then None
      else
        let message = prepare_header MT_Attitude (sp_source_id p) (sp_destination_id p) snapshot;
            value = hs_attitude (sp_state p);
            value = value\<lparr>a_meta := (a_meta value)\<lparr>sm_snapshot := (if snapshot then 1 else 0),
              sm_base_generation := (if snapshot then 0 else sm_base_generation (a_meta value))\<rparr>\<rparr>
        in case encode_attitude value (Some (m_payload message)) kMaxPayloadBytes of
             None \<Rightarrow> None
           | Some payload \<Rightarrow>
               Some \<lparr>pm_message = message\<lparr>m_payload := payload, m_length := kAttitudeBytes\<rparr>,
                     pm_kind = (if snapshot then HelpfulSnapshot else OnChange)\<rparr>)"

definition build_battery :: "StatePublisher \<Rightarrow> bool \<Rightarrow> PublishedMessage option" where
  "build_battery p snapshot =
     (if \<not> hs_has_battery (sp_state p) then None
      else
        let message = prepare_header MT_Battery (sp_source_id p) (sp_destination_id p) snapshot;
            value = hs_battery (sp_state p);
            value = value\<lparr>b_meta := (b_meta value)\<lparr>sm_snapshot := (if snapshot then 1 else 0),
              sm_base_generation := (if snapshot then 0 else sm_base_generation (b_meta value))\<rparr>\<rparr>
        in case encode_battery value (Some (m_payload message)) kMaxPayloadBytes of
             None \<Rightarrow> None
           | Some payload \<Rightarrow>
               Some \<lparr>pm_message = message\<lparr>m_payload := payload, m_length := kBatteryBytes\<rparr>,
                     pm_kind = (if snapshot then HelpfulSnapshot else OnChange)\<rparr>)"

definition schedule_next_snapshot :: "StatePublisher \<Rightarrow> u64 \<Rightarrow> StatePublisher" where
  "schedule_next_snapshot p now_ms =
     (let period = sp_snapshot_period_ms p
      in if now_ms > - 1 - period then p\<lparr>sp_next_snapshot_ms := - 1\<rparr>
         else p\<lparr>sp_next_snapshot_ms := now_ms + period\<rparr>)"

text \<open>
  One guarded emission of \<open>poll\<close>: \<^verbatim>\<open>if (count < output_capacity && build(...)) ++count;\<close>. The
  second component says whether the message was built.
\<close>

definition emit :: "nat \<Rightarrow> PublishedMessage list \<Rightarrow> PublishedMessage option \<Rightarrow> PublishedMessage list \<times> bool" where
  "emit output_capacity out built =
     (if length out < output_capacity then
        (case built of None \<Rightarrow> (out, False) | Some m \<Rightarrow> (out @ [m], True))
      else (out, False))"

definition poll :: "StatePublisher \<Rightarrow> u64 \<Rightarrow> bool \<Rightarrow> nat \<Rightarrow> PublishedMessage list \<times> StatePublisher" where
  "poll p now_ms output_null output_capacity =
     (if output_null \<or> output_capacity = 0 then ([], p)
      else if sp_next_snapshot_ms p \<noteq> 0 \<and> now_ms \<ge> sp_next_snapshot_ms p then
        let out = fst (emit output_capacity [] (build_position p True));
            out = fst (emit output_capacity out (build_attitude p True));
            out = fst (emit output_capacity out (build_battery p True));
            p = p\<lparr>sp_position_dirty := False, sp_attitude_dirty := False, sp_battery_dirty := False\<rparr>
        in (out, schedule_next_snapshot p now_ms)
      else
        let (out, sent) = (if sp_position_dirty p then emit output_capacity [] (build_position p False)
                           else ([], False));
            p = (if sent then p\<lparr>sp_position_dirty := False\<rparr> else p);
            (out, sent) = (if sp_attitude_dirty p then emit output_capacity out (build_attitude p False)
                           else (out, False));
            p = (if sent then p\<lparr>sp_attitude_dirty := False\<rparr> else p);
            (out, sent) = (if sp_battery_dirty p then emit output_capacity out (build_battery p False)
                           else (out, False));
            p = (if sent then p\<lparr>sp_battery_dirty := False\<rparr> else p)
        in (out, p))"

lemma below_max:
  assumes "unat (g :: u32) + 2 < 2 ^ 32"
  shows "g \<noteq> - 1 \<and> g + 1 \<noteq> - 1"
proof -
  have "unat (- 1 :: u32) = 2 ^ 32 - 1" by (simp add: unsigned_minus_1_eq_mask mask_eq_exp_minus_1)
  moreover have "unat (g + 1) = unat g + 1" using assms by (simp add: unat_word_ariths)
  ultimately have "unat g \<noteq> unat (- 1 :: u32)" and "unat (g + 1) \<noteq> unat (- 1 :: u32)"
    using assms by simp_all
  then show ?thesis by metis
qed

section \<open>The contract of one state stream\<close>

text \<open>
  What the three \<open>update\<close> operations promise: an unchanged value is ignored; a changed one is stored
  with the next generation, based on the previous one, and marked dirty; and a value that names its
  source compares equal to its stored copy.
\<close>

locale state_stream =
  fixes update :: "StatePublisher \<Rightarrow> 'v \<Rightarrow> u64 \<Rightarrow> bool \<times> StatePublisher"
    and changed :: "StatePublisher \<Rightarrow> 'v \<Rightarrow> bool"
    and has :: "StatePublisher \<Rightarrow> bool"
    and dirty :: "StatePublisher \<Rightarrow> bool"
    and generation :: "StatePublisher \<Rightarrow> u32"
    and stored :: "StatePublisher \<Rightarrow> StateMeta"
    and meta_of :: "'v \<Rightarrow> StateMeta"
  assumes unchanged: "\<not> changed p v \<Longrightarrow> update p v now = (False, p)"
    and stores: "changed p v \<Longrightarrow> update p v now = (True, p') \<Longrightarrow>
      has p' \<and> dirty p' \<and> generation p' = next_generation (generation p) \<and>
      sm_generation (stored p') = generation p' \<and>
      sm_base_generation (stored p') = (if has p then generation p else 0) \<and>
      sm_source_id (stored p') =
        (if sm_source_id (meta_of v) = 0 then sp_source_id p else sm_source_id (meta_of v)) \<and>
      sp_source_id p' = sp_source_id p"
    and answers: "fst (update p v now) \<longleftrightarrow> changed p v"
    and settles: "changed p v \<Longrightarrow> update p v now = (True, p') \<Longrightarrow>
      changed p' v \<longleftrightarrow> sm_source_id (stored p') \<noteq> sm_source_id (meta_of v)"
begin

lemma on_change_once:
  assumes "sm_source_id (meta_of v) \<noteq> 0" and "update p v now = (b, p')"
  shows "update p' v later = (False, p')"
proof (cases "changed p v")
  case True
  then have "b" using answers assms(2) by (metis fst_conv)
  then have "\<not> changed p' v" using settles stores True assms by simp
  then show ?thesis by (rule unchanged)
next
  case False
  then show ?thesis using unchanged assms(2) by simp
qed

lemma unnamed_source_always_changes:
  assumes "sm_source_id (meta_of v) = 0" and "sp_source_id p \<noteq> 0" and "update p v now = (True, p')"
  shows "fst (update p' v later)"
proof -
  have "changed p v" using answers assms(3) by (metis fst_conv)
  then have "sm_source_id (stored p') = sp_source_id p" using stores assms by simp
  then have "changed p' v" using settles \<open>changed p v\<close> assms by simp
  then show ?thesis using answers by simp
qed

lemma two_changes:
  assumes "update p v now = (True, p1)" and "update p1 w later = (True, p2)"
    and "unat (generation p) + 2 < 2 ^ 32" and "has p"
  shows "sm_generation (stored p2) = generation p + 2 \<and> sm_base_generation (stored p2) = generation p + 1"
proof -
  have "changed p v" "changed p1 w" using answers assms(1,2) by (metis fst_conv)+
  then have g: "generation p1 = next_generation (generation p)" "has p1"
    "sm_generation (stored p2) = next_generation (generation p1)"
    "sm_base_generation (stored p2) = generation p1"
    using stores assms by simp_all
  have "generation p \<noteq> - 1" and "generation p + 1 \<noteq> - 1"
    using assms(3) below_max by simp_all
  then show ?thesis using g by (simp add: next_generation_def add.assoc)
qed

end

interpretation position_stream: state_stream update_position changed_position "\<lambda>p. hs_has_position (sp_state p)"
  sp_position_dirty sp_position_generation "\<lambda>p. p_meta (hs_position (sp_state p))" p_meta
  by unfold_locales (auto simp: update_position_def changed_position_def Let_def split: if_splits)

interpretation attitude_stream: state_stream update_attitude changed_attitude "\<lambda>p. hs_has_attitude (sp_state p)"
  sp_attitude_dirty sp_attitude_generation "\<lambda>p. a_meta (hs_attitude (sp_state p))" a_meta
  by unfold_locales (auto simp: update_attitude_def changed_attitude_def Let_def split: if_splits)

interpretation battery_stream: state_stream update_battery changed_battery "\<lambda>p. hs_has_battery (sp_state p)"
  sp_battery_dirty sp_battery_generation "\<lambda>p. b_meta (hs_battery (sp_state p))" b_meta
  by unfold_locales (auto simp: update_battery_def changed_battery_def Let_def split: if_splits)

section \<open>What a built message carries\<close>

text \<open>The metadata with which a stored value goes out.\<close>

definition stamped :: "bool \<Rightarrow> StateMeta \<Rightarrow> StateMeta" where
  "stamped snapshot m = m\<lparr>sm_snapshot := (if snapshot then 1 else 0),
     sm_base_generation := (if snapshot then 0 else sm_base_generation m)\<rparr>"

definition carries_header :: "StatePublisher \<Rightarrow> bool \<Rightarrow> MessageType \<Rightarrow> PublishedMessage \<Rightarrow> bool" where
  "carries_header p snapshot type m \<longleftrightarrow>
     m_header (pm_message m) = default_header\<lparr>h_type := type, h_qos := Qos_StateLatest,
       h_source_id := sp_source_id p, h_destination_id := sp_destination_id p,
       h_flags := (if snapshot then kFlagSnapshot else kFlagDelta)\<rparr> \<and>
     pm_kind m = (if snapshot then HelpfulSnapshot else OnChange) \<and>
     length (m_payload (pm_message m)) = kMaxPayloadBytes"

definition carries_state :: "StatePublisher \<Rightarrow> bool \<Rightarrow> PublishedMessage \<Rightarrow> bool" where
  "carries_state p snapshot m \<longleftrightarrow>
     (let payload = Some (m_payload (pm_message m)); len = m_length (pm_message m); s = sp_state p in
      carries_header p snapshot MT_Position m \<and> len = kPositionBytes \<and>
        decode_position payload len =
          Some ((hs_position s)\<lparr>p_meta := stamped snapshot (p_meta (hs_position s))\<rparr>) \<or>
      carries_header p snapshot MT_Attitude m \<and> len = kAttitudeBytes \<and>
        decode_attitude payload len =
          Some ((hs_attitude s)\<lparr>a_meta := stamped snapshot (a_meta (hs_attitude s))\<rparr>) \<or>
      carries_header p snapshot MT_Battery m \<and> len = kBatteryBytes \<and>
        decode_battery payload len =
          Some ((hs_battery s)\<lparr>b_meta := stamped snapshot (b_meta (hs_battery s))\<rparr>))"

definition position_sendable :: "StatePublisher \<Rightarrow> bool \<Rightarrow> bool" where
  "position_sendable p snapshot \<longleftrightarrow> hs_has_position (sp_state p) \<and>
     position_ok ((hs_position (sp_state p))\<lparr>p_meta := stamped snapshot (p_meta (hs_position (sp_state p)))\<rparr>)"

definition attitude_sendable :: "StatePublisher \<Rightarrow> bool \<Rightarrow> bool" where
  "attitude_sendable p snapshot \<longleftrightarrow> hs_has_attitude (sp_state p) \<and>
     attitude_ok ((hs_attitude (sp_state p))\<lparr>a_meta := stamped snapshot (a_meta (hs_attitude (sp_state p)))\<rparr>)"

definition battery_sendable :: "StatePublisher \<Rightarrow> bool \<Rightarrow> bool" where
  "battery_sendable p snapshot \<longleftrightarrow> hs_has_battery (sp_state p) \<and>
     battery_ok ((hs_battery (sp_state p))\<lparr>b_meta := stamped snapshot (b_meta (hs_battery (sp_state p)))\<rparr>)"

lemma build_position_cases:
  "if position_sendable p snapshot
   then \<exists>m. build_position p snapshot = Some m \<and> carries_header p snapshot MT_Position m \<and> carries_state p snapshot m
   else build_position p snapshot = None"
proof -
  let ?v = "(hs_position (sp_state p))\<lparr>p_meta := stamped snapshot (p_meta (hs_position (sp_state p)))\<rparr>"
  let ?buf = "replicate kMaxPayloadBytes (0 :: byte)"
  have big: "kPositionBytes \<le> length ?buf" by (simp add: message_consts wire_consts)
  have build: "build_position p snapshot = (if \<not> hs_has_position (sp_state p) then None
      else map_option (\<lambda>payload. \<lparr>pm_message = (prepare_header MT_Position (sp_source_id p)
          (sp_destination_id p) snapshot)\<lparr>m_payload := payload, m_length := kPositionBytes\<rparr>,
        pm_kind = (if snapshot then HelpfulSnapshot else OnChange)\<rparr>)
        (encode_position ?v (Some ?buf) kMaxPayloadBytes))"
    by (simp add: build_position_def Let_def stamped_def prepare_header_def default_message_def
        option.case_eq_if map_option_case)
  show ?thesis
  proof (cases "position_sendable p snapshot")
    case True
    then have ok: "position_ok ?v" and has: "hs_has_position (sp_state p)" by (simp_all add: position_sendable_def)
    obtain buf where "encode_position ?v (Some ?buf) kMaxPayloadBytes = Some buf" "length buf = kMaxPayloadBytes"
      "decode_position (Some buf) kPositionBytes = Some ?v"
      using position.encode_decode [OF ok, of kMaxPayloadBytes ?buf] big by auto
    then show ?thesis
      using True has by (simp add: build carries_header_def carries_state_def Let_def prepare_header_def)
  next
    case False
    then have "\<not> hs_has_position (sp_state p) \<or> \<not> position_ok ?v" by (simp add: position_sendable_def)
    then have "build_position p snapshot = None" using position.encode_invalid by (auto simp: build)
    then show ?thesis using False by simp
  qed
qed

lemma build_attitude_cases:
  "if attitude_sendable p snapshot
   then \<exists>m. build_attitude p snapshot = Some m \<and> carries_header p snapshot MT_Attitude m \<and> carries_state p snapshot m
   else build_attitude p snapshot = None"
proof -
  let ?v = "(hs_attitude (sp_state p))\<lparr>a_meta := stamped snapshot (a_meta (hs_attitude (sp_state p)))\<rparr>"
  let ?buf = "replicate kMaxPayloadBytes (0 :: byte)"
  have big: "kAttitudeBytes \<le> length ?buf" by (simp add: message_consts wire_consts)
  have build: "build_attitude p snapshot = (if \<not> hs_has_attitude (sp_state p) then None
      else map_option (\<lambda>payload. \<lparr>pm_message = (prepare_header MT_Attitude (sp_source_id p)
          (sp_destination_id p) snapshot)\<lparr>m_payload := payload, m_length := kAttitudeBytes\<rparr>,
        pm_kind = (if snapshot then HelpfulSnapshot else OnChange)\<rparr>)
        (encode_attitude ?v (Some ?buf) kMaxPayloadBytes))"
    by (simp add: build_attitude_def Let_def stamped_def prepare_header_def default_message_def
        option.case_eq_if map_option_case)
  show ?thesis
  proof (cases "attitude_sendable p snapshot")
    case True
    then have ok: "attitude_ok ?v" and has: "hs_has_attitude (sp_state p)" by (simp_all add: attitude_sendable_def)
    obtain buf where "encode_attitude ?v (Some ?buf) kMaxPayloadBytes = Some buf" "length buf = kMaxPayloadBytes"
      "decode_attitude (Some buf) kAttitudeBytes = Some ?v"
      using attitude.encode_decode [OF ok, of kMaxPayloadBytes ?buf] big by auto
    then show ?thesis
      using True has by (simp add: build carries_header_def carries_state_def Let_def prepare_header_def)
  next
    case False
    then have "\<not> hs_has_attitude (sp_state p) \<or> \<not> attitude_ok ?v" by (simp add: attitude_sendable_def)
    then have "build_attitude p snapshot = None" using attitude.encode_invalid by (auto simp: build)
    then show ?thesis using False by simp
  qed
qed

lemma build_battery_cases:
  "if battery_sendable p snapshot
   then \<exists>m. build_battery p snapshot = Some m \<and> carries_header p snapshot MT_Battery m \<and> carries_state p snapshot m
   else build_battery p snapshot = None"
proof -
  let ?v = "(hs_battery (sp_state p))\<lparr>b_meta := stamped snapshot (b_meta (hs_battery (sp_state p)))\<rparr>"
  let ?buf = "replicate kMaxPayloadBytes (0 :: byte)"
  have big: "kBatteryBytes \<le> length ?buf" by (simp add: message_consts wire_consts)
  have build: "build_battery p snapshot = (if \<not> hs_has_battery (sp_state p) then None
      else map_option (\<lambda>payload. \<lparr>pm_message = (prepare_header MT_Battery (sp_source_id p)
          (sp_destination_id p) snapshot)\<lparr>m_payload := payload, m_length := kBatteryBytes\<rparr>,
        pm_kind = (if snapshot then HelpfulSnapshot else OnChange)\<rparr>)
        (encode_battery ?v (Some ?buf) kMaxPayloadBytes))"
    by (simp add: build_battery_def Let_def stamped_def prepare_header_def default_message_def
        option.case_eq_if map_option_case)
  show ?thesis
  proof (cases "battery_sendable p snapshot")
    case True
    then have ok: "battery_ok ?v" and has: "hs_has_battery (sp_state p)" by (simp_all add: battery_sendable_def)
    obtain buf where "encode_battery ?v (Some ?buf) kMaxPayloadBytes = Some buf" "length buf = kMaxPayloadBytes"
      "decode_battery (Some buf) kBatteryBytes = Some ?v"
      using battery.encode_decode [OF ok, of kMaxPayloadBytes ?buf] big by auto
    then show ?thesis
      using True has by (simp add: build carries_header_def carries_state_def Let_def prepare_header_def)
  next
    case False
    then have "\<not> hs_has_battery (sp_state p) \<or> \<not> battery_ok ?v" by (simp add: battery_sendable_def)
    then have "build_battery p snapshot = None" using battery.encode_invalid by (auto simp: build)
    then show ?thesis using False by simp
  qed
qed

lemma build_iff:
  "build_position p s \<noteq> None \<longleftrightarrow> position_sendable p s"
  "build_attitude p s \<noteq> None \<longleftrightarrow> attitude_sendable p s"
  "build_battery p s \<noteq> None \<longleftrightarrow> battery_sendable p s"
  using build_position_cases [of p s] build_attitude_cases [of p s] build_battery_cases [of p s]
  by (auto split: if_splits)

lemma build_carries:
  "build_position p s = Some m \<Longrightarrow> carries_header p s MT_Position m \<and> carries_state p s m"
  "build_attitude p s = Some m \<Longrightarrow> carries_header p s MT_Attitude m \<and> carries_state p s m"
  "build_battery p s = Some m \<Longrightarrow> carries_header p s MT_Battery m \<and> carries_state p s m"
  using build_position_cases [of p s] build_attitude_cases [of p s] build_battery_cases [of p s]
  by (auto split: if_splits)

section \<open>Poll\<close>

fun kind_dirty :: "StatePublisher \<Rightarrow> MessageType \<Rightarrow> bool" where
  "kind_dirty p MT_Position = sp_position_dirty p"
| "kind_dirty p MT_Attitude = sp_attitude_dirty p"
| "kind_dirty p MT_Battery = sp_battery_dirty p"
| "kind_dirty p _ = False"

fun kind_sendable :: "StatePublisher \<Rightarrow> bool \<Rightarrow> MessageType \<Rightarrow> bool" where
  "kind_sendable p snapshot MT_Position = position_sendable p snapshot"
| "kind_sendable p snapshot MT_Attitude = attitude_sendable p snapshot"
| "kind_sendable p snapshot MT_Battery = battery_sendable p snapshot"
| "kind_sendable p snapshot _ = False"

definition snapshot_due :: "StatePublisher \<Rightarrow> u64 \<Rightarrow> bool" where
  "snapshot_due p now \<longleftrightarrow> sp_next_snapshot_ms p \<noteq> 0 \<and> now \<ge> sp_next_snapshot_ms p"

text \<open>The kinds a poll should report, in order: all that can be sent when due, else the dirty ones.\<close>

definition wanted :: "StatePublisher \<Rightarrow> bool \<Rightarrow> MessageType list" where
  "wanted p due = filter (\<lambda>t. (due \<or> kind_dirty p t) \<and> kind_sendable p due t)
     [MT_Position, MT_Attitude, MT_Battery]"

abbreviation published_type :: "PublishedMessage \<Rightarrow> MessageType" where
  "published_type m \<equiv> h_type (m_header (pm_message m))"

lemma carries_type: "carries_header p s t m \<Longrightarrow> published_type m = t"
  by (simp add: carries_header_def)

lemma emit_eq:
  "emit cap out b = (if length out < cap then (out @ (case b of None \<Rightarrow> [] | Some m \<Rightarrow> [m]), b \<noteq> None)
     else (out, False))"
  by (simp add: emit_def split: option.split)

text \<open>One guarded emission of a poll, and a poll as three of them.\<close>

definition stage :: "nat \<Rightarrow> bool \<Rightarrow> PublishedMessage option \<Rightarrow> PublishedMessage list \<Rightarrow> PublishedMessage list \<times> bool" where
  "stage cap d b out = (if d then emit cap out b else (out, False))"

lemma stage_types:
  assumes "stage cap d b out = (out', sent)" and "map f out = take cap w"
    and "list_all P out" and "\<And>m. b = Some m \<Longrightarrow> f m = t \<and> P m"
  shows "map f out' = take cap (w @ (if d \<and> b \<noteq> None then [t] else [])) \<and>
    (sent \<longleftrightarrow> d \<and> b \<noteq> None \<and> length w < cap) \<and> list_all P out'"
proof -
  have "length out = min (length w) cap" using assms(2) by (metis length_map length_take)
  then show ?thesis
    using assms by (cases b) (auto simp: stage_def emit_eq split: if_splits)
qed

lemma poll_due:
  assumes "0 < cap" and "snapshot_due p now"
  shows "map published_type (fst (poll p now False cap)) = take cap (wanted p True) \<and>
    list_all (carries_state p True) (fst (poll p now False cap)) \<and>
    snd (poll p now False cap) = schedule_next_snapshot
      (p\<lparr>sp_position_dirty := False, sp_attitude_dirty := False, sp_battery_dirty := False\<rparr>) now"
proof -
  let ?x = "build_position p True" and ?y = "build_attitude p True" and ?z = "build_battery p True"
  let ?P = "carries_state p True"
  obtain o1 s1 where 1: "stage cap True ?x [] = (o1, s1)" by fastforce
  obtain o2 s2 where 2: "stage cap True ?y o1 = (o2, s2)" by fastforce
  obtain o3 s3 where 3: "stage cap True ?z o2 = (o3, s3)" by fastforce
  define w1 where "w1 = (if ?x \<noteq> None then [MT_Position] else [])"
  define w2 where "w2 = (if ?y \<noteq> None then [MT_Attitude] else [])"
  define w3 where "w3 = (if ?z \<noteq> None then [MT_Battery] else [])"
  have t: "?x = Some m \<Longrightarrow> published_type m = MT_Position \<and> ?P m"
    "?y = Some m \<Longrightarrow> published_type m = MT_Attitude \<and> ?P m"
    "?z = Some m \<Longrightarrow> published_type m = MT_Battery \<and> ?P m" for m
    using build_carries [of p True m] carries_type [of p True _ m] by auto
  have st1: "map published_type o1 = take cap w1 \<and> list_all ?P o1"
    using stage_types [OF 1, of published_type "[]" ?P MT_Position] t(1) by (simp add: w1_def)
  have st2: "map published_type o2 = take cap (w1 @ w2) \<and> list_all ?P o2"
    using stage_types [OF 2, of published_type w1 ?P MT_Attitude] t(2) st1 by (simp add: w2_def)
  have st3: "map published_type o3 = take cap (w1 @ w2 @ w3) \<and> list_all ?P o3"
    using stage_types [OF 3, of published_type "w1 @ w2" ?P MT_Battery] t(3) st2 by (simp add: w3_def)
  have want: "wanted p True = w1 @ w2 @ w3"
    unfolding w1_def w2_def w3_def build_iff by (simp add: wanted_def)
  have due: "(sp_next_snapshot_ms p \<noteq> 0 \<and> sp_next_snapshot_ms p \<le> now) = True"
    and some_room: "(cap = 0) = False"
    using assms by (auto simp: snapshot_due_def)
  have emits: "emit cap [] ?x = (o1, s1)" "emit cap o1 ?y = (o2, s2)" "emit cap o2 ?z = (o3, s3)"
    using 1 2 3 by (simp_all add: stage_def)
  have "poll p now False cap = (o3, schedule_next_snapshot
      (p\<lparr>sp_position_dirty := False, sp_attitude_dirty := False, sp_battery_dirty := False\<rparr>) now)"
    unfolding poll_def due some_room by (simp only: if_False if_True simp_thms Let_def emits fst_conv)
  then show ?thesis using st3 want by simp
qed

lemma poll_stages:
  assumes "0 < cap" and "\<not> snapshot_due p now"
    and 1: "stage cap (sp_position_dirty p) (build_position p False) [] = (o1, s1)"
    and 2: "stage cap (sp_attitude_dirty p) (build_attitude p False) o1 = (o2, s2)"
    and 3: "stage cap (sp_battery_dirty p) (build_battery p False) o2 = (o3, s3)"
  shows "poll p now False cap = (o3, p\<lparr>sp_position_dirty := sp_position_dirty p \<and> \<not> s1,
    sp_attitude_dirty := sp_attitude_dirty p \<and> \<not> s2, sp_battery_dirty := sp_battery_dirty p \<and> \<not> s3\<rparr>)"
proof -
  have not_due: "(sp_next_snapshot_ms p \<noteq> 0 \<and> sp_next_snapshot_ms p \<le> now) = False"
    and some_room: "(cap = 0) = False"
    using assms(1,2) by (auto simp: snapshot_due_def)
  define p1 where "p1 = (if s1 then p\<lparr>sp_position_dirty := False\<rparr> else p)"
  define p2 where "p2 = (if s2 then p1\<lparr>sp_attitude_dirty := False\<rparr> else p1)"
  define p3 where "p3 = (if s3 then p2\<lparr>sp_battery_dirty := False\<rparr> else p2)"
  have a: "build_attitude p1 False = build_attitude p False" "sp_attitude_dirty p1 = sp_attitude_dirty p"
    by (simp_all add: p1_def build_attitude_def)
  have b: "build_battery p2 False = build_battery p False" "sp_battery_dirty p2 = sp_battery_dirty p"
    by (simp_all add: p1_def p2_def build_battery_def)
  have "poll p now False cap =
     (let (out, sent) = stage cap (sp_position_dirty p) (build_position p False) [];
          p = (if sent then p\<lparr>sp_position_dirty := False\<rparr> else p);
          (out, sent) = stage cap (sp_attitude_dirty p) (build_attitude p False) out;
          p = (if sent then p\<lparr>sp_attitude_dirty := False\<rparr> else p);
          (out, sent) = stage cap (sp_battery_dirty p) (build_battery p False) out;
          p = (if sent then p\<lparr>sp_battery_dirty := False\<rparr> else p)
      in (out, p))"
    unfolding poll_def stage_def not_due some_room by (simp only: if_False simp_thms)
  also have "\<dots> = (o3, p3)"
    by (simp only: Let_def 1 prod.case p1_def [symmetric] a 2 p2_def [symmetric] b 3 p3_def [symmetric])
  finally have "poll p now False cap = (o3, p3)" .
  moreover have "p3 = p\<lparr>sp_position_dirty := sp_position_dirty p \<and> \<not> s1,
    sp_attitude_dirty := sp_attitude_dirty p \<and> \<not> s2, sp_battery_dirty := sp_battery_dirty p \<and> \<not> s3\<rparr>"
    by (cases p) (simp add: p1_def p2_def p3_def)
  ultimately show ?thesis by simp
qed

lemma poll_change:
  assumes "0 < cap" and "\<not> snapshot_due p now"
  shows "map published_type (fst (poll p now False cap)) = take cap (wanted p False) \<and>
    list_all (carries_state p False) (fst (poll p now False cap)) \<and>
    snd (poll p now False cap) = p\<lparr>
      sp_position_dirty := sp_position_dirty p \<and> MT_Position \<notin> set (take cap (wanted p False)),
      sp_attitude_dirty := sp_attitude_dirty p \<and> MT_Attitude \<notin> set (take cap (wanted p False)),
      sp_battery_dirty := sp_battery_dirty p \<and> MT_Battery \<notin> set (take cap (wanted p False))\<rparr>"
proof -
  let ?x = "build_position p False" and ?y = "build_attitude p False" and ?z = "build_battery p False"
  let ?P = "carries_state p False"
  obtain o1 s1 where 1: "stage cap (sp_position_dirty p) ?x [] = (o1, s1)" by fastforce
  obtain o2 s2 where 2: "stage cap (sp_attitude_dirty p) ?y o1 = (o2, s2)" by fastforce
  obtain o3 s3 where 3: "stage cap (sp_battery_dirty p) ?z o2 = (o3, s3)" by fastforce
  define w1 where "w1 = (if sp_position_dirty p \<and> ?x \<noteq> None then [MT_Position] else [])"
  define w2 where "w2 = (if sp_attitude_dirty p \<and> ?y \<noteq> None then [MT_Attitude] else [])"
  define w3 where "w3 = (if sp_battery_dirty p \<and> ?z \<noteq> None then [MT_Battery] else [])"
  have t: "?x = Some m \<Longrightarrow> published_type m = MT_Position \<and> ?P m"
    "?y = Some m \<Longrightarrow> published_type m = MT_Attitude \<and> ?P m"
    "?z = Some m \<Longrightarrow> published_type m = MT_Battery \<and> ?P m" for m
    using build_carries [of p False m] carries_type [of p False _ m] by auto
  have st1: "map published_type o1 = take cap w1 \<and> (s1 \<longleftrightarrow> w1 \<noteq> []) \<and> list_all ?P o1"
    using stage_types [OF 1, of published_type "[]" ?P MT_Position] t(1) assms(1) by (simp add: w1_def)
  have st2: "map published_type o2 = take cap (w1 @ w2) \<and> (s2 \<longleftrightarrow> w2 \<noteq> [] \<and> length w1 < cap) \<and> list_all ?P o2"
    using stage_types [OF 2, of published_type w1 ?P MT_Attitude] t(2) st1 by (simp add: w2_def)
  have st3: "map published_type o3 = take cap (w1 @ w2 @ w3) \<and>
      (s3 \<longleftrightarrow> w3 \<noteq> [] \<and> length (w1 @ w2) < cap) \<and> list_all ?P o3"
    using stage_types [OF 3, of published_type "w1 @ w2" ?P MT_Battery] t(3) st2 by (simp add: w3_def)
  have want: "wanted p False = w1 @ w2 @ w3"
    unfolding w1_def w2_def w3_def build_iff by (simp add: wanted_def)
  have "s1 \<longleftrightarrow> MT_Position \<in> set (take cap (wanted p False))"
    "s2 \<longleftrightarrow> MT_Attitude \<in> set (take cap (wanted p False))"
    "s3 \<longleftrightarrow> MT_Battery \<in> set (take cap (wanted p False))"
    using assms(1) st1 st2 st3 unfolding want
    by (cases "cap = 1"; cases "cap = 2"; simp add: w1_def w2_def w3_def take_Cons')+
  then show ?thesis
    using poll_stages [OF assms 1 2 3] st3 want by simp
qed


section \<open>Runs\<close>

inductive publisher_step :: "StatePublisher \<Rightarrow> StatePublisher \<Rightarrow> bool" where
  position: "publisher_step p (snd (update_position p pos now))"
| attitude: "publisher_step p (snd (update_attitude p att now))"
| battery: "publisher_step p (snd (update_battery p bat now))"
| poll: "publisher_step p (snd (poll p now null cap))"

definition stream_inv :: "bool \<Rightarrow> bool \<Rightarrow> u32 \<Rightarrow> StateMeta \<Rightarrow> bool" where
  "stream_inv has dirty generation m \<longleftrightarrow>
     (if has then generation \<noteq> 0 \<and> sm_generation m = generation \<and>
        next_generation (sm_base_generation m) = generation \<and> sm_snapshot m = 0
      else generation = 0 \<and> \<not> dirty)"

definition publisher_inv :: "StatePublisher \<Rightarrow> bool" where
  "publisher_inv p \<longleftrightarrow>
     stream_inv (hs_has_position (sp_state p)) (sp_position_dirty p) (sp_position_generation p)
       (p_meta (hs_position (sp_state p))) \<and>
     stream_inv (hs_has_attitude (sp_state p)) (sp_attitude_dirty p) (sp_attitude_generation p)
       (a_meta (hs_attitude (sp_state p))) \<and>
     stream_inv (hs_has_battery (sp_state p)) (sp_battery_dirty p) (sp_battery_generation p)
       (b_meta (hs_battery (sp_state p))) \<and>
     sp_snapshot_period_ms p \<noteq> 0"

lemma next_generation_nonzero: "next_generation g \<noteq> 0"
  by (auto simp: next_generation_def add_eq_0_iff2)

lemma stream_inv_update:
  assumes "stream_inv has dirty g m" and "sm_generation m' = next_generation g"
    and "sm_base_generation m' = (if has then g else 0)" and "sm_snapshot m' = 0"
  shows "stream_inv True d (next_generation g) m'"
  using assms by (cases has) (simp_all add: stream_inv_def next_generation_nonzero)

lemma update_inv:
  assumes inv: "publisher_inv p"
  shows "publisher_inv (snd (update_position p pos now))"
    "publisher_inv (snd (update_attitude p att now))"
    "publisher_inv (snd (update_battery p bat now))"
proof -
  show "publisher_inv (snd (update_position p pos now))"
    using inv unfolding publisher_inv_def update_position_def Let_def
    by (cases "changed_position p pos") (auto intro: stream_inv_update simp del: if_split)
  show "publisher_inv (snd (update_attitude p att now))"
    using inv unfolding publisher_inv_def update_attitude_def Let_def
    by (cases "changed_attitude p att") (auto intro: stream_inv_update simp del: if_split)
  show "publisher_inv (snd (update_battery p bat now))"
    using inv unfolding publisher_inv_def update_battery_def Let_def
    by (cases "changed_battery p bat") (auto intro: stream_inv_update simp del: if_split)
qed

lemma poll_frame:
  "\<exists>d1 d2 d3 n. snd (poll p now null cap) = p\<lparr>sp_position_dirty := d1, sp_attitude_dirty := d2,
      sp_battery_dirty := d3, sp_next_snapshot_ms := n\<rparr> \<and>
    (d1 \<longrightarrow> sp_position_dirty p) \<and> (d2 \<longrightarrow> sp_attitude_dirty p) \<and> (d3 \<longrightarrow> sp_battery_dirty p)"
proof -
  have id: "p = p\<lparr>sp_position_dirty := sp_position_dirty p, sp_attitude_dirty := sp_attitude_dirty p,
      sp_battery_dirty := sp_battery_dirty p, sp_next_snapshot_ms := sp_next_snapshot_ms p\<rparr>"
    by simp
  consider "null \<or> cap = 0" | "\<not> null" "0 < cap" "snapshot_due p now" | "\<not> null" "0 < cap" "\<not> snapshot_due p now"
    by blast
  then show ?thesis
  proof cases
    case 1
    then have "snd (poll p now null cap) = p" by (auto simp: poll_def)
    with id show ?thesis by metis
  next
    case 2
    then show ?thesis
      using poll_due [of cap p now] by (auto simp: schedule_next_snapshot_def Let_def)
  next
    case 3
    define d1 where "d1 \<longleftrightarrow> sp_position_dirty p \<and> MT_Position \<notin> set (take cap (wanted p False))"
    define d2 where "d2 \<longleftrightarrow> sp_attitude_dirty p \<and> MT_Attitude \<notin> set (take cap (wanted p False))"
    define d3 where "d3 \<longleftrightarrow> sp_battery_dirty p \<and> MT_Battery \<notin> set (take cap (wanted p False))"
    have "snd (poll p now null cap) = p\<lparr>sp_position_dirty := d1, sp_attitude_dirty := d2,
        sp_battery_dirty := d3, sp_next_snapshot_ms := sp_next_snapshot_ms p\<rparr>"
      using 3 poll_change [of cap p now] by (simp add: d1_def d2_def d3_def)
    then show ?thesis unfolding d1_def d2_def d3_def by blast
  qed
qed

lemma stream_inv_weaken: "stream_inv has d g m \<Longrightarrow> (d' \<longrightarrow> d) \<Longrightarrow> stream_inv has d' g m"
  by (auto simp: stream_inv_def split: if_splits)

lemma poll_inv:
  assumes "publisher_inv p"
  shows "publisher_inv (snd (poll p now null cap))"
proof -
  obtain d1 d2 d3 n where p': "snd (poll p now null cap) = p\<lparr>sp_position_dirty := d1,
      sp_attitude_dirty := d2, sp_battery_dirty := d3, sp_next_snapshot_ms := n\<rparr>"
    and d: "d1 \<longrightarrow> sp_position_dirty p" "d2 \<longrightarrow> sp_attitude_dirty p" "d3 \<longrightarrow> sp_battery_dirty p"
    using poll_frame by blast
  show ?thesis
    unfolding p' using assms d by (auto simp: publisher_inv_def intro: stream_inv_weaken)
qed

interpretation publisher_runs: invariant_system "\<lambda>p. \<exists>s d period. p = new_StatePublisher s d period"
  publisher_step publisher_inv
proof (unfold_locales, goal_cases)
  case (1 p)
  then show ?case
    by (auto simp: new_StatePublisher_def publisher_inv_def stream_inv_def default_state_def
        kHelpfulSnapshotPeriodMs_def split: if_splits)
next
  case (2 p p')
  from 2(2,1) show ?case
    by (cases rule: publisher_step.cases) (simp_all add: update_inv poll_inv)
qed


section \<open>Properties\<close>

text \<open>
  C28: A poll reports exactly what it should. Let the wanted kinds be, in the order position, attitude,
  battery, the ones that can be encoded and, unless a snapshot is due, have changed since they were
  last reported. A poll with room for \<open>cap\<close> messages returns the first \<open>cap\<close> of them, each with the
  publisher's addresses, state QoS, the snapshot or delta flag, and a payload that decodes to the
  stored state (as a snapshot: with base generation 0). A poll that is not due forgets a change only
  when it has reported it and leaves the schedule alone.
\<close>

theorem poll_reports_wanted:
  assumes "0 < cap" and "poll p now False cap = (out, p')"
  shows "map published_type out = take cap (wanted p (snapshot_due p now)) \<and>
    list_all (carries_state p (snapshot_due p now)) out \<and>
    (\<not> snapshot_due p now \<longrightarrow> sp_next_snapshot_ms p' = sp_next_snapshot_ms p \<and>
      (\<forall>t. kind_dirty p' t \<longleftrightarrow> kind_dirty p t \<and> t \<notin> set (take cap (wanted p False))))"
proof (cases "snapshot_due p now")
  case True
  then show ?thesis using poll_due [OF assms(1) True] assms(2) by simp
next
  case False
  note change = poll_change [OF assms(1) False]
  have "kind_dirty p' t \<longleftrightarrow> kind_dirty p t \<and> t \<notin> set (take cap (wanted p False))" for t
    using change assms(2) by (cases t) simp_all
  then show ?thesis using change assms(2) False by simp
qed

definition example_publisher :: StatePublisher where
  "example_publisher = snd (update_position (new_StatePublisher 1 3 0) example_position 5)"

lemma example_publisher_wanted: "wanted example_publisher False = [MT_Position]"
  by (simp add: wanted_def example_publisher_def update_position_def changed_position_def
      new_StatePublisher_def default_state_def Let_def position_sendable_def attitude_sendable_def
      battery_sendable_def position_ok_def meta_ok_def stamped_def example_position_def example_meta_def
      next_generation_def)

lemma example_publisher_not_due: "\<not> snapshot_due example_publisher 7"
  by (simp add: snapshot_due_def example_publisher_def update_position_def changed_position_def
      new_StatePublisher_def default_state_def Let_def kHelpfulSnapshotPeriodMs_def)

theorem poll_reports_wanted_witness:
  "map published_type (fst (poll example_publisher 7 False 3)) = [MT_Position] \<and>
   \<not> kind_dirty (snd (poll example_publisher 7 False 3)) MT_Position"
  using poll_reports_wanted [of 3 example_publisher 7, OF _ surjective_pairing]
    example_publisher_wanted example_publisher_not_due by (simp del: kind_dirty.simps)

text \<open>
  C29: Generations form a chain. Whatever updates and polls are made on a fresh publisher, a kind that
  has a value has a non-zero generation, the stored metadata carries that generation and, as base,
  the generation just before it (saturating at the largest 32-bit number), it is not marked as a
  snapshot, and only kinds that have a value are dirty.
\<close>

theorem publisher_generation_chain:
  assumes "publisher_step\<^sup>*\<^sup>* (new_StatePublisher s d period) p"
  shows "stream_inv (hs_has_position (sp_state p)) (sp_position_dirty p) (sp_position_generation p)
      (p_meta (hs_position (sp_state p))) \<and>
    stream_inv (hs_has_attitude (sp_state p)) (sp_attitude_dirty p) (sp_attitude_generation p)
      (a_meta (hs_attitude (sp_state p))) \<and>
    stream_inv (hs_has_battery (sp_state p)) (sp_battery_dirty p) (sp_battery_generation p)
      (b_meta (hs_battery (sp_state p))) \<and>
    sp_snapshot_period_ms p \<noteq> 0"
proof -
  have "publisher_inv p" using publisher_runs.inv_reachable assms by blast
  then show ?thesis by (simp add: publisher_inv_def)
qed

theorem publisher_generation_chain_witness:
  "\<exists>p. publisher_step\<^sup>*\<^sup>* (new_StatePublisher 1 3 0) p \<and> hs_has_position (sp_state p) \<and>
     sm_generation (p_meta (hs_position (sp_state p))) \<noteq> 0"
proof -
  have run: "publisher_step\<^sup>*\<^sup>* (new_StatePublisher 1 3 0) example_publisher"
    unfolding example_publisher_def by (rule r_into_rtranclp, rule publisher_step.position)
  have has: "hs_has_position (sp_state example_publisher)"
    by (simp add: example_publisher_def update_position_def changed_position_def new_StatePublisher_def
        default_state_def Let_def)
  show ?thesis
    using publisher_generation_chain [OF run] run has by (auto simp: stream_inv_def)
qed

text \<open>
  A value is published once per change. After an update with a value that names its source, the
  same value again is ignored, whatever the time, and leaves the publisher unchanged.
\<close>

theorem repeated_value_is_ignored:
  assumes "sm_source_id (p_meta pos) \<noteq> 0" and "sm_source_id (a_meta att) \<noteq> 0"
    and "sm_source_id (b_meta bat) \<noteq> 0"
  shows "(let q = snd (update_position p pos now) in update_position q pos later = (False, q)) \<and>
    (let q = snd (update_attitude p att now) in update_attitude q att later = (False, q)) \<and>
    (let q = snd (update_battery p bat now) in update_battery q bat later = (False, q))"
  using position_stream.on_change_once [OF assms(1) surjective_pairing]
    attitude_stream.on_change_once [OF assms(2) surjective_pairing]
    battery_stream.on_change_once [OF assms(3) surjective_pairing]
  by (simp add: Let_def)

theorem repeated_value_is_ignored_witness:
  "fst (update_position example_publisher example_position 100) = False"
  using repeated_value_is_ignored [of example_position
      "\<lparr>a_meta = example_meta, a_roll_urad = 0, a_pitch_urad = 0, a_yaw_urad = 0\<rparr>" example_battery
      "new_StatePublisher 1 3 0" 5 100]
  by (simp add: example_publisher_def Let_def example_position_def example_battery_def example_meta_def)

text \<open>
  A value that leaves its source identifier at 0 for the publisher to fill in is never recognised
  as unchanged: the stored copy carries the publisher's identifier, the comparison is made with the
  0, so the same value is published again on every update.
\<close>

theorem unnamed_source_defeats_suppression:
  assumes "sm_source_id (p_meta pos) = 0" and "sp_source_id p \<noteq> 0"
    and "update_position p pos now = (True, p')"
  shows "fst (update_position p' pos later)"
  by (rule position_stream.unnamed_source_always_changes [OF assms])

definition unnamed_position :: Position where
  "unnamed_position = example_position\<lparr>p_meta := example_meta\<lparr>sm_source_id := 0\<rparr>\<rparr>"

theorem unnamed_source_defeats_suppression_witness:
  "fst (update_position (snd (update_position (new_StatePublisher 1 3 0) unnamed_position 5))
     unnamed_position 6)"
proof -
  have "fst (update_position (new_StatePublisher 1 3 0) unnamed_position 5)"
    by (simp add: update_position_def changed_position_def new_StatePublisher_def default_state_def Let_def)
  then show ?thesis
    by (intro unnamed_source_defeats_suppression [of unnamed_position "new_StatePublisher 1 3 0" 5])
       (simp_all add: unnamed_position_def example_meta_def new_StatePublisher_def prod_eq_iff)
qed

text \<open>
  A due poll forgets every pending change, also the ones it had no room to report: with room for
  one message, a pending attitude change is neither reported nor kept when the position can be sent.
\<close>

theorem due_poll_forgets_unreported_change:
  assumes "snapshot_due p now" and "position_sendable p True" and "poll p now False 1 = (out, p')"
  shows "map published_type out = [MT_Position] \<and> \<not> kind_dirty p' MT_Attitude \<and> \<not> kind_dirty p' MT_Battery"
  using poll_due [of 1 p now] assms by (auto simp: wanted_def schedule_next_snapshot_def Let_def)

theorem due_poll_forgets_unreported_change_witness:
  "(let p = snd (update_attitude example_publisher
        \<lparr>a_meta = example_meta, a_roll_urad = 0, a_pitch_urad = 0, a_yaw_urad = 0\<rparr> 6)
    in kind_dirty p MT_Attitude \<and> \<not> kind_dirty (snd (poll p 20000 False 1)) MT_Attitude)"
proof -
  let ?p = "snd (update_attitude example_publisher
        \<lparr>a_meta = example_meta, a_roll_urad = 0, a_pitch_urad = 0, a_yaw_urad = 0\<rparr> 6)"
  have "snapshot_due ?p 20000 \<and> position_sendable ?p True \<and> kind_dirty ?p MT_Attitude"
    by (simp add: example_publisher_def update_position_def update_attitude_def changed_position_def
        changed_attitude_def new_StatePublisher_def default_state_def Let_def snapshot_due_def
        kHelpfulSnapshotPeriodMs_def position_sendable_def position_ok_def meta_ok_def stamped_def
        example_position_def example_meta_def next_generation_def)
  then show ?thesis
    using due_poll_forgets_unreported_change [of ?p 20000, OF _ _ surjective_pairing] by (simp add: Let_def)
qed

text \<open>
  The snapshot schedule at the end of the clock. After a due poll the next snapshot is at the sum
  of time and period, or at the largest 64-bit time if the sum does not fit, so it is never in the
  past; the first update instead adds without a check, and the schedule it sets can be in the past
  or even be the value 0 that means not scheduled.
\<close>

theorem snapshot_schedule_bounds:
  "unat (sp_next_snapshot_ms (schedule_next_snapshot p now)) =
     min (2 ^ 64 - 1) (unat now + unat (sp_snapshot_period_ms p)) \<and>
   (sp_next_snapshot_ms p = 0 \<and> changed_position p pos \<longrightarrow>
     unat (sp_next_snapshot_ms (snd (update_position p pos now))) =
       (unat now + unat (sp_snapshot_period_ms p)) mod 2 ^ 64)"
proof (intro conjI impI)
  let ?P = "sp_snapshot_period_ms p"
  have max: "unat (- 1 :: u64) = 2 ^ 64 - 1"
    by (simp add: unsigned_minus_1_eq_mask mask_eq_exp_minus_1)
  have "?P \<le> - 1" by simp
  then have sub: "unat (- 1 - ?P) = 2 ^ 64 - 1 - unat ?P" using max by (simp add: unat_sub)
  have "unat ?P < 2 ^ LENGTH(64)" by (rule unsigned_less)
  then have small: "unat ?P \<le> 2 ^ 64 - 1" by simp
  have guard: "now > - 1 - ?P \<longleftrightarrow> unat now + unat ?P > 2 ^ 64 - 1"
    unfolding word_less_nat_alt sub using small by arith
  show "unat (sp_next_snapshot_ms (schedule_next_snapshot p now)) = min (2 ^ 64 - 1) (unat now + unat ?P)"
  proof (cases "now > - 1 - ?P")
    case True
    then show ?thesis using guard max by (simp add: schedule_next_snapshot_def)
  next
    case False
    then have "unat (now + ?P) = unat now + unat ?P" using guard by (simp add: unat_word_ariths)
    then show ?thesis using guard False by (simp add: schedule_next_snapshot_def)
  qed
  assume "sp_next_snapshot_ms p = 0 \<and> changed_position p pos"
  then show "unat (sp_next_snapshot_ms (snd (update_position p pos now))) = (unat now + unat ?P) mod 2 ^ 64"
    by (simp add: update_position_def Let_def unat_word_ariths)
qed

theorem snapshot_schedule_bounds_witness:
  "unat (sp_next_snapshot_ms (snd (update_position (new_StatePublisher 1 3 0) example_position (- 10000)))) = 0"
  using snapshot_schedule_bounds [of "new_StatePublisher 1 3 0" 0 example_position]
    snapshot_schedule_bounds [of "new_StatePublisher 1 3 0" "- 10000" example_position]
  by (simp add: new_StatePublisher_def changed_position_def default_state_def kHelpfulSnapshotPeriodMs_def)

end
