(* ===== verification/Proxy.thy ===== *)
theory Proxy
  imports Record_Layer Qos_Queue "HOL-Library.AList"
begin

text \<open>
  The message-aware proxy of \<^verbatim>\<open>include/new_mavlink/proxy.hpp\<close> and \<^verbatim>\<open>src/proxy.cpp\<close>: links with
  a QoS queue and subscriptions each, a cache of the latest state per stream, and a bounded queue of
  resync requests. The sessions belong to the caller: a link holds a reference (\<open>None\<close> is
  \<^verbatim>\<open>nullptr\<close>) into a store that \<open>ingest\<close> takes as an argument and only reads. The hash maps are
  association lists. Where the outcome depends on the unspecified iteration order of a hash map
  (replaying or searching the cache), the order is the argument \<open>ord\<close>, any function that returns a
  permutation of its argument; the loop over the links treats every link independently.
\<close>

section \<open>Structures\<close>

definition kMaxProxySubscriptions :: nat where "kMaxProxySubscriptions = 64"

record ProxyMetrics =
  px_ingress_accepted :: u64
  px_ingress_rejected :: u64
  px_forwarded :: u64
  px_cache_updates :: u64
  px_resync_requests :: u64

record LinkState =
  ls_session :: "nat option"
  ls_queue :: BoundedQosQueue
  ls_subscriptions :: "(byte \<times> Subscription) list"

record NativeProxy =
  np_queue_capacity :: nat
  np_links :: "(u16 \<times> LinkState) list"
  np_cache :: "(u64 \<times> NativeMessage) list"
  np_resync :: "ResyncRequest list"
  np_metrics :: ProxyMetrics

definition new_NativeProxy :: "nat \<Rightarrow> NativeProxy" where
  "new_NativeProxy queue_capacity =
     \<lparr>np_queue_capacity = queue_capacity, np_links = [], np_cache = [], np_resync = [],
      np_metrics = \<lparr>px_ingress_accepted = 0, px_ingress_rejected = 0, px_forwarded = 0,
        px_cache_updates = 0, px_resync_requests = 0\<rparr>\<rparr>"

definition link_count :: "NativeProxy \<Rightarrow> nat" where
  "link_count p = length (np_links p)"

section \<open>Links and subscriptions\<close>

definition add_link :: "NativeProxy \<Rightarrow> u16 \<Rightarrow> nat \<Rightarrow> bool \<times> NativeProxy" where
  "add_link p link_id session =
     (if link_id = 0 \<or> map_of (np_links p) link_id \<noteq> None \<or> length (np_links p) \<ge> 16 then (False, p)
      else (True, p\<lparr>np_links := (link_id, \<lparr>ls_session = Some session,
        ls_queue = new_BoundedQosQueue (np_queue_capacity p), ls_subscriptions = []\<rparr>) # np_links p\<rparr>))"

definition remove_link :: "NativeProxy \<Rightarrow> u16 \<Rightarrow> bool \<times> NativeProxy" where
  "remove_link p link_id =
     (map_of (np_links p) link_id \<noteq> None, p\<lparr>np_links := AList.delete link_id (np_links p)\<rparr>)"

definition subscription_count :: "(u16 \<times> LinkState) list \<Rightarrow> nat" where
  "subscription_count links = sum_list (map (\<lambda>l. length (ls_subscriptions (snd l))) links)"

text \<open>The loop that replays the cached messages of a new subscription; it stops at the first
  message the queue refuses.\<close>

fun replay :: "byte \<Rightarrow> u16 \<Rightarrow> (u64 \<times> NativeMessage) list \<Rightarrow> BoundedQosQueue \<Rightarrow> bool \<times> BoundedQosQueue" where
  "replay key src [] q = (True, q)"
| "replay key src ((k, cached) # rest) q =
     (if MessageType_u8 (h_type (m_header cached)) = key \<and> h_source_id (m_header cached) = src then
        (case BoundedQosQueue_push q cached 0 of
           (True, q) \<Rightarrow> replay key src rest q
         | (False, q) \<Rightarrow> (False, q))
      else replay key src rest q)"

definition subscribe ::
    "((u64 \<times> NativeMessage) list \<Rightarrow> (u64 \<times> NativeMessage) list) \<Rightarrow> NativeProxy \<Rightarrow> u16 \<Rightarrow>
     Subscription \<Rightarrow> bool \<times> NativeProxy" where
  "subscribe ord p link_id subscription =
     (case map_of (np_links p) link_id of
        None \<Rightarrow> (False, p)
      | Some link \<Rightarrow>
          if sb_source_id subscription = 0 \<or> \<not> known_type (sb_type subscription) \<or>
             control_type (sb_type subscription) \<or> command_type (sb_type subscription) \<or>
             Qos_u8 (sb_qos subscription) > Qos_u8 Qos_Explicit
          then (False, p)
          else
            let key = MessageType_u8 (sb_type subscription)
            in if map_of (ls_subscriptions link) key = None \<and>
                  subscription_count (np_links p) \<ge> kMaxProxySubscriptions
               then (False, p)
               else
                 let link = link\<lparr>ls_subscriptions := AList.update key subscription (ls_subscriptions link)\<rparr>;
                     (ok, queue) = replay key (sb_source_id subscription) (ord (np_cache p)) (ls_queue link)
                 in (ok, p\<lparr>np_links := AList.update link_id (link\<lparr>ls_queue := queue\<rparr>) (np_links p)\<rparr>))"

definition unsubscribe :: "NativeProxy \<Rightarrow> u16 \<Rightarrow> MessageType \<Rightarrow> bool \<times> NativeProxy" where
  "unsubscribe p link_id type =
     (case map_of (np_links p) link_id of
        None \<Rightarrow> (False, p)
      | Some link \<Rightarrow>
          (map_of (ls_subscriptions link) (MessageType_u8 type) \<noteq> None,
           p\<lparr>np_links := AList.update link_id
              (link\<lparr>ls_subscriptions := AList.delete (MessageType_u8 type) (ls_subscriptions link)\<rparr>)
              (np_links p)\<rparr>))"

section \<open>Ingress\<close>

definition inc_ingress_rejected :: "NativeProxy \<Rightarrow> NativeProxy" where
  "inc_ingress_rejected p =
     p\<lparr>np_metrics := (np_metrics p)\<lparr>px_ingress_rejected := px_ingress_rejected (np_metrics p) + 1\<rparr>\<rparr>"

text \<open>The message built from an opened record: header, length, payload padded with zeros.\<close>

definition ingress_message :: "OpenRecord \<Rightarrow> NativeMessage" where
  "ingress_message opened =
     \<lparr>m_header = or_header opened,
      m_payload = put_at (replicate kMaxPayloadBytes 0) 0 (take (or_length opened) (or_payload opened)),
      m_length = or_length opened\<rparr>"

text \<open>One iteration of the forwarding loop: the link afterwards and whether it took the message.\<close>

definition forward :: "u16 \<Rightarrow> NativeMessage \<Rightarrow> u64 \<Rightarrow> u16 \<times> LinkState \<Rightarrow> (u16 \<times> LinkState) \<times> bool" where
  "forward ingress_link message now_ms item =
     (if fst item = ingress_link then (item, False)
      else case map_of (ls_subscriptions (snd item)) (MessageType_u8 (h_type (m_header message))) of
        None \<Rightarrow> (item, False)
      | Some subscription \<Rightarrow>
          if sb_source_id subscription \<noteq> h_source_id (m_header message) then (item, False)
          else
            let forwarded = message\<lparr>m_header := (m_header message)\<lparr>h_destination_id := fst item\<rparr>\<rparr>;
                (ok, queue) = BoundedQosQueue_push (ls_queue (snd item)) forwarded now_ms
            in ((fst item, (snd item)\<lparr>ls_queue := queue\<rparr>), ok))"

definition forward_all :: "NativeProxy \<Rightarrow> u16 \<Rightarrow> NativeMessage \<Rightarrow> u64 \<Rightarrow> bool \<times> NativeProxy" where
  "forward_all p ingress_link message now_ms =
     (let results = map (forward ingress_link message now_ms) (np_links p)
      in (True, p\<lparr>np_links := map fst results,
            np_metrics := (np_metrics p)\<lparr>
              px_ingress_accepted := px_ingress_accepted (np_metrics p) + 1,
              px_forwarded := px_forwarded (np_metrics p) + of_nat (length (filter snd results))\<rparr>\<rparr>))"

definition store_state :: "NativeProxy \<Rightarrow> u64 \<Rightarrow> NativeMessage \<Rightarrow> NativeProxy" where
  "store_state p key message =
     p\<lparr>np_cache := AList.update key message (np_cache p),
       np_metrics := (np_metrics p)\<lparr>px_cache_updates := px_cache_updates (np_metrics p) + 1\<rparr>\<rparr>"

text \<open>The proxy has its own copy of the key of a stream; it is the key of the queue.\<close>

definition proxy_stream_key :: "NativeMessage \<Rightarrow> u64" where
  "proxy_stream_key message =
     (let (src, resource) =
        (if m_length message \<ge> 16 then
           (case decode_state_meta (Some (m_payload message)) 16 of
              Some meta \<Rightarrow> (sm_source_id meta, sm_resource_id meta)
            | None \<Rightarrow> (h_source_id (m_header message), 0))
         else (h_source_id (m_header message), 0))
      in push_bit 56 (ucast (MessageType_u8 (h_type (m_header message)))) OR
         push_bit 32 (ucast src) OR ucast resource)"

definition ingest ::
    "(nat \<Rightarrow> Session) \<Rightarrow> NativeProxy \<Rightarrow> u16 \<Rightarrow> OpenRecord \<Rightarrow> u64 \<Rightarrow> bool \<times> NativeProxy" where
  "ingest sessions p ingress_link opened now_ms =
     (case Option.bind (map_of (np_links p) ingress_link) ls_session of
        None \<Rightarrow> (False, inc_ingress_rejected p)
      | Some session \<Rightarrow>
          if or_length opened > kMaxPayloadBytes \<or> \<not> known_type (h_type (or_header opened)) \<or>
             h_source_id (or_header opened) \<noteq> dk_peer_id (s_keys (sessions session)) \<or>
             h_destination_id (or_header opened) \<noteq> dk_local_id (s_keys (sessions session))
          then (False, inc_ingress_rejected p)
          else
            let message = ingress_message opened
            in if h_type (m_header message) = MT_Position \<and>
                  decode_position (Some (m_payload message)) (m_length message) = None
               then (False, inc_ingress_rejected p)
               else if state_type (h_type (m_header message)) then
                 let key = proxy_stream_key message
                 in (case map_of (np_cache p) key of
                       None \<Rightarrow> forward_all (store_state p key message) ingress_link message now_ms
                     | Some old \<Rightarrow>
                         if m_length old < 16 \<or> m_length message < 16 then (False, inc_ingress_rejected p)
                         else
                           (case (decode_state_meta (Some (m_payload old)) 16,
                                  decode_state_meta (Some (m_payload message)) 16) of
                              (Some old_meta, Some new_meta) \<Rightarrow>
                                if h_type (m_header message) = MT_Position \<and>
                                   decode_position (Some (m_payload message)) (m_length message) = None
                                then (False, inc_ingress_rejected p)
                                else if sm_snapshot new_meta = 0 \<and>
                                   sm_base_generation new_meta \<noteq> sm_generation old_meta
                                then
                                  (False,
                                   if length (np_resync p) < np_queue_capacity p
                                   then p\<lparr>np_resync := np_resync p @
                                            [\<lparr>rs_type = h_type (m_header message),
                                              rs_source_id = sm_source_id new_meta,
                                              rs_resource_id = sm_resource_id new_meta\<rparr>],
                                          np_metrics := (np_metrics p)\<lparr>
                                            px_resync_requests := px_resync_requests (np_metrics p) + 1\<rparr>\<rparr>
                                   else p)
                                else if sm_generation new_meta \<le> sm_generation old_meta then (True, p)
                                else forward_all (store_state p key message) ingress_link message now_ms
                            | _ \<Rightarrow> (False, inc_ingress_rejected p)))
               else forward_all p ingress_link message now_ms)"

section \<open>Egress\<close>

definition next_message :: "NativeProxy \<Rightarrow> u16 \<Rightarrow> u64 \<Rightarrow> NativeMessage option \<times> NativeProxy" where
  "next_message p egress_link now_ms =
     (case map_of (np_links p) egress_link of
        None \<Rightarrow> (None, p)
      | Some link \<Rightarrow>
          (case BoundedQosQueue_pop (ls_queue link) now_ms of
             (r, queue) \<Rightarrow> (r, p\<lparr>np_links := AList.update egress_link (link\<lparr>ls_queue := queue\<rparr>) (np_links p)\<rparr>)))"

definition cached ::
    "((u64 \<times> NativeMessage) list \<Rightarrow> (u64 \<times> NativeMessage) list) \<Rightarrow> NativeProxy \<Rightarrow> MessageType \<Rightarrow>
     NativeMessage option" where
  "cached ord p type =
     map_option snd (find (\<lambda>item. h_type (m_header (snd item)) = type) (ord (np_cache p)))"

definition next_resync :: "NativeProxy \<Rightarrow> ResyncRequest option \<times> NativeProxy" where
  "next_resync p =
     (case np_resync p of
        [] \<Rightarrow> (None, p)
      | request # rest \<Rightarrow> (Some request, p\<lparr>np_resync := rest\<rparr>))"

section \<open>Association lists\<close>

lemma list_all_update: "list_all P al \<Longrightarrow> P (k, v) \<Longrightarrow> list_all P (AList.update k v al)"
  by (induction al) auto

lemma list_all_delete: "list_all P al \<Longrightarrow> list_all P (AList.delete k al)"
  by (auto simp: list_all_iff AList.delete_eq)

lemma fst_update_old: "map_of al k \<noteq> None \<Longrightarrow> map fst (AList.update k v al) = map fst al"
  by (induction al) auto

lemma length_update_le: "length (AList.update k v al) \<le> Suc (length al)"
  by (induction al) auto

lemma length_update_old: "map_of al k \<noteq> None \<Longrightarrow> length (AList.update k v al) = length al"
  by (induction al) auto

lemma subscription_count_simps [simp]:
  "subscription_count [] = 0"
  "subscription_count (l # ls) = length (ls_subscriptions (snd l)) + subscription_count ls"
  by (simp_all add: subscription_count_def)

lemma subscription_count_update:
  "map_of ls k = Some l \<Longrightarrow> subscription_count (AList.update k l' ls) + length (ls_subscriptions l) =
     subscription_count ls + length (ls_subscriptions l')"
  by (induction ls) (auto split: if_splits)

lemma subscription_count_delete: "subscription_count (AList.delete k ls) \<le> subscription_count ls"
  by (induction ls) auto

section \<open>Invariant\<close>

definition subscription_entry_ok :: "byte \<times> Subscription \<Rightarrow> bool" where
  "subscription_entry_ok e \<longleftrightarrow> fst e = MessageType_u8 (sb_type (snd e)) \<and> known_type (sb_type (snd e)) \<and>
     \<not> control_type (sb_type (snd e)) \<and> \<not> command_type (sb_type (snd e)) \<and> sb_source_id (snd e) \<noteq> 0"

definition link_ok :: "nat \<Rightarrow> u16 \<times> LinkState \<Rightarrow> bool" where
  "link_ok cap l \<longleftrightarrow> fst l \<noteq> 0 \<and> queue_inv (ls_queue (snd l)) \<and> q_capacity (ls_queue (snd l)) = cap \<and>
     distinct (map fst (ls_subscriptions (snd l))) \<and> list_all subscription_entry_ok (ls_subscriptions (snd l))"

definition cache_entry_ok :: "u64 \<times> NativeMessage \<Rightarrow> bool" where
  "cache_entry_ok e \<longleftrightarrow> fst e = stream_key (snd e) \<and> state_type (h_type (m_header (snd e))) \<and>
     m_length (snd e) \<le> kMaxPayloadBytes"

definition proxy_inv :: "nat \<Rightarrow> NativeProxy \<Rightarrow> bool" where
  "proxy_inv cap p \<longleftrightarrow> np_queue_capacity p = cap \<and> length (np_links p) \<le> 16 \<and>
     distinct (map fst (np_links p)) \<and> list_all (link_ok cap) (np_links p) \<and>
     subscription_count (np_links p) \<le> kMaxProxySubscriptions \<and>
     distinct (map fst (np_cache p)) \<and> list_all cache_entry_ok (np_cache p) \<and>
     length (np_resync p) \<le> cap"

lemma link_ok_lookup: "list_all (link_ok cap) ls \<Longrightarrow> map_of ls k = Some l \<Longrightarrow> link_ok cap (k, l)"
  using map_of_SomeD by (fastforce simp: list_all_iff)

lemma proxy_link_ok: "proxy_inv cap p \<Longrightarrow> map_of (np_links p) k = Some l \<Longrightarrow> link_ok cap (k, l)"
  unfolding proxy_inv_def using link_ok_lookup by blast

lemma link_ok_queue:
  "link_ok cap (k, l) \<Longrightarrow> queue_inv q \<Longrightarrow> q_capacity q = cap \<Longrightarrow> link_ok cap (k, l\<lparr>ls_queue := q\<rparr>)"
  by (simp add: link_ok_def)

lemma replay_ok:
  "queue_inv q \<Longrightarrow> replay key src cs q = (ok, q') \<Longrightarrow>
     queue_inv q' \<and> q_capacity q' = q_capacity q \<and>
     set (queue_order q') \<subseteq> set (queue_order q) \<union>
       {m \<in> snd ` set cs. MessageType_u8 (h_type (m_header m)) = key \<and> h_source_id (m_header m) = src}"
proof (induction key src cs q arbitrary: ok q' rule: replay.induct)
  case (1 key src q)
  then show ?case by simp
next
  case (2 key src k m rest q)
  let ?hit = "MessageType_u8 (h_type (m_header m)) = key \<and> h_source_id (m_header m) = src"
  show ?case
  proof (cases ?hit)
    case False
    then show ?thesis using 2(2) [OF False 2(3)] 2(4) by auto
  next
    case True
    obtain b q1 where push: "BoundedQosQueue_push q m 0 = (b, q1)" by fastforce
    have q1: "queue_inv q1" "q_capacity q1 = q_capacity q"
      "set (queue_order q1) \<subseteq> insert m (set (queue_order q))"
      using qos_queue.push_ok [OF 2(3) push] qos_queue.push_contents [OF 2(3) push] by simp_all
    show ?thesis
    proof (cases b)
      case True
      then have "replay key src rest q1 = (ok, q')" using 2(4) push \<open>?hit\<close> by simp
      from 2(1) [OF \<open>?hit\<close> push [symmetric] eqTrueI [OF True] q1(1) this] q1 \<open>?hit\<close> show ?thesis by auto
    next
      case False
      then have "q' = q1" using 2(4) push \<open>?hit\<close> by simp
      then show ?thesis using q1 \<open>?hit\<close> by auto
    qed
  qed
qed


section \<open>Outcomes of ingest\<close>

text \<open>The link and session an accepted record must come from.\<close>

definition authentic :: "(nat \<Rightarrow> Session) \<Rightarrow> NativeProxy \<Rightarrow> u16 \<Rightarrow> OpenRecord \<Rightarrow> bool" where
  "authentic sessions p ingress opened \<longleftrightarrow>
     (\<exists>link ref. map_of (np_links p) ingress = Some link \<and> ls_session link = Some ref \<and>
        h_source_id (or_header opened) = dk_peer_id (s_keys (sessions ref)) \<and>
        h_destination_id (or_header opened) = dk_local_id (s_keys (sessions ref))) \<and>
     known_type (h_type (or_header opened)) \<and> or_length opened \<le> kMaxPayloadBytes \<and>
     (h_type (or_header opened) = MT_Position \<longrightarrow>
       decode_position (Some (m_payload (ingress_message opened))) (or_length opened) \<noteq> None)"

text \<open>A state message that may replace the cached one of its stream.\<close>

definition fresher :: "NativeMessage \<Rightarrow> NativeMessage \<Rightarrow> bool" where
  "fresher old new \<longleftrightarrow> 16 \<le> m_length old \<and> 16 \<le> m_length new \<and>
     (\<exists>mo mn. decode_state_meta (Some (m_payload old)) 16 = Some mo \<and>
        decode_state_meta (Some (m_payload new)) 16 = Some mn \<and>
        sm_generation mo < sm_generation mn \<and>
        (sm_snapshot mn = 0 \<longrightarrow> sm_base_generation mn = sm_generation mo))"

definition delta_gap :: "NativeMessage \<Rightarrow> NativeMessage \<Rightarrow> ResyncRequest \<Rightarrow> bool" where
  "delta_gap old new r \<longleftrightarrow>
     (\<exists>mo mn. decode_state_meta (Some (m_payload old)) 16 = Some mo \<and>
        decode_state_meta (Some (m_payload new)) 16 = Some mn \<and> sm_snapshot mn = 0 \<and>
        sm_base_generation mn \<noteq> sm_generation mo \<and>
        r = \<lparr>rs_type = h_type (m_header new), rs_source_id = sm_source_id mn, rs_resource_id = sm_resource_id mn\<rparr>)"

definition request_resync :: "NativeProxy \<Rightarrow> ResyncRequest \<Rightarrow> NativeProxy" where
  "request_resync p r =
     (if length (np_resync p) < np_queue_capacity p
      then p\<lparr>np_resync := np_resync p @ [r],
             np_metrics := (np_metrics p)\<lparr>px_resync_requests := px_resync_requests (np_metrics p) + 1\<rparr>\<rparr>
      else p)"

lemma proxy_stream_key_eq: "proxy_stream_key = stream_key"
  by (simp add: fun_eq_iff proxy_stream_key_def stream_key_def split: option.split)

lemma ingress_message_simps [simp]:
  "m_header (ingress_message o1) = or_header o1" "m_length (ingress_message o1) = or_length o1"
  by (simp_all add: ingress_message_def)

lemma ingest_rejects:
  "\<not> authentic sessions p ingress opened \<Longrightarrow>
     ingest sessions p ingress opened now = (False, inc_ingress_rejected p)"
  unfolding ingest_def proxy_stream_key_eq authentic_def
  by (auto simp: Let_def not_less split: option.splits if_splits bind_splits)

lemma ingest_authentic:
  assumes "authentic sessions p ingress opened"
  shows "ingest sessions p ingress opened now =
    (let m = ingress_message opened; key = stream_key m in
     if \<not> state_type (h_type (or_header opened)) then forward_all p ingress m now
     else case map_of (np_cache p) key of
       None \<Rightarrow> forward_all (store_state p key m) ingress m now
     | Some old \<Rightarrow>
         if m_length old < 16 \<or> or_length opened < 16 then (False, inc_ingress_rejected p)
         else case (decode_state_meta (Some (m_payload old)) 16, decode_state_meta (Some (m_payload m)) 16) of
           (Some mo, Some mn) \<Rightarrow>
             if sm_snapshot mn = 0 \<and> sm_base_generation mn \<noteq> sm_generation mo
             then (False, request_resync p \<lparr>rs_type = h_type (or_header opened),
               rs_source_id = sm_source_id mn, rs_resource_id = sm_resource_id mn\<rparr>)
             else if sm_generation mn \<le> sm_generation mo then (True, p)
             else forward_all (store_state p key m) ingress m now
         | _ \<Rightarrow> (False, inc_ingress_rejected p))"
proof -
  obtain link ref where link: "map_of (np_links p) ingress = Some link" "ls_session link = Some ref"
    and guard: "(or_length opened > kMaxPayloadBytes \<or> \<not> known_type (h_type (or_header opened)) \<or>
      h_source_id (or_header opened) \<noteq> dk_peer_id (s_keys (sessions ref)) \<or>
      h_destination_id (or_header opened) \<noteq> dk_local_id (s_keys (sessions ref))) = False"
    and pos: "(h_type (or_header opened) = MT_Position \<and>
      decode_position (Some (m_payload (ingress_message opened))) (or_length opened) = None) = False"
    using assms unfolding authentic_def by auto
  show ?thesis
    unfolding ingest_def proxy_stream_key_eq Let_def ingress_message_simps link bind.bind_lunit option.case guard pos
      request_resync_def if_False
    by (cases "state_type (h_type (or_header opened))") (simp_all only: simp_thms if_True if_False)
qed

lemma ingest_cached_cases:
  assumes run: "ingest sessions p ingress opened now = (ok, p')" and auth: "authentic sessions p ingress opened"
    and state: "state_type (h_type (or_header opened))"
    and old: "map_of (np_cache p) (stream_key (ingress_message opened)) = Some old"
  obtains (rejected) "\<not> ok" "p' = inc_ingress_rejected p"
  | (gap) r where "\<not> ok" "delta_gap old (ingress_message opened) r" "p' = request_resync p r"
  | (stale) "ok" "p' = p" "\<not> fresher old (ingress_message opened)"
  | (stored) "ok" "fresher old (ingress_message opened)"
      "(ok, p') = forward_all (store_state p (stream_key (ingress_message opened)) (ingress_message opened))
         ingress (ingress_message opened) now"
proof -
  let ?m = "ingress_message opened" and ?key = "stream_key (ingress_message opened)"
  note run' = ingest_authentic [OF auth, of now] run
  show thesis
  proof (cases "16 \<le> m_length old \<and> 16 \<le> or_length opened \<and>
      decode_state_meta (Some (m_payload old)) 16 \<noteq> None \<and> decode_state_meta (Some (m_payload ?m)) 16 \<noteq> None")
    case False
    then have "(ok, p') = (False, inc_ingress_rejected p)"
      using run' state old by (auto simp: Let_def not_le split: option.splits)
    then show thesis using rejected by simp
  next
    case lens: True
    then obtain mo mn where m: "decode_state_meta (Some (m_payload old)) 16 = Some mo"
      "decode_state_meta (Some (m_payload ?m)) 16 = Some mn" by auto
    let ?r = "\<lparr>rs_type = h_type (or_header opened), rs_source_id = sm_source_id mn, rs_resource_id = sm_resource_id mn\<rparr>"
    let ?gap = "sm_snapshot mn = 0 \<and> sm_base_generation mn \<noteq> sm_generation mo"
    have res: "(ok, p') = (if ?gap then (False, request_resync p ?r)
        else if sm_generation mn \<le> sm_generation mo then (True, p)
        else forward_all (store_state p ?key ?m) ingress ?m now)"
      using run' state old lens m by (simp add: Let_def)
    consider (g) ?gap | (s) "\<not> ?gap" "sm_generation mn \<le> sm_generation mo"
      | (f) "\<not> ?gap" "\<not> sm_generation mn \<le> sm_generation mo" by blast
    then show thesis
    proof cases
      case g
      then have "delta_gap old ?m ?r" using m by (simp add: delta_gap_def)
      then show thesis using gap res g by simp
    next
      case s
      then have "\<not> fresher old ?m" using m by (simp add: fresher_def not_less)
      moreover have "ok" "p' = p" using res s by auto
      ultimately show thesis using stale by blast
    next
      case f
      then have "fresher old ?m" using m lens by (auto simp: fresher_def)
      moreover have fwd: "(ok, p') = forward_all (store_state p ?key ?m) ingress ?m now" using res f by auto
      moreover from fwd have ok by (simp add: forward_all_def Let_def)
      ultimately show thesis using stored by blast
    qed
  qed
qed

lemma ingest_cases:
  assumes "ingest sessions p ingress opened now = (ok, p')"
  obtains
    (rejected) "\<not> ok" "p' = inc_ingress_rejected p"
  | (gap) old r where "\<not> ok" "authentic sessions p ingress opened" "state_type (h_type (or_header opened))"
      "map_of (np_cache p) (stream_key (ingress_message opened)) = Some old"
      "delta_gap old (ingress_message opened) r" "p' = request_resync p r"
  | (stale) old where "ok" "p' = p" "authentic sessions p ingress opened"
      "map_of (np_cache p) (stream_key (ingress_message opened)) = Some old"
      "\<not> fresher old (ingress_message opened)"
  | (stored) "ok" "authentic sessions p ingress opened" "state_type (h_type (or_header opened))"
      "\<forall>old. map_of (np_cache p) (stream_key (ingress_message opened)) = Some old \<longrightarrow>
         fresher old (ingress_message opened)"
      "(ok, p') = forward_all (store_state p (stream_key (ingress_message opened)) (ingress_message opened))
         ingress (ingress_message opened) now"
  | (event) "ok" "authentic sessions p ingress opened" "\<not> state_type (h_type (or_header opened))"
      "(ok, p') = forward_all p ingress (ingress_message opened) now"
proof -
  let ?m = "ingress_message opened" and ?key = "stream_key (ingress_message opened)"
  consider "\<not> authentic sessions p ingress opened"
    | "authentic sessions p ingress opened" "\<not> state_type (h_type (or_header opened))"
    | "authentic sessions p ingress opened" "state_type (h_type (or_header opened))" by blast
  then show thesis
  proof cases
    case 1
    then have "(ok, p') = (False, inc_ingress_rejected p)"
      using ingest_rejects assms by simp
    then show thesis using rejected by simp
  next
    case 2
    have "(ok, p') = forward_all p ingress ?m now"
      using ingest_authentic [OF 2(1), of now] assms 2(2) by (simp add: Let_def)
    moreover then have ok by (simp add: forward_all_def Let_def)
    ultimately show thesis using event 2 by blast
  next
    case 3
    show thesis
    proof (cases "map_of (np_cache p) ?key")
      case None
      have "(ok, p') = forward_all (store_state p ?key ?m) ingress ?m now"
        using ingest_authentic [OF 3(1), of now] assms 3(2) None by (simp add: Let_def)
      moreover then have ok by (simp add: forward_all_def Let_def)
      ultimately show thesis using stored 3 None by simp
    next
      case (Some old)
      show thesis
        using assms 3 Some
      proof (cases rule: ingest_cached_cases)
        case c: (gap r)
        show thesis using gap [OF c(1) 3 Some c(2,3)] .
      next
        case c: stored
        show thesis using stored [OF c(1) 3 _ c(3)] c(2) Some by simp
      next
        case c: stale
        show thesis using stale [OF c(1,2) 3(1) Some c(3)] .
      qed (rule rejected)
    qed
  qed
qed


section \<open>Every operation keeps the invariant\<close>

lemma forward_ok:
  assumes "link_ok cap l"
  shows "link_ok cap (fst (forward ingress m now l)) \<and> fst (fst (forward ingress m now l)) = fst l \<and>
    ls_subscriptions (snd (fst (forward ingress m now l))) = ls_subscriptions (snd l)"
proof -
  obtain k s where l: "l = (k, s)" by (cases l)
  let ?f = "m\<lparr>m_header := (m_header m)\<lparr>h_destination_id := k\<rparr>\<rparr>"
  obtain b q where push: "BoundedQosQueue_push (ls_queue s) ?f now = (b, q)" by fastforce
  have "queue_inv q \<and> q_capacity q = cap"
    using qos_queue.push_ok [OF _ push] assms by (simp add: link_ok_def l)
  then have "link_ok cap (k, s\<lparr>ls_queue := q\<rparr>)" using link_ok_queue assms l by blast
  then show ?thesis using assms push by (auto simp: l forward_def split: option.split)
qed

lemma forward_links:
  "list_all (link_ok cap) ls \<Longrightarrow>
     list_all (link_ok cap) (map (\<lambda>l. fst (forward ingress m now l)) ls) \<and>
     map (\<lambda>l. fst (fst (forward ingress m now l))) ls = map fst ls \<and>
     subscription_count (map (\<lambda>l. fst (forward ingress m now l)) ls) = subscription_count ls"
proof (induction ls)
  case (Cons a ls)
  then show ?case using forward_ok [of cap a ingress m now] by simp
qed simp

lemma forward_all_inv:
  assumes "proxy_inv cap p"
  shows "proxy_inv cap (snd (forward_all p ingress m now))"
proof -
  have "list_all (link_ok cap) (np_links p)" using assms by (simp add: proxy_inv_def)
  note links = forward_links [OF this, of ingress m now]
  then have "distinct (map (\<lambda>l. fst (fst (forward ingress m now l))) (np_links p))"
    using assms unfolding proxy_inv_def by metis
  then show ?thesis
    using assms links by (simp add: proxy_inv_def forward_all_def Let_def comp_def cong: map_cong)
qed

lemma store_state_inv:
  "proxy_inv cap p \<Longrightarrow> state_type (h_type (m_header m)) \<Longrightarrow> m_length m \<le> kMaxPayloadBytes \<Longrightarrow>
     proxy_inv cap (store_state p (stream_key m) m)"
  by (simp add: proxy_inv_def store_state_def list_all_update cache_entry_ok_def distinct_update)

lemma ingest_inv:
  assumes "proxy_inv cap p" and "ingest sessions p ingress opened now = (ok, p')"
  shows "proxy_inv cap p'"
  using assms(2)
proof (cases rule: ingest_cases)
  case rejected
  then show ?thesis using assms(1) by (simp add: proxy_inv_def inc_ingress_rejected_def)
next
  case (gap old r)
  then show ?thesis using assms(1) by (simp add: proxy_inv_def request_resync_def)
next
  case stale
  then show ?thesis using assms(1) by simp
next
  case stored
  have "m_length (ingress_message opened) \<le> kMaxPayloadBytes" using stored(2) by (simp add: authentic_def)
  then show ?thesis
    using forward_all_inv [OF store_state_inv [OF assms(1)], of "ingress_message opened"] stored(3,5)
    by (metis ingress_message_simps(1) snd_conv)
next
  case event
  then show ?thesis using forward_all_inv [OF assms(1)] by (metis snd_conv)
qed

lemma update_link_inv:
  assumes "proxy_inv cap p" and "map_of (np_links p) k = Some l" and "link_ok cap (k, l')"
    and "subscription_count (AList.update k l' (np_links p)) \<le> kMaxProxySubscriptions"
  shows "proxy_inv cap (p\<lparr>np_links := AList.update k l' (np_links p)\<rparr>)"
  using assms by (simp add: proxy_inv_def list_all_update length_update_old fst_update_old)

lemma add_link_inv: "proxy_inv cap p \<Longrightarrow> proxy_inv cap (snd (add_link p k s))"
  by (auto simp: add_link_def proxy_inv_def link_ok_def new_queue map_of_eq_None_iff)

lemma remove_link_inv:
  assumes "proxy_inv cap p"
  shows "proxy_inv cap (snd (remove_link p k))"
proof -
  have "length (AList.delete k (np_links p)) \<le> length (np_links p)" by (rule length_delete_le)
  then show ?thesis
    using assms subscription_count_delete [of k "np_links p"]
    by (simp add: remove_link_def proxy_inv_def list_all_delete distinct_delete)
qed

definition subscription_refused :: "NativeProxy \<Rightarrow> LinkState \<Rightarrow> Subscription \<Rightarrow> bool" where
  "subscription_refused p l sub \<longleftrightarrow> sb_source_id sub = 0 \<or> \<not> known_type (sb_type sub) \<or>
     control_type (sb_type sub) \<or> command_type (sb_type sub) \<or> Qos_u8 (sb_qos sub) > Qos_u8 Qos_Explicit \<or>
     map_of (ls_subscriptions l) (MessageType_u8 (sb_type sub)) = None \<and>
     subscription_count (np_links p) \<ge> kMaxProxySubscriptions"

lemma subscribe_eq:
  assumes "map_of (np_links p) k = Some l"
  shows "subscribe ord p k sub =
    (if subscription_refused p l sub then (False, p)
     else case replay (MessageType_u8 (sb_type sub)) (sb_source_id sub) (ord (np_cache p)) (ls_queue l) of
       (ok, q) \<Rightarrow> (ok, p\<lparr>np_links := AList.update k (l\<lparr>ls_subscriptions :=
         AList.update (MessageType_u8 (sb_type sub)) sub (ls_subscriptions l), ls_queue := q\<rparr>) (np_links p)\<rparr>))"
proof (cases "subscription_refused p l sub")
  case True
  then show ?thesis using assms unfolding subscription_refused_def by (auto simp: subscribe_def Let_def)
next
  case False
  then show ?thesis
    using assms unfolding subscription_refused_def subscribe_def Let_def
    by (simp only: option.case if_False de_Morgan_disj simp_thms) (simp split: prod.split)
qed

lemma subscribe_inv:
  assumes "proxy_inv cap p"
  shows "proxy_inv cap (snd (subscribe ord p k sub))"
proof (cases "map_of (np_links p) k")
  case None
  then show ?thesis using assms by (simp add: subscribe_def)
next
  case (Some l)
  let ?key = "MessageType_u8 (sb_type sub)"
  let ?subs = "AList.update ?key sub (ls_subscriptions l)"
  obtain ok q where rep: "replay ?key (sb_source_id sub) (ord (np_cache p)) (ls_queue l) = (ok, q)" by fastforce
  have l: "link_ok cap (k, l)" using proxy_link_ok [OF assms Some] .
  show ?thesis
  proof (cases "subscription_refused p l sub")
    case True
    then show ?thesis using assms Some by (simp add: subscribe_eq)
  next
    case False
    let ?l = "l\<lparr>ls_subscriptions := ?subs, ls_queue := q\<rparr>"
    have "snd (subscribe ord p k sub) = p\<lparr>np_links := AList.update k ?l (np_links p)\<rparr>"
      using False Some rep by (simp add: subscribe_eq)
    moreover have "link_ok cap (k, ?l)"
      using l replay_ok [OF _ rep] False
      by (simp add: link_ok_def list_all_update subscription_entry_ok_def distinct_update
          subscription_refused_def)
    moreover have "subscription_count (AList.update k ?l (np_links p)) \<le> kMaxProxySubscriptions"
    proof (cases "map_of (ls_subscriptions l) ?key = None")
      case True
      then have "subscription_count (np_links p) < kMaxProxySubscriptions"
        using False by (simp add: subscription_refused_def)
      then show ?thesis
        using subscription_count_update [OF Some, of ?l] length_update_le [of ?key sub "ls_subscriptions l"] by simp
    next
      case old: False
      then show ?thesis
        using subscription_count_update [OF Some, of ?l] length_update_old [of "ls_subscriptions l" ?key sub] assms
        by (simp add: proxy_inv_def)
    qed
    ultimately show ?thesis using update_link_inv [OF assms Some] by simp
  qed
qed

lemma unsubscribe_inv:
  assumes "proxy_inv cap p"
  shows "proxy_inv cap (snd (unsubscribe p k t))"
proof (cases "map_of (np_links p) k")
  case None
  then show ?thesis using assms by (simp add: unsubscribe_def)
next
  case (Some l)
  let ?l = "l\<lparr>ls_subscriptions := AList.delete (MessageType_u8 t) (ls_subscriptions l)\<rparr>"
  have l: "link_ok cap (k, l)" using proxy_link_ok [OF assms Some] .
  then have "link_ok cap (k, ?l)" by (simp add: link_ok_def list_all_delete distinct_delete)
  moreover have "subscription_count (AList.update k ?l (np_links p)) \<le> kMaxProxySubscriptions"
    using subscription_count_update [OF Some, of ?l] length_delete_le [of "MessageType_u8 t" "ls_subscriptions l"] assms
    by (simp add: proxy_inv_def)
  ultimately show ?thesis using update_link_inv [OF assms Some] Some by (simp add: unsubscribe_def)
qed

lemma next_message_inv:
  assumes "proxy_inv cap p"
  shows "proxy_inv cap (snd (next_message p k now))"
proof (cases "map_of (np_links p) k")
  case None
  then show ?thesis using assms by (simp add: next_message_def)
next
  case (Some l)
  obtain r q where pop: "BoundedQosQueue_pop (ls_queue l) now = (r, q)" by fastforce
  have l: "link_ok cap (k, l)" using proxy_link_ok [OF assms Some] .
  then have "link_ok cap (k, l\<lparr>ls_queue := q\<rparr>)"
    using qos_queue.pop_ok [OF _ pop] by (simp add: link_ok_def)
  moreover have "subscription_count (AList.update k (l\<lparr>ls_queue := q\<rparr>) (np_links p)) \<le> kMaxProxySubscriptions"
    using subscription_count_update [OF Some, of "l\<lparr>ls_queue := q\<rparr>"] assms by (simp add: proxy_inv_def)
  ultimately show ?thesis using update_link_inv [OF assms Some] Some pop by (simp add: next_message_def)
qed

lemma next_resync_inv: "proxy_inv cap p \<Longrightarrow> proxy_inv cap (snd (next_resync p))"
  by (cases "np_resync p") (simp_all add: next_resync_def proxy_inv_def)

text \<open>All calls a program may make on a proxy; iteration orders and sessions may differ from call to call.\<close>

inductive proxy_step :: "NativeProxy \<Rightarrow> NativeProxy \<Rightarrow> bool" where
  add: "proxy_step p (snd (add_link p k s))"
| remove: "proxy_step p (snd (remove_link p k))"
| subscribe: "proxy_step p (snd (subscribe ord p k sub))"
| unsubscribe: "proxy_step p (snd (unsubscribe p k t))"
| ingest: "proxy_step p (snd (ingest sessions p k opened now))"
| egress: "proxy_step p (snd (next_message p k now))"
| resync: "proxy_step p (snd (next_resync p))"

interpretation proxy_runs: invariant_system "\<lambda>p. p = new_NativeProxy cap" proxy_step "proxy_inv cap" for cap
proof (unfold_locales, goal_cases)
  case (1 p)
  then show ?case by (simp add: new_NativeProxy_def proxy_inv_def)
next
  case (2 p p')
  from 2(2,1) show ?case
    by (cases rule: proxy_step.cases)
       (simp_all add: add_link_inv remove_link_inv subscribe_inv unsubscribe_inv next_message_inv
          next_resync_inv ingest_inv [OF _ surjective_pairing])
qed


section \<open>What forwarding does to one link\<close>

text \<open>The message as a subscribed link gets it.\<close>

definition readdressed :: "NativeMessage \<Rightarrow> u16 \<Rightarrow> NativeMessage" where
  "readdressed m k = m\<lparr>m_header := (m_header m)\<lparr>h_destination_id := k\<rparr>\<rparr>"

definition wants :: "LinkState \<Rightarrow> NativeMessage \<Rightarrow> bool" where
  "wants l m \<longleftrightarrow> (\<exists>sub. map_of (ls_subscriptions l) (MessageType_u8 (h_type (m_header m))) = Some sub \<and>
     sb_source_id sub = h_source_id (m_header m))"

lemma forward_eq:
  "fst (forward ingress m now (k, l)) =
     (k, if k \<noteq> ingress \<and> wants l m
         then l\<lparr>ls_queue := snd (BoundedQosQueue_push (ls_queue l) (readdressed m k) now)\<rparr> else l)"
  by (auto simp: forward_def wants_def readdressed_def case_prod_beta Let_def split: option.split)

lemma forward_all_link:
  "map_of (np_links (snd (forward_all p ingress m now))) k =
     map_option (\<lambda>l. if k \<noteq> ingress \<and> wants l m
       then l\<lparr>ls_queue := snd (BoundedQosQueue_push (ls_queue l) (readdressed m k) now)\<rparr> else l)
       (map_of (np_links p) k)"
proof -
  have "map_of (map (\<lambda>x. fst (forward ingress m now x)) ls) k =
      map_option (\<lambda>l. if k \<noteq> ingress \<and> wants l m
        then l\<lparr>ls_queue := snd (BoundedQosQueue_push (ls_queue l) (readdressed m k) now)\<rparr> else l)
        (map_of ls k)" for ls
    by (induction ls) (auto simp: forward_eq)
  then show ?thesis by (simp add: forward_all_def Let_def comp_def)
qed

lemma forward_all_frame:
  "np_cache (snd (forward_all p ingress m now)) = np_cache p"
  "np_resync (snd (forward_all p ingress m now)) = np_resync p"
  by (simp_all add: forward_all_def Let_def)

lemma command_control_known: "command_type t \<or> control_type t \<Longrightarrow> known_type t"
  by (auto simp: type_class_defs)

text \<open>
  The records that are forwarded: authentic, and for a state that is cached already fresher than the
  cached one. An authentic state that connects to the cached one but is not newer is outdated.
\<close>

definition forwardable :: "(nat \<Rightarrow> Session) \<Rightarrow> NativeProxy \<Rightarrow> u16 \<Rightarrow> OpenRecord \<Rightarrow> bool" where
  "forwardable sessions p ingress opened \<longleftrightarrow> authentic sessions p ingress opened \<and>
     (state_type (h_type (or_header opened)) \<longrightarrow>
       (\<forall>old. map_of (np_cache p) (stream_key (ingress_message opened)) = Some old \<longrightarrow>
         fresher old (ingress_message opened)))"

definition outdated :: "NativeProxy \<Rightarrow> OpenRecord \<Rightarrow> bool" where
  "outdated p opened \<longleftrightarrow> state_type (h_type (or_header opened)) \<and>
     (\<exists>old mo mn. map_of (np_cache p) (stream_key (ingress_message opened)) = Some old \<and>
        16 \<le> m_length old \<and> 16 \<le> or_length opened \<and>
        decode_state_meta (Some (m_payload old)) 16 = Some mo \<and>
        decode_state_meta (Some (m_payload (ingress_message opened))) 16 = Some mn \<and>
        sm_generation mn \<le> sm_generation mo \<and>
        (sm_snapshot mn = 0 \<longrightarrow> sm_base_generation mn = sm_generation mo))"

lemma ingest_forwardable:
  assumes "forwardable sessions p ingress opened"
  shows "ingest sessions p ingress opened now =
    forward_all (if state_type (h_type (or_header opened))
      then store_state p (stream_key (ingress_message opened)) (ingress_message opened) else p)
      ingress (ingress_message opened) now"
proof -
  have auth: "authentic sessions p ingress opened" using assms by (simp add: forwardable_def)
  show ?thesis
  proof (cases "state_type (h_type (or_header opened)) \<and>
      map_of (np_cache p) (stream_key (ingress_message opened)) \<noteq> None")
    case True
    then obtain old where old: "map_of (np_cache p) (stream_key (ingress_message opened)) = Some old"
      "fresher old (ingress_message opened)"
      using assms by (auto simp: forwardable_def)
    then show ?thesis using True by (auto simp: ingest_authentic [OF auth] fresher_def Let_def)
  next
    case False
    then show ?thesis by (auto simp: ingest_authentic [OF auth] Let_def)
  qed
qed

lemma ingest_not_forwardable:
  assumes "ingest sessions p ingress opened now = (ok, p')" and "\<not> forwardable sessions p ingress opened"
  shows "np_links p' = np_links p" and "np_cache p' = np_cache p"
    and "ok \<longleftrightarrow> authentic sessions p ingress opened \<and> outdated p opened" and "ok \<Longrightarrow> p' = p"
proof -
  have "np_links p' = np_links p \<and> np_cache p' = np_cache p \<and>
    (ok \<longleftrightarrow> authentic sessions p ingress opened \<and> outdated p opened) \<and> (ok \<longrightarrow> p' = p)"
  proof (cases "authentic sessions p ingress opened")
    case False
    then show ?thesis using ingest_rejects [OF False, of now] assms(1) by (auto simp: inc_ingress_rejected_def)
  next
    case True
    obtain old where state: "state_type (h_type (or_header opened))"
      and old: "map_of (np_cache p) (stream_key (ingress_message opened)) = Some old"
      and stale: "\<not> fresher old (ingress_message opened)"
      using assms(2) True by (auto simp: forwardable_def)
    show ?thesis
      using ingest_authentic [OF True, of now] assms(1) state old stale True
      by (auto simp: Let_def fresher_def outdated_def inc_ingress_rejected_def request_resync_def not_less
          split: if_splits option.splits)
  qed
  then show "np_links p' = np_links p" "np_cache p' = np_cache p"
    "ok \<longleftrightarrow> authentic sessions p ingress opened \<and> outdated p opened" "ok \<Longrightarrow> p' = p"
    by blast+
qed

lemma forward_all_counts:
  "px_forwarded (np_metrics (snd (forward_all p ingress m now))) = px_forwarded (np_metrics p) +
     of_nat (length (filter (\<lambda>(k, l). k \<noteq> ingress \<and> wants l m \<and>
       fst (BoundedQosQueue_push (ls_queue l) (readdressed m k) now)) (np_links p)))"
proof -
  have "snd (forward ingress m now (k, l)) \<longleftrightarrow> k \<noteq> ingress \<and> wants l m \<and>
      fst (BoundedQosQueue_push (ls_queue l) (readdressed m k) now)" for k l
    by (auto simp: forward_def wants_def readdressed_def case_prod_beta Let_def split: option.split)
  then have "filter (\<lambda>x. snd (forward ingress m now x)) ls = filter (\<lambda>(k, l). k \<noteq> ingress \<and> wants l m \<and>
      fst (BoundedQosQueue_push (ls_queue l) (readdressed m k) now)) ls" for ls
    by (induction ls) auto
  then show ?thesis by (simp add: forward_all_def Let_def filter_map comp_def)
qed

lemma ingest_forwards_to_subscribers_aux:
  assumes "ingest sessions p ingress opened now = (ok, p')"
  shows "map_of (np_links p') k = map_of (np_links p) k \<or>
    map_of (np_links p') k = map_option (\<lambda>l. if k \<noteq> ingress \<and> wants l (ingress_message opened)
        then l\<lparr>ls_queue := snd (BoundedQosQueue_push (ls_queue l) (readdressed (ingress_message opened) k) now)\<rparr>
        else l) (map_of (np_links p) k)"
proof (cases "forwardable sessions p ingress opened")
  case True
  then have "p' = snd (forward_all (if state_type (h_type (or_header opened))
      then store_state p (stream_key (ingress_message opened)) (ingress_message opened) else p)
      ingress (ingress_message opened) now)"
    using ingest_forwardable [OF True, of now] assms by (metis snd_conv)
  then show ?thesis by (simp add: forward_all_link store_state_def)
next
  case False
  then show ?thesis using ingest_not_forwardable(1) [OF assms] by simp
qed

section \<open>Replaying the cache\<close>

lemma push_state_kept:
  assumes "queue_inv q" and "BoundedQosQueue_push q x now = (b, q')"
    and "(k, m) \<in> set (q_state q)" and "is_state x \<longrightarrow> stream_key x \<noteq> k"
  shows "(k, m) \<in> set (q_state q')"
proof -
  have size: "BoundedQosQueue_size q \<le> q_capacity q" using assms(1) by (simp add: queue_inv_def)
  have "q_state q' = (if \<not> b \<or> \<not> is_state x then q_state q
      else if stream_key x \<in> fst ` set (q_state q)
      then map (\<lambda>(k, v). if k = stream_key x then (k, x) else (k, v)) (q_state q)
      else (stream_key x, x) # q_state q)"
    using push_lanes [OF size assms(2)] by (cases b) (simp_all add: pushed_lanes_def)
  moreover have "(k, m) \<in> set (map (\<lambda>(k, v). if k = stream_key x then (k, x) else (k, v)) (q_state q))"
    if "stream_key x \<noteq> k"
    using assms(3) that by force
  ultimately show ?thesis using assms(3,4) by (cases b; cases "is_state x") simp_all
qed

lemma push_state_stored:
  assumes "queue_inv q" and "BoundedQosQueue_push q m now = (True, q')" and "is_state m"
  shows "(stream_key m, m) \<in> set (q_state q')"
proof -
  have "BoundedQosQueue_size q \<le> q_capacity q" using assms(1) by (simp add: queue_inv_def)
  from push_lanes [OF this assms(2)] show ?thesis using pushed_state assms(3) by simp metis
qed

lemma replay_keeps:
  "queue_inv q \<Longrightarrow> replay key src cs q = (ok, q') \<Longrightarrow> list_all cache_entry_ok cs \<Longrightarrow>
     (k, m) \<in> set (q_state q) \<Longrightarrow> k \<notin> fst ` set cs \<Longrightarrow> (k, m) \<in> set (q_state q')"
proof (induction key src cs q arbitrary: ok q' rule: replay.induct)
  case (2 key src k' x rest q)
  let ?hit = "MessageType_u8 (h_type (m_header x)) = key \<and> h_source_id (m_header x) = src"
  have rest: "list_all cache_entry_ok rest" "k \<notin> fst ` set rest" using 2(5,7) by simp_all
  show ?case
  proof (cases ?hit)
    case False
    then have "replay key src rest q = (ok, q')" using 2(4) by auto
    then show ?thesis using 2(2) [OF False 2(3)] rest 2(6) by blast
  next
    case True
    obtain b q1 where push: "BoundedQosQueue_push q x 0 = (b, q1)" by fastforce
    have "stream_key x = k'" using 2(5) by (simp add: cache_entry_ok_def)
    then have kept: "(k, m) \<in> set (q_state q1)" using push_state_kept [OF 2(3) push 2(6)] 2(7) by auto
    have inv: "queue_inv q1" using qos_queue.push_ok [OF 2(3) push] by simp
    show ?thesis
    proof (cases b)
      case b: True
      then have "replay key src rest q1 = (ok, q')" using 2(4) push True by simp
      then show ?thesis using 2(1) [OF True push [symmetric] eqTrueI [OF b] inv] rest kept by blast
    next
      case False
      then show ?thesis using 2(4) push True kept by simp
    qed
  qed
qed simp

lemma replay_delivers:
  "queue_inv q \<Longrightarrow> replay key src cs q = (True, q') \<Longrightarrow> list_all cache_entry_ok cs \<Longrightarrow>
     distinct (map fst cs) \<Longrightarrow> (k, m) \<in> set cs \<Longrightarrow> is_state m \<Longrightarrow>
     MessageType_u8 (h_type (m_header m)) = key \<Longrightarrow> h_source_id (m_header m) = src \<Longrightarrow>
     (k, m) \<in> set (q_state q')"
proof (induction key src cs q arbitrary: q' rule: replay.induct)
  case (2 key src k' x rest q)
  let ?hit = "MessageType_u8 (h_type (m_header x)) = key \<and> h_source_id (m_header x) = src"
  have rest: "list_all cache_entry_ok rest" "distinct (map fst rest)" "k' \<notin> fst ` set rest"
    and "cache_entry_ok (k', x)" using 2(5,6) by simp_all
  then have key: "stream_key x = k'" by (simp add: cache_entry_ok_def)
  show ?case
  proof (cases ?hit)
    case False
    then have "replay key src rest q = (True, q')" and "(k, m) \<in> set rest" using 2(4,7,9,10) by auto
    then show ?thesis using 2(2) [OF False 2(3)] rest 2(8,9,10) by blast
  next
    case True
    obtain b q1 where push: "BoundedQosQueue_push q x 0 = (b, q1)" by fastforce
    have b: b and run: "replay key src rest q1 = (True, q')"
      using 2(4) push True by (auto split: if_splits bool.splits)
    have inv: "queue_inv q1" using qos_queue.push_ok [OF 2(3) push] by simp
    show ?thesis
    proof (cases "(k, m) \<in> set rest")
      case True
      then show ?thesis using 2(1) [OF \<open>?hit\<close> push [symmetric] eqTrueI [OF b] inv run] rest 2(8,9,10) by blast
    next
      case False
      then have m: "k = k'" "m = x" using 2(7) by simp_all
      then have "(k, m) \<in> set (q_state q1)"
        using push_state_stored [OF 2(3), of x 0 q1] push b 2(8) key by simp
      then show ?thesis using replay_keeps [OF inv run rest(1)] rest(3) m by simp
    qed
  qed
qed simp

section \<open>Properties\<close>

text \<open>
  C24: The proxy's tables stay bounded and consistent. Whatever calls are made on a fresh proxy, with
  any sessions and any iteration order of its hash maps, it has at most 16 links with distinct
  non-zero identifiers, at most 64 subscriptions in all, none of them for a control or command type,
  every link's queue satisfies the queue invariant with the configured capacity, at most that many
  resync requests wait, and the cache has one state message per stream.
\<close>

theorem proxy_bounded:
  assumes "proxy_step\<^sup>*\<^sup>* (new_NativeProxy cap) p"
  shows "link_count p \<le> 16 \<and> distinct (map fst (np_links p)) \<and>
    subscription_count (np_links p) \<le> kMaxProxySubscriptions \<and> length (np_resync p) \<le> cap \<and>
    (\<forall>(k, l)\<in>set (np_links p). k \<noteq> 0 \<and> queue_inv (ls_queue l) \<and> BoundedQosQueue_size (ls_queue l) \<le> cap \<and>
      (\<forall>(t, sub)\<in>set (ls_subscriptions l). t = MessageType_u8 (sb_type sub) \<and> known_type (sb_type sub) \<and>
        \<not> control_type (sb_type sub) \<and> \<not> command_type (sb_type sub))) \<and>
    distinct (map fst (np_cache p)) \<and>
    (\<forall>(k, m)\<in>set (np_cache p). k = stream_key m \<and> state_type (h_type (m_header m)))"
proof -
  have inv: "proxy_inv cap p" using proxy_runs.inv_reachable assms by blast
  have "BoundedQosQueue_size q \<le> cap" if "queue_inv q" "q_capacity q = cap" for q
    using that by (simp add: queue_inv_def)
  with inv show ?thesis
    by (fastforce simp: proxy_inv_def link_count_def list_all_iff link_ok_def subscription_entry_ok_def
        cache_entry_ok_def)
qed

theorem proxy_bounded_witness:
  "\<exists>p. proxy_step\<^sup>*\<^sup>* (new_NativeProxy 4) p \<and> link_count p = 1 \<and> link_count p \<le> 16"
proof -
  have run: "proxy_step\<^sup>*\<^sup>* (new_NativeProxy 4) (snd (add_link (new_NativeProxy 4) 7 0))"
    by (rule r_into_rtranclp, rule proxy_step.add)
  have "link_count (snd (add_link (new_NativeProxy 4) 7 0)) = 1"
    by (simp add: add_link_def new_NativeProxy_def link_count_def)
  with run proxy_bounded [OF run] show ?thesis by blast
qed

text \<open>
  C25: What \<open>ingest\<close> lets through. A record of a known type, with a payload that fits, whose source
  and destination are the peer and the local end of the session of the link it came from (and whose
  position payload decodes, for a position), and which is fresher than the cached message of its stream
  (for a state), is accepted: it is pushed to the queue of exactly the other links subscribed to its type
  and source, each with the destination replaced by the link's identifier, a state also becomes the
  cached message of its stream, and the metrics count the record and the queues that took it. Any other
  record leaves all links and the cache alone, and is reported as accepted exactly if it is an authentic
  state that is not newer than the cached one.
\<close>

theorem ingest_forwards_to_subscribers:
  assumes "ingest sessions p ingress opened now = (ok, p')"
  shows "let m = ingress_message opened in
    if forwardable sessions p ingress opened
    then ok \<and>
      (\<forall>k. map_of (np_links p') k = map_option (\<lambda>l.
        if k \<noteq> ingress \<and> wants l m
        then l\<lparr>ls_queue := snd (BoundedQosQueue_push (ls_queue l) (readdressed m k) now)\<rparr> else l)
        (map_of (np_links p) k)) \<and>
      map_of (np_cache p') = (if state_type (h_type (or_header opened))
        then (map_of (np_cache p))(stream_key m \<mapsto> m) else map_of (np_cache p)) \<and>
      px_ingress_accepted (np_metrics p') = px_ingress_accepted (np_metrics p) + 1 \<and>
      px_forwarded (np_metrics p') = px_forwarded (np_metrics p) +
        of_nat (length (filter (\<lambda>(k, l). k \<noteq> ingress \<and> wants l m \<and>
          fst (BoundedQosQueue_push (ls_queue l) (readdressed m k) now)) (np_links p)))
    else np_links p' = np_links p \<and> np_cache p' = np_cache p \<and>
      (ok \<longleftrightarrow> authentic sessions p ingress opened \<and> outdated p opened)"
proof (cases "forwardable sessions p ingress opened")
  case True
  let ?m = "ingress_message opened"
  let ?q = "if state_type (h_type (or_header opened)) then store_state p (stream_key ?m) ?m else p"
  have run: "(ok, p') = forward_all ?q ingress ?m now"
    using ingest_forwardable [OF True, of now] assms by simp
  have ok: "ok" using run by (simp add: forward_all_def Let_def)
  have p': "p' = snd (forward_all ?q ingress ?m now)" using run by (metis snd_conv)
  have links: "np_links ?q = np_links p" by (simp add: store_state_def)
  have "map_of (np_cache p') = (if state_type (h_type (or_header opened))
      then (map_of (np_cache p))(stream_key ?m \<mapsto> ?m) else map_of (np_cache p))"
    unfolding p' forward_all_frame by (simp add: store_state_def update_conv')
  moreover have "px_ingress_accepted (np_metrics p') = px_ingress_accepted (np_metrics p) + 1"
    unfolding p' by (simp add: forward_all_def Let_def store_state_def)
  moreover have "px_forwarded (np_metrics ?q) = px_forwarded (np_metrics p)" by (simp add: store_state_def)
  ultimately show ?thesis
    unfolding Let_def using True ok forward_all_link [of ?q ingress ?m now] forward_all_counts [of ?q ingress ?m now]
    by (simp only: p' links if_True simp_thms)
next
  case False
  then show ?thesis using ingest_not_forwardable [OF assms False] by (simp add: Let_def)
qed

text \<open>
  C26: The cached state of a stream only moves forward. When \<open>ingest\<close> replaces the cached message of a
  stream, the new one has a strictly larger generation, and if it is a delta its base is the
  generation that was cached. A delta with any other base is refused without touching links or cache,
  and asks for a resync of exactly that stream if there is room for the request.
\<close>

theorem cache_moves_forward:
  assumes "ingest sessions p ingress opened now = (ok, p')"
  shows "(\<forall>key old new. map_of (np_cache p) key = Some old \<and> map_of (np_cache p') key = Some new \<longrightarrow>
      new = old \<or> new = ingress_message opened \<and> fresher old new) \<and>
    (\<forall>key old. map_of (np_cache p) key = Some old \<longrightarrow> map_of (np_cache p') key \<noteq> None) \<and>
    (\<forall>old r. authentic sessions p ingress opened \<and> state_type (h_type (or_header opened)) \<and>
      map_of (np_cache p) (stream_key (ingress_message opened)) = Some old \<and>
      16 \<le> m_length old \<and> 16 \<le> or_length opened \<and> delta_gap old (ingress_message opened) r \<longrightarrow>
      \<not> ok \<and> p' = request_resync p r)"
proof (intro conjI allI impI)
  let ?m = "ingress_message opened" and ?key = "stream_key (ingress_message opened)"
  have cache: "np_cache p' = np_cache p \<or>
      np_cache p' = AList.update ?key ?m (np_cache p) \<and> (\<forall>old. map_of (np_cache p) ?key = Some old \<longrightarrow> fresher old ?m)"
    using assms
  proof (cases rule: ingest_cases)
    case stored
    then have "p' = snd (forward_all (store_state p ?key ?m) ingress ?m now)" by (metis snd_conv)
    then show ?thesis using stored(4) by (simp add: forward_all_frame store_state_def)
  next
    case event
    then have "p' = snd (forward_all p ingress ?m now)" by (metis snd_conv)
    then show ?thesis by (simp add: forward_all_frame)
  qed (simp_all add: inc_ingress_rejected_def request_resync_def)
  show "new = old \<or> new = ?m \<and> fresher old new"
    if "map_of (np_cache p) key = Some old \<and> map_of (np_cache p') key = Some new" for key old new
    using cache that by (auto simp: update_conv split: if_splits)
  show "map_of (np_cache p') key \<noteq> None" if "map_of (np_cache p) key = Some old" for key old
    using cache that by (auto simp: update_conv)
  show "\<not> ok" and "p' = request_resync p r"
    if "authentic sessions p ingress opened \<and> state_type (h_type (or_header opened)) \<and>
      map_of (np_cache p) ?key = Some old \<and> 16 \<le> m_length old \<and> 16 \<le> or_length opened \<and> delta_gap old ?m r" for old r
    using that assms ingest_authentic [of sessions p ingress opened now]
    by (auto simp: delta_gap_def Let_def not_less)
qed


section \<open>Examples\<close>

text \<open>A position record as it arrives: the encoded value, padded with zeros.\<close>

definition position_record :: "Position \<Rightarrow> OpenRecord" where
  "position_record v = \<lparr>or_header = default_header\<lparr>h_type := MT_Position, h_qos := Qos_StateLatest,
      h_source_id := 9, h_destination_id := 5\<rparr>,
     or_payload = position_wire v @ replicate (kMaxPayloadBytes - kPositionBytes) 0,
     or_length = kPositionBytes\<rparr>"

lemma position_class [simp]:
  "state_type MT_Position" "\<not> control_type MT_Position" "\<not> command_type MT_Position"
  by (simp_all add: type_class_defs)

lemma position_record_simps [simp]:
  "h_type (or_header (position_record v)) = MT_Position" "or_length (position_record v) = kPositionBytes"
  "h_source_id (or_header (position_record v)) = 9"
  by (simp_all add: position_record_def)

lemma ingress_position:
  assumes "position_ok v"
  shows "m_payload (ingress_message (position_record v)) =
      position_wire v @ replicate (kMaxPayloadBytes - kPositionBytes) 0"
    "decode_position (Some (m_payload (ingress_message (position_record v)))) kPositionBytes = Some v"
    "decode_state_meta (Some (m_payload (ingress_message (position_record v)))) 16 = Some (p_meta v)"
    "stream_key (ingress_message (position_record v)) =
      pack_key 18 (sm_source_id (p_meta v)) (sm_resource_id (p_meta v))"
proof -
  let ?rest = "replicate (kMaxPayloadBytes - kPositionBytes) 0"
  have len: "length (position_wire v) = kPositionBytes" using position.wire_length [OF assms] .
  then show payload: "m_payload (ingress_message (position_record v)) = position_wire v @ ?rest"
    by (simp add: ingress_message_def position_record_def codec_simps)
  show "decode_position (Some (m_payload (ingress_message (position_record v)))) kPositionBytes = Some v"
    unfolding payload using position.decode_wire [OF assms] by simp
  have "meta_ok (p_meta v)" using assms by (simp add: position_ok_def)
  then show meta: "decode_state_meta (Some (m_payload (ingress_message (position_record v)))) 16 = Some (p_meta v)"
    unfolding payload position_wire_def using meta.decode_wire by simp
  show "stream_key (ingress_message (position_record v)) =
      pack_key 18 (sm_source_id (p_meta v)) (sm_resource_id (p_meta v))"
    using meta by (simp add: stream_key_def pack_key_def position_record_def message_consts)
qed

definition example_sessions :: "nat \<Rightarrow> Session" where
  "example_sessions ref = new_Session \<lparr>dk_session = \<lparr>sid_value = 1, sid_epoch = 1\<rparr>, dk_local_id = 5,
     dk_peer_id = 9, dk_tx = [1], dk_rx = [2]\<rparr>"

definition example_subscription :: Subscription where
  "example_subscription = \<lparr>sb_type = MT_Position, sb_qos = Qos_StateLatest, sb_source_id = 9,
     sb_interval_ms = 0, sb_flags = 0\<rparr>"

definition two_links :: "nat \<Rightarrow> NativeProxy" where
  "two_links cap = snd (add_link (snd (add_link (new_NativeProxy cap) 1 0)) 2 0)"

lemma two_links_eq:
  "np_links (two_links cap) =
     [(2, \<lparr>ls_session = Some 0, ls_queue = new_BoundedQosQueue cap, ls_subscriptions = []\<rparr>),
      (1, \<lparr>ls_session = Some 0, ls_queue = new_BoundedQosQueue cap, ls_subscriptions = []\<rparr>)]"
  "np_cache (two_links cap) = []" "np_resync (two_links cap) = []" "np_queue_capacity (two_links cap) = cap"
  by (simp_all add: two_links_def add_link_def new_NativeProxy_def)

definition example_cached :: "nat \<Rightarrow> NativeProxy" where
  "example_cached cap = snd (ingest example_sessions (two_links cap) 1 (position_record example_position) 0)"

lemma example_position_ok: "position_ok example_position"
  using example_state_valid by simp

lemma example_authentic:
  "position_ok v \<Longrightarrow> map_of (np_links p) 1 = Some l \<Longrightarrow> ls_session l = Some 0 \<Longrightarrow>
     authentic example_sessions p 1 (position_record v)"
  using ingress_position(2) [of v]
  by (simp add: authentic_def position_record_def example_sessions_def new_Session_def message_consts wire_consts)

lemma example_cached_eq:
  "np_cache (example_cached cap) =
     [(stream_key (ingress_message (position_record example_position)),
       ingress_message (position_record example_position))]"
  "np_links (example_cached cap) = np_links (two_links cap)"
  "np_resync (example_cached cap) = []" "np_queue_capacity (example_cached cap) = cap"
proof -
  have "authentic example_sessions (two_links cap) 1 (position_record example_position)"
    using example_authentic [OF example_position_ok, of "two_links cap"] by (simp add: two_links_eq)
  then have "example_cached cap = snd (forward_all (store_state (two_links cap)
      (stream_key (ingress_message (position_record example_position)))
      (ingress_message (position_record example_position))) 1
      (ingress_message (position_record example_position)) 0)"
    by (simp add: example_cached_def ingest_authentic Let_def two_links_eq)
  then show "np_cache (example_cached cap) = [(stream_key (ingress_message (position_record example_position)),
       ingress_message (position_record example_position))]"
    "np_links (example_cached cap) = np_links (two_links cap)"
    "np_resync (example_cached cap) = []" "np_queue_capacity (example_cached cap) = cap"
    by (simp_all add: forward_all_def Let_def store_state_def two_links_eq forward_def)
qed


section \<open>Further properties and witnesses\<close>

definition subscribed :: "nat \<Rightarrow> NativeProxy" where
  "subscribed cap = snd (subscribe id (two_links cap) 2 example_subscription)"

lemma subscribed_eq:
  "np_links (subscribed cap) =
     [(2, \<lparr>ls_session = Some 0, ls_queue = new_BoundedQosQueue cap, ls_subscriptions = [(18, example_subscription)]\<rparr>),
      (1, \<lparr>ls_session = Some 0, ls_queue = new_BoundedQosQueue cap, ls_subscriptions = []\<rparr>)]"
  "np_cache (subscribed cap) = []"
  by (simp_all add: subscribed_def subscribe_def two_links_eq example_subscription_def Let_def
      kMaxProxySubscriptions_def)

text \<open>A position from link 1 reaches the queue of link 2, addressed to it, and the cache.\<close>

theorem ingest_forwards_to_subscribers_witness:
  "\<exists>p' l. ingest example_sessions (subscribed 4) 1 (position_record example_position) 0 = (True, p') \<and>
     map_of (np_links p') 2 = Some l \<and>
     map snd (q_state (ls_queue l)) = [readdressed (ingress_message (position_record example_position)) 2] \<and>
     np_cache p' \<noteq> []"
proof -
  let ?m = "ingress_message (position_record example_position)" and ?o = "position_record example_position"
  obtain ok p' where run: "ingest example_sessions (subscribed 4) 1 ?o 0 = (ok, p')" by fastforce
  have "forwardable example_sessions (subscribed 4) 1 ?o"
    using example_authentic [OF example_position_ok, of "subscribed 4"] by (simp add: forwardable_def subscribed_eq)
  note out = ingest_forwards_to_subscribers [OF run, unfolded Let_def if_P [OF this]]
  have "wants \<lparr>ls_session = Some 0, ls_queue = new_BoundedQosQueue 4, ls_subscriptions = [(18, example_subscription)]\<rparr> ?m"
    by (simp add: wants_def example_subscription_def)
  then have "map_of (np_links p') 2 = Some \<lparr>ls_session = Some 0,
      ls_queue = snd (BoundedQosQueue_push (new_BoundedQosQueue 4) (readdressed ?m 2) 0),
      ls_subscriptions = [(18, example_subscription)]\<rparr>"
    using out by (simp add: subscribed_eq)
  moreover have "map snd (q_state (snd (BoundedQosQueue_push (new_BoundedQosQueue 4) (readdressed ?m 2) 0))) = [readdressed ?m 2]"
    by (simp add: BoundedQosQueue_push_def new_BoundedQosQueue_def readdressed_def Let_def position_record_def
        is_state_def drop_events.simps message_consts wire_consts BoundedQosQueue_size_def expired_def default_header_def)
  moreover have "map_of (np_cache p') (stream_key ?m) = Some ?m" "ok" using out by simp_all
  then have "np_cache p' \<noteq> []" by auto
  ultimately show ?thesis using run \<open>ok\<close> by fastforce
qed

text \<open>A delta that skips a generation: the cache holds generation 3, the delta is based on 7.\<close>

definition gap_position :: Position where
  "gap_position = example_position\<lparr>p_meta := example_meta\<lparr>sm_generation := 8, sm_base_generation := 7,
     sm_snapshot := 0\<rparr>\<rparr>"

lemma gap_position_ok: "position_ok gap_position"
  by (simp add: gap_position_def example_position_def position_ok_def meta_ok_def example_meta_def)

theorem cache_moves_forward_witness:
  "ingest example_sessions (example_cached 4) 1 (position_record gap_position) 10 =
     (False, request_resync (example_cached 4) \<lparr>rs_type = MT_Position, rs_source_id = 9, rs_resource_id = 1\<rparr>) \<and>
   np_resync (snd (ingest example_sessions (example_cached 4) 1 (position_record gap_position) 10)) =
     [\<lparr>rs_type = MT_Position, rs_source_id = 9, rs_resource_id = 1\<rparr>]"
proof -
  let ?old = "ingress_message (position_record example_position)"
  let ?r = "\<lparr>rs_type = MT_Position, rs_source_id = 9, rs_resource_id = 1\<rparr>"
  let ?i = "ingest example_sessions (example_cached 4) 1 (position_record gap_position) 10"
  have auth: "authentic example_sessions (example_cached 4) 1 (position_record gap_position)"
    using example_authentic [OF gap_position_ok, of "example_cached 4"] by (simp add: example_cached_eq two_links_eq)
  have old: "map_of (np_cache (example_cached 4)) (stream_key (ingress_message (position_record gap_position))) = Some ?old"
    using ingress_position(4) [OF gap_position_ok] ingress_position(4) [OF example_position_ok]
    by (simp add: example_cached_eq gap_position_def example_position_def example_meta_def)
  have "delta_gap ?old (ingress_message (position_record gap_position)) ?r"
    using ingress_position(3) [OF gap_position_ok] ingress_position(3) [OF example_position_ok]
    by (simp add: delta_gap_def) (simp add: position_record_def gap_position_def example_position_def example_meta_def)
  moreover have "state_type (h_type (or_header (position_record gap_position)))" "16 \<le> m_length ?old"
    "16 \<le> or_length (position_record gap_position)"
    by (simp_all add: message_consts)
  ultimately have "\<not> fst ?i \<and> snd ?i = request_resync (example_cached 4) ?r"
    using cache_moves_forward [of example_sessions "example_cached 4" 1 "position_record gap_position" 10,
        OF surjective_pairing] auth old by blast
  then show ?thesis by (simp add: prod_eq_iff request_resync_def example_cached_eq)
qed

text \<open>
  C27: A subscription delivers the cached state. If \<open>subscribe\<close> succeeds then, whatever the iteration
  order of the cache, the subscription is in place and every cached message of the type and source
  with latest-state QoS is queued for the link. If it fails after its checks (the queue refused a
  replayed message), the subscription is in place all the same. Replayed messages are the cached
  ones unchanged: unlike forwarded ones they keep the destination of the record they came in.
\<close>

theorem subscribe_delivers_cached_state:
  assumes "proxy_inv cap p" and "mset (ord (np_cache p)) = mset (np_cache p)"
    and "map_of (np_links p) k = Some l" and "subscribe ord p k sub = (ok, p')"
  shows "p' = p \<and> \<not> ok \<or>
    (\<exists>l'. map_of (np_links p') k = Some l' \<and>
      map_of (ls_subscriptions l') (MessageType_u8 (sb_type sub)) = Some sub \<and>
      set (queue_order (ls_queue l')) \<subseteq> set (queue_order (ls_queue l)) \<union> snd ` set (np_cache p) \<and>
      (ok \<longrightarrow> (\<forall>(key, m)\<in>set (np_cache p). is_state m \<and> h_source_id (m_header m) = sb_source_id sub \<and>
        MessageType_u8 (h_type (m_header m)) = MessageType_u8 (sb_type sub) \<longrightarrow>
        (key, m) \<in> set (q_state (ls_queue l')))))"
proof (cases "subscription_refused p l sub")
  case True
  then show ?thesis using assms(3,4) by (simp add: subscribe_eq)
next
  case False
  let ?key = "MessageType_u8 (sb_type sub)"
  obtain b q where rep: "replay ?key (sb_source_id sub) (ord (np_cache p)) (ls_queue l) = (b, q)" by fastforce
  define l' where "l' = l\<lparr>ls_subscriptions := AList.update ?key sub (ls_subscriptions l), ls_queue := q\<rparr>"
  have res: "ok = b" "p' = p\<lparr>np_links := AList.update k l' (np_links p)\<rparr>"
    using False assms(3,4) rep by (simp_all add: subscribe_eq l'_def)
  have inv: "queue_inv (ls_queue l)" using proxy_link_ok [OF assms(1,3)] by (simp add: link_ok_def)
  have "set (ord (np_cache p)) = set (np_cache p)" using assms(2) by (rule mset_eq_setD)
  moreover have "distinct (map fst (ord (np_cache p)))"
    using assms(1,2) unfolding proxy_inv_def by (metis mset_eq_imp_distinct_iff mset_map)
  ultimately have cache: "set (ord (np_cache p)) = set (np_cache p)" "list_all cache_entry_ok (ord (np_cache p))"
    "distinct (map fst (ord (np_cache p)))"
    using assms(1) by (simp_all add: proxy_inv_def list_all_iff)
  have "(key, m) \<in> set (q_state q)"
    if "b" "(key, m) \<in> set (np_cache p)" "is_state m" "h_source_id (m_header m) = sb_source_id sub"
      "MessageType_u8 (h_type (m_header m)) = ?key" for key m
    using replay_delivers [OF inv _ cache(2,3)] rep cache(1) that by simp
  moreover have "set (queue_order q) \<subseteq> set (queue_order (ls_queue l)) \<union> snd ` set (np_cache p)"
    using replay_ok [OF inv rep] cache(1) by auto
  ultimately show ?thesis
    using res by (intro disjI2 exI [of _ l']) (auto simp: update_conv l'_def)
qed

lemma example_push:
  "fst (BoundedQosQueue_push (new_BoundedQosQueue 4) (ingress_message (position_record v)) 0)"
  by (simp add: BoundedQosQueue_push_def new_BoundedQosQueue_def Let_def position_record_def is_state_def
      drop_events.simps message_consts wire_consts BoundedQosQueue_size_def expired_def default_header_def)

theorem subscribe_delivers_cached_state_witness:
  "\<exists>p' l'. subscribe id (example_cached 4) 2 example_subscription = (True, p') \<and> map_of (np_links p') 2 = Some l' \<and>
     (stream_key (ingress_message (position_record example_position)), ingress_message (position_record example_position))
       \<in> set (q_state (ls_queue l'))"
proof -
  let ?m = "ingress_message (position_record example_position)"
  have inv: "proxy_inv 4 (example_cached 4)"
    unfolding example_cached_def two_links_def
    by (intro ingest_inv [OF _ surjective_pairing] add_link_inv) (simp add: new_NativeProxy_def proxy_inv_def)
  obtain q where push: "BoundedQosQueue_push (new_BoundedQosQueue 4) ?m 0 = (True, q)"
    using example_push by (metis prod.collapse)
  obtain p' where run: "subscribe id (example_cached 4) 2 example_subscription = (True, p')"
    using push by (auto simp: subscribe_def example_subscription_def example_cached_eq two_links_eq Let_def
        kMaxProxySubscriptions_def)
  have "map_of (np_links (example_cached 4)) 2 = Some \<lparr>ls_session = Some 0,
      ls_queue = new_BoundedQosQueue 4, ls_subscriptions = []\<rparr>"
    by (simp add: example_cached_eq two_links_eq)
  from subscribe_delivers_cached_state [OF inv _ this run] obtain l' where l': "map_of (np_links p') 2 = Some l'"
    and all: "\<forall>(key, m)\<in>set (np_cache (example_cached 4)). is_state m \<and>
        h_source_id (m_header m) = sb_source_id example_subscription \<and>
        MessageType_u8 (h_type (m_header m)) = MessageType_u8 (sb_type example_subscription) \<longrightarrow>
        (key, m) \<in> set (q_state (ls_queue l'))"
    by auto
  have "is_state ?m" by (simp add: is_state_def position_record_def)
  then have "(stream_key ?m, ?m) \<in> set (q_state (ls_queue l'))"
    using all by (simp add: example_cached_eq example_subscription_def)
  with run l' show ?thesis by blast
qed

text \<open>
  Commands and control messages are never forwarded. In every reachable state, a record of a
  command or control type, though accepted, changes no link: there can be no subscription for it.
\<close>

theorem commands_are_not_forwarded:
  assumes "proxy_step\<^sup>*\<^sup>* (new_NativeProxy cap) p" and "ingest sessions p ingress opened now = (ok, p')"
    and "command_type (h_type (or_header opened)) \<or> control_type (h_type (or_header opened))"
  shows "map_of (np_links p') = map_of (np_links p)"
proof (rule ext)
  fix k
  have inv: "proxy_inv cap p" using proxy_runs.inv_reachable assms(1) by blast
  have "\<not> wants l (ingress_message opened)" if "map_of (np_links p) k = Some l" for l
  proof
    assume "wants l (ingress_message opened)"
    then obtain sub where "map_of (ls_subscriptions l) (MessageType_u8 (h_type (or_header opened))) = Some sub"
      by (auto simp: wants_def)
    then have "subscription_entry_ok (MessageType_u8 (h_type (or_header opened)), sub)"
      using proxy_link_ok [OF inv that] map_of_SomeD by (fastforce simp: link_ok_def list_all_iff)
    moreover have "known_type (h_type (or_header opened))" using assms(3) command_control_known by blast
    ultimately show False
      using assms(3) known_type_inj by (auto simp: subscription_entry_ok_def)
  qed
  then show "map_of (np_links p') k = map_of (np_links p) k"
    using ingest_forwards_to_subscribers_aux [OF assms(2), of k] by (cases "map_of (np_links p) k") auto
qed


definition example_command_record :: OpenRecord where
  "example_command_record = \<lparr>or_header = default_header\<lparr>h_type := MT_CommandAck,
      h_source_id := 9, h_destination_id := 5\<rparr>, or_payload = replicate kMaxPayloadBytes 0, or_length = 0\<rparr>"

theorem commands_are_not_forwarded_witness:
  "fst (ingest example_sessions (two_links 4) 1 example_command_record 0) \<and>
   map_of (np_links (snd (ingest example_sessions (two_links 4) 1 example_command_record 0))) =
     map_of (np_links (two_links 4))"
proof
  have "authentic example_sessions (two_links 4) 1 example_command_record"
    by (simp add: authentic_def two_links_eq example_command_record_def example_sessions_def new_Session_def)
  then show "fst (ingest example_sessions (two_links 4) 1 example_command_record 0)"
    by (simp add: ingest_authentic example_command_record_def type_class_defs forward_all_def Let_def)
  have "proxy_step\<^sup>*\<^sup>* (new_NativeProxy 4) (two_links 4)"
    unfolding two_links_def
    by (rule rtranclp.rtrancl_into_rtrancl, rule rtranclp.rtrancl_into_rtrancl, rule rtranclp.rtrancl_refl)
       (rule proxy_step.add)+
  then show "map_of (np_links (snd (ingest example_sessions (two_links 4) 1 example_command_record 0))) =
     map_of (np_links (two_links 4))"
    by (rule commands_are_not_forwarded [OF _ surjective_pairing])
       (simp add: example_command_record_def type_class_defs)
qed

end
