(* ===== verification/Transport.thy ===== *)
theory Transport
  imports Session_Runs
begin

text \<open>
  The transport of \<^verbatim>\<open>include/new_mavlink/transport.hpp\<close> and \<^verbatim>\<open>src/transport.cpp\<close>:
  \<^verbatim>\<open>class UdpEndpoint\<close> around one socket descriptor and \<^verbatim>\<open>class NativeEndpoint\<close>, a
  session with a record buffer. The system calls are the fields of a parameter of type
  \<open>'o posix\<close>, functions on a state \<open>'o\<close> of the operating system, so every statement is about
  every behaviour of the network: loss, reordering, duplication, truncation and failing calls.
  What POSIX documents of descriptors and of \<^verbatim>\<open>recvfrom\<close> is the predicate \<open>posix_udp\<close>.
\<close>

section \<open>The operating system\<close>

text \<open>
  Addresses are in host byte order (the program converts with \<^verbatim>\<open>htonl\<close> and \<^verbatim>\<open>htons\<close>).
  \<open>os_recvfrom\<close> takes the buffer and returns it as the call leaves it; \<open>os_select\<close> waits for one
  descriptor, with the timeout in seconds and microseconds.
\<close>

record 'o posix =
  os_socket :: "'o \<Rightarrow> int \<times> 'o"
  os_setsockopt :: "int \<Rightarrow> 'o \<Rightarrow> int \<times> 'o"
  os_bind :: "int \<Rightarrow> u32 \<Rightarrow> u16 \<Rightarrow> 'o \<Rightarrow> int \<times> 'o"
  os_inet_pton :: "string \<Rightarrow> int \<times> u32"
  os_sendto :: "int \<Rightarrow> byte list \<Rightarrow> u32 \<Rightarrow> u16 \<Rightarrow> 'o \<Rightarrow> int \<times> 'o"
  os_select :: "int \<Rightarrow> nat \<Rightarrow> nat \<Rightarrow> 'o \<Rightarrow> int \<times> 'o"
  os_recvfrom :: "int \<Rightarrow> byte list \<Rightarrow> nat \<Rightarrow> 'o \<Rightarrow> (int \<times> byte list) \<times> 'o"
  os_close :: "int \<Rightarrow> 'o \<Rightarrow> int \<times> 'o"

definition inaddr_loopback :: u32 where "inaddr_loopback = 0x7F000001"

text \<open>
  What the descriptor calls document, for a function \<open>opened\<close> that reads the open descriptors off
  the system state: a new descriptor is one that was not open, closing removes it, the other calls
  neither open nor close, and \<^verbatim>\<open>recvfrom\<close> stores at most the given number of bytes.
\<close>

definition posix_udp :: "'o posix \<Rightarrow> ('o \<Rightarrow> int set) \<Rightarrow> bool" where
  "posix_udp P opened \<longleftrightarrow>
     (\<forall>os. let (fd, os') = os_socket P os in
        if fd < 0 then opened os' = opened os else fd \<notin> opened os \<and> opened os' = insert fd (opened os)) \<and>
     (\<forall>fd os. opened (snd (os_setsockopt P fd os)) = opened os) \<and>
     (\<forall>fd a p os. opened (snd (os_bind P fd a p os)) = opened os) \<and>
     (\<forall>fd bs a p os. opened (snd (os_sendto P fd bs a p os)) = opened os) \<and>
     (\<forall>fd s us os. opened (snd (os_select P fd s us os)) = opened os) \<and>
     (\<forall>fd buf n os. opened (snd (os_recvfrom P fd buf n os)) = opened os \<and>
        fst (fst (os_recvfrom P fd buf n os)) \<le> int n \<and>
        length (snd (fst (os_recvfrom P fd buf n os))) = length buf) \<and>
     (\<forall>fd os. opened (snd (os_close P fd os)) = opened os - {fd})"

section \<open>UDP endpoints\<close>

record UdpEndpoint =
  udp_fd :: int

definition new_UdpEndpoint :: UdpEndpoint where
  "new_UdpEndpoint = \<lparr>udp_fd = - 1\<rparr>"

definition UdpEndpoint_valid :: "UdpEndpoint \<Rightarrow> bool" where
  "UdpEndpoint_valid u \<longleftrightarrow> udp_fd u \<ge> 0"

definition UdpEndpoint_close :: "'o posix \<Rightarrow> UdpEndpoint \<Rightarrow> 'o \<Rightarrow> UdpEndpoint \<times> 'o" where
  "UdpEndpoint_close P u os =
     (if udp_fd u \<ge> 0 then (u\<lparr>udp_fd := - 1\<rparr>, snd (os_close P (udp_fd u) os)) else (u, os))"

definition UdpEndpoint_bind :: "'o posix \<Rightarrow> UdpEndpoint \<Rightarrow> u16 \<Rightarrow> 'o \<Rightarrow> bool \<times> UdpEndpoint \<times> 'o" where
  "UdpEndpoint_bind P u port os =
     (let (u, os) = UdpEndpoint_close P u os;
          (fd, os) = os_socket P os;
          u = u\<lparr>udp_fd := fd\<rparr>
      in if udp_fd u < 0 then (False, u, os)
         else
           let os = snd (os_setsockopt P (udp_fd u) os);
               (rc, os) = os_bind P (udp_fd u) inaddr_loopback port os
           in if rc \<noteq> 0 then (False, UdpEndpoint_close P u os) else (True, u, os))"

definition UdpEndpoint_send_to ::
    "'o posix \<Rightarrow> UdpEndpoint \<Rightarrow> string option \<Rightarrow> u16 \<Rightarrow> ptr \<Rightarrow> nat \<Rightarrow> 'o \<Rightarrow> bool \<times> 'o" where
  "UdpEndpoint_send_to P u host port bytes len os =
     (case (host, bytes) of
        (Some host, Some bs) \<Rightarrow>
          if udp_fd u < 0 \<or> len = 0 \<or> len > kMaxRecordBytes then (False, os)
          else if fst (os_inet_pton P host) \<noteq> 1 then (False, os)
          else let (sent, os) = os_sendto P (udp_fd u) (take len bs) (snd (os_inet_pton P host)) port os
               in (sent = int len, os)
      | _ \<Rightarrow> (False, os))"

definition UdpEndpoint_receive ::
    "'o posix \<Rightarrow> UdpEndpoint \<Rightarrow> ptr \<Rightarrow> nat \<Rightarrow> u32 \<Rightarrow> 'o \<Rightarrow> (bool \<times> ptr \<times> nat) \<times> 'o" where
  "UdpEndpoint_receive P u bytes capacity timeout_ms os =
     (case bytes of
        None \<Rightarrow> ((False, None, 0), os)
      | Some buf \<Rightarrow>
          if udp_fd u < 0 \<or> capacity < kMaxRecordBytes then ((False, Some buf, 0), os)
          else
            let (ready, os) = os_select P (udp_fd u) (unat (timeout_ms div 1000))
                                (unat ((timeout_ms mod 1000) * 1000)) os
            in if ready \<le> 0 then ((False, Some buf, 0), os)
               else
                 let ((received, buf), os) = os_recvfrom P (udp_fd u) buf capacity os
                 in if received \<le> 0 then ((False, Some buf, 0), os)
                    else ((True, Some buf, nat received), os))"

section \<open>Native endpoints\<close>

record NativeEndpoint =
  ne_session :: Session
  ne_buffer :: "byte list"

definition new_NativeEndpoint :: "Session \<Rightarrow> NativeEndpoint" where
  "new_NativeEndpoint s = \<lparr>ne_session = s, ne_buffer = replicate kMaxRecordBytes 0\<rparr>"

text \<open>
  As in the record layer \<open>Inl e\<close> is a \<^verbatim>\<open>false\<close> return with \<^verbatim>\<open>error\<close> equal to \<open>e\<close>: a record
  that was sealed and then not sent gives \<open>Inl RE_None\<close>, since \<^verbatim>\<open>seal\<close> has cleared the error.
  What a refused \<^verbatim>\<open>seal\<close> leaves in the buffer is not recorded: every call overwrites the bytes
  it reads.
\<close>

definition NativeEndpoint_send ::
    "'o posix \<Rightarrow> ascon \<Rightarrow> NativeEndpoint \<Rightarrow> RecordHeader \<Rightarrow> ptr \<Rightarrow> nat \<Rightarrow> UdpEndpoint \<Rightarrow>
     string option \<Rightarrow> u16 \<Rightarrow> 'o \<Rightarrow> (RecordError + unit) \<times> NativeEndpoint \<times> 'o" where
  "NativeEndpoint_send P A e header payload len udp host port os =
     (case Session_seal A (ne_session e) header payload len (ne_buffer e) of
        (Inl err, s) \<Rightarrow> (Inl err, e\<lparr>ne_session := s\<rparr>, os)
      | (Inr (buf, wire_length), s) \<Rightarrow>
          let (ok, os) = UdpEndpoint_send_to P udp host port (Some buf) wire_length os
          in (if ok then Inr () else Inl RE_None, e\<lparr>ne_session := s, ne_buffer := buf\<rparr>, os))"

definition NativeEndpoint_receive_uncommitted ::
    "'o posix \<Rightarrow> ascon \<Rightarrow> NativeEndpoint \<Rightarrow> UdpEndpoint \<Rightarrow> u32 \<Rightarrow> 'o \<Rightarrow>
     (RecordError + OpenRecord) \<times> NativeEndpoint \<times> 'o" where
  "NativeEndpoint_receive_uncommitted P A e udp now_ms os =
     (let ((ok, buf, len), os) =
            UdpEndpoint_receive P udp (Some (ne_buffer e)) (length (ne_buffer e)) 1000 os;
          e = e\<lparr>ne_buffer := the buf\<rparr>
      in if \<not> ok then (Inl RE_Timeout, e, os)
         else (Session_open_uncommitted A (ne_session e) buf len now_ms, e, os))"

definition NativeEndpoint_commit :: "NativeEndpoint \<Rightarrow> OpenRecord \<Rightarrow> (RecordError + unit) \<times> NativeEndpoint" where
  "NativeEndpoint_commit e rcd =
     (let (r, s) = Session_commit_replay (ne_session e) rcd in (r, e\<lparr>ne_session := s\<rparr>))"

definition NativeEndpoint_receive ::
    "'o posix \<Rightarrow> ascon \<Rightarrow> NativeEndpoint \<Rightarrow> UdpEndpoint \<Rightarrow> u32 \<Rightarrow> 'o \<Rightarrow>
     (RecordError + OpenRecord) \<times> NativeEndpoint \<times> 'o" where
  "NativeEndpoint_receive P A e udp now_ms os =
     (case NativeEndpoint_receive_uncommitted P A e udp now_ms os of
        (Inl err, e, os) \<Rightarrow> (Inl err, e, os)
      | (Inr rcd, e, os) \<Rightarrow>
          (case NativeEndpoint_commit e rcd of
             (Inl err, e) \<Rightarrow> (Inl err, e, os)
           | (Inr u, e) \<Rightarrow> (Inr rcd, e, os)))"

section \<open>Descriptors\<close>

inductive udp_step :: "'o posix \<Rightarrow> UdpEndpoint \<times> 'o \<Rightarrow> UdpEndpoint \<times> 'o \<Rightarrow> bool" for P where
  bind: "udp_step P (u, os) (snd (UdpEndpoint_bind P u port os))"
| send: "udp_step P (u, os) (u, snd (UdpEndpoint_send_to P u host port bytes len os))"
| receive: "udp_step P (u, os) (u, snd (UdpEndpoint_receive P u bytes cap t os))"
| close: "udp_step P (u, os) (UdpEndpoint_close P u os)"

definition descriptor_inv :: "'o posix \<Rightarrow> ('o \<Rightarrow> int set) \<Rightarrow> int set \<Rightarrow> UdpEndpoint \<times> 'o \<Rightarrow> bool" where
  "descriptor_inv P opened base = (\<lambda>(u, os). posix_udp P opened \<and>
     opened os = base \<union> (if UdpEndpoint_valid u then {udp_fd u} else {}) \<and>
     (UdpEndpoint_valid u \<longrightarrow> udp_fd u \<notin> base))"

lemma posix_udpD:
  assumes "posix_udp P opened"
  shows "fd < 0 \<Longrightarrow> os_socket P os = (fd, os') \<Longrightarrow> opened os' = opened os"
    and "0 \<le> fd \<Longrightarrow> os_socket P os = (fd, os') \<Longrightarrow> fd \<notin> opened os \<and> opened os' = insert fd (opened os)"
    and "opened (snd (os_setsockopt P fd os)) = opened os"
    and "opened (snd (os_bind P fd a p os)) = opened os"
    and "opened (snd (os_sendto P fd bs a p os)) = opened os"
    and "opened (snd (os_select P fd s us os)) = opened os"
    and "opened (snd (os_recvfrom P fd buf n os)) = opened os"
    and "fst (fst (os_recvfrom P fd buf n os)) \<le> int n"
    and "length (snd (fst (os_recvfrom P fd buf n os))) = length buf"
    and "opened (snd (os_close P fd os)) = opened os - {fd}"
proof -
  note laws = assms [unfolded posix_udp_def]
  show "fd < 0 \<Longrightarrow> os_socket P os = (fd, os') \<Longrightarrow> opened os' = opened os"
    and "0 \<le> fd \<Longrightarrow> os_socket P os = (fd, os') \<Longrightarrow> fd \<notin> opened os \<and> opened os' = insert fd (opened os)"
    using conjunct1 [OF laws, rule_format, of os] by auto
qed (use assms in \<open>simp_all add: posix_udp_def\<close>)

lemma close_inv: "descriptor_inv P opened base (u, os) \<Longrightarrow> descriptor_inv P opened base (UdpEndpoint_close P u os)"
  by (auto simp: descriptor_inv_def UdpEndpoint_close_def UdpEndpoint_valid_def posix_udpD)

lemma close_closes: "\<not> UdpEndpoint_valid (fst (UdpEndpoint_close P u os))"
  by (auto simp: UdpEndpoint_close_def UdpEndpoint_valid_def)

lemma bind_inv:
  assumes "descriptor_inv P opened base (u, os)"
  shows "descriptor_inv P opened base (snd (UdpEndpoint_bind P u port os))"
proof -
  obtain u1 os1 where close: "UdpEndpoint_close P u os = (u1, os1)" by fastforce
  obtain fd os2 where sock: "os_socket P os1 = (fd, os2)" by fastforce
  let ?os3 = "snd (os_setsockopt P fd os2)"
  obtain rc os4 where bnd: "os_bind P fd inaddr_loopback port ?os3 = (rc, os4)" by fastforce
  have closed: "descriptor_inv P opened base (u1, os1)" and "\<not> UdpEndpoint_valid u1"
    using close_inv [OF assms] close_closes [of P u os] by (simp_all add: close)
  then have posix: "posix_udp P opened" and base: "opened os1 = base"
    by (simp_all add: descriptor_inv_def)
  show ?thesis
  proof (cases "fd < 0")
    case True
    then have "opened os2 = base" using posix_udpD(1) [OF posix True sock] base by simp
    with True posix show ?thesis
      by (simp add: UdpEndpoint_bind_def close sock descriptor_inv_def UdpEndpoint_valid_def)
  next
    case False
    then have "opened os2 = insert fd base" and "fd \<notin> base"
      using posix_udpD(2) [OF posix _ sock] base by simp_all
    moreover have "opened os4 = opened os2"
      using posix_udpD(4) [OF posix, of fd inaddr_loopback port ?os3] posix_udpD(3) [OF posix] bnd by simp
    ultimately have "descriptor_inv P opened base (u1\<lparr>udp_fd := fd\<rparr>, os4)"
      using posix False by (simp add: descriptor_inv_def UdpEndpoint_valid_def)
    then show ?thesis
      using False close_inv [of P opened base "u1\<lparr>udp_fd := fd\<rparr>" os4]
      by (simp add: UdpEndpoint_bind_def close sock bnd Let_def)
  qed
qed

lemma send_to_opened:
  "posix_udp P opened \<Longrightarrow> opened (snd (UdpEndpoint_send_to P u host port bytes len os)) = opened os"
  by (simp add: UdpEndpoint_send_to_def Let_def case_prod_beta posix_udpD split: option.split)

lemma receive_opened:
  "posix_udp P opened \<Longrightarrow> opened (snd (UdpEndpoint_receive P u bytes cap t os)) = opened os"
  by (simp add: UdpEndpoint_receive_def Let_def case_prod_beta posix_udpD split: option.split)

interpretation udp_runs: invariant_system
  "\<lambda>(u, os). u = new_UdpEndpoint \<and> posix_udp P opened \<and> opened os = base" "udp_step P"
  "descriptor_inv P opened base" for P opened base
proof (unfold_locales, goal_cases)
  case (1 s)
  then show ?case
    by (auto simp: descriptor_inv_def new_UdpEndpoint_def UdpEndpoint_valid_def)
next
  case (2 s s')
  from 2(2,1) show ?case
  proof cases
    case (bind u os port)
    with 2(1) show ?thesis by (simp only: bind_inv)
  next
    case (send u os host port bytes len)
    with 2(1) show ?thesis by (simp add: descriptor_inv_def send_to_opened)
  next
    case (receive u os bytes cap t)
    with 2(1) show ?thesis by (simp add: descriptor_inv_def receive_opened)
  next
    case (close u os)
    with 2(1) show ?thesis by (simp add: close_inv)
  qed
qed

section \<open>Receiving\<close>

text \<open>A timeout in milliseconds as the seconds and microseconds \<^verbatim>\<open>select\<close> takes.\<close>

lemma timeout_split:
  "unat (t div 1000) * 1000000 + unat ((t mod 1000) * 1000) = unat t * 1000"
  "unat ((t mod 1000) * 1000) < 1000000" for t :: u32
proof -
  have m: "unat (t mod 1000) = unat t mod 1000" and d: "unat (t div 1000) = unat t div 1000"
    by (simp_all add: unat_mod unat_div)
  have "unat (t mod 1000) < 1000" by (simp add: m)
  then have us: "unat ((t mod 1000) * 1000) = unat t mod 1000 * 1000"
    by (simp add: unat_word_ariths(2) m)
  show "unat ((t mod 1000) * 1000) < 1000000" by (simp add: us)
  show "unat (t div 1000) * 1000000 + unat ((t mod 1000) * 1000) = unat t * 1000"
    unfolding us d using div_mult_mod_eq [of "unat t" 1000] by linarith
qed

text \<open>Decoding and opening read only the bytes of the datagram.\<close>

lemma decode_header_take:
  "40 \<le> n \<Longrightarrow> n \<le> length b \<Longrightarrow> decode_header (Some (take n b)) = decode_header (Some b)"
  by (simp add: decode_header_def Let_def codec_simps crc16_ccitt_Some min_def)

lemma open_take:
  assumes "n \<le> length b"
  shows "Session_open_uncommitted A s (Some (take n b)) n now_ms = Session_open_uncommitted A s (Some b) n now_ms"
proof (cases "n < kHeaderBytes + kTagBytes")
  case True
  then show ?thesis by (simp add: Session_open_cases)
next
  case False
  then have "40 \<le> n" and "kHeaderBytes \<le> n" by (simp_all add: wire_consts)
  then have "take (n - kHeaderBytes) (drop kHeaderBytes (take n b)) = take (n - kHeaderBytes) (drop kHeaderBytes b)"
    and "take kHeaderBytes (take n b) = take kHeaderBytes b"
    by (simp_all add: drop_take min_def)
  then show ?thesis
    using \<open>40 \<le> n\<close> assms unfolding Session_open_cases by (simp only: decode_header_take)
qed

definition datagram_arrives :: "'o posix \<Rightarrow> UdpEndpoint \<Rightarrow> 'o \<Rightarrow> byte list \<Rightarrow> bool" where
  "datagram_arrives P u os dg \<longleftrightarrow> UdpEndpoint_valid u \<and> dg \<noteq> [] \<and> length dg \<le> kMaxRecordBytes \<and>
     (let (ready, os1) = os_select P (udp_fd u) 1 0 os in ready > 0 \<and>
       (\<forall>buf. length buf = kMaxRecordBytes \<longrightarrow>
         fst (os_recvfrom P (udp_fd u) buf kMaxRecordBytes os1) = (int (length dg), dg @ drop (length dg) buf)))"

lemma receive_arrived:
  assumes "datagram_arrives P u os dg" and "length (ne_buffer r) = kMaxRecordBytes"
  shows "fst (NativeEndpoint_receive_uncommitted P A r u now_ms os) =
      Session_open_uncommitted A (ne_session r) (Some dg) (length dg) now_ms"
    and "fst (snd (NativeEndpoint_receive_uncommitted P A r u now_ms os)) =
      r\<lparr>ne_buffer := dg @ drop (length dg) (ne_buffer r)\<rparr>"
proof -
  obtain ready os1 where sel: "os_select P (udp_fd u) 1 0 os = (ready, os1)" by fastforce
  obtain res os2 where rec: "os_recvfrom P (udp_fd u) (ne_buffer r) kMaxRecordBytes os1 = (res, os2)"
    by fastforce
  have dg: "dg \<noteq> []" "length dg \<le> kMaxRecordBytes" and up: "\<not> udp_fd u < 0" "0 < ready"
    and res: "res = (int (length dg), dg @ drop (length dg) (ne_buffer r))"
    using assms rec unfolding datagram_arrives_def sel UdpEndpoint_valid_def by auto
  have recv: "UdpEndpoint_receive P u (Some (ne_buffer r)) (length (ne_buffer r)) 1000 os =
      ((True, Some (dg @ drop (length dg) (ne_buffer r)), length dg), os2)"
    using up dg assms(2) rec by (simp add: UdpEndpoint_receive_def sel [simplified] res)
  have "Session_open_uncommitted A s (Some (dg @ drop (length dg) (ne_buffer r))) (length dg) now_ms =
      Session_open_uncommitted A s (Some dg) (length dg) now_ms" for s
    using open_take [of "length dg" "dg @ drop (length dg) (ne_buffer r)" A s now_ms] by simp
  then show "fst (NativeEndpoint_receive_uncommitted P A r u now_ms os) =
      Session_open_uncommitted A (ne_session r) (Some dg) (length dg) now_ms"
    and "fst (snd (NativeEndpoint_receive_uncommitted P A r u now_ms os)) =
      r\<lparr>ne_buffer := dg @ drop (length dg) (ne_buffer r)\<rparr>"
    by (simp_all add: NativeEndpoint_receive_uncommitted_def recv)
qed

section \<open>Runs of an endpoint\<close>

text \<open>
  Every sequence of calls on one endpoint, with any sockets, clock readings and network. A record
  counts as sent when it was sealed, whether or not \<^verbatim>\<open>sendto\<close> then reported success.
\<close>

datatype endpoint_op =
    Ep_send RecordHeader ptr nat UdpEndpoint "string option" u16
  | Ep_receive_uncommitted UdpEndpoint u32
  | Ep_commit OpenRecord
  | Ep_receive UdpEndpoint u32

fun endpoint_step ::
    "'o posix \<Rightarrow> ascon \<Rightarrow> NativeEndpoint \<Rightarrow> 'o \<Rightarrow> endpoint_op \<Rightarrow> session_event list \<times> NativeEndpoint \<times> 'o" where
  "endpoint_step P A e os (Ep_send h p len u host port) =
     (let (r, e', os') = NativeEndpoint_send P A e h p len u host port os
      in (if r = Inr () \<or> r = Inl RE_None then [Sent (epoch_of (ne_session e)) (h_sequence h)] else [], e', os'))"
| "endpoint_step P A e os (Ep_receive_uncommitted u now) =
     ([], snd (NativeEndpoint_receive_uncommitted P A e u now os))"
| "endpoint_step P A e os (Ep_commit rcd) =
     (let (r, e') = NativeEndpoint_commit e rcd
      in (if r = Inr () then [Committed (epoch_of (ne_session e)) (h_sequence (or_header rcd))] else [], e', os))"
| "endpoint_step P A e os (Ep_receive u now) =
     (let (r, e', os') = NativeEndpoint_receive P A e u now os
      in (case r of Inl err \<Rightarrow> []
          | Inr rcd \<Rightarrow> [Committed (epoch_of (ne_session e)) (h_sequence (or_header rcd))], e', os'))"

fun endpoint_run ::
    "'o posix \<Rightarrow> ascon \<Rightarrow> NativeEndpoint \<Rightarrow> 'o \<Rightarrow> endpoint_op list \<Rightarrow> session_event list \<times> NativeEndpoint \<times> 'o" where
  "endpoint_run P A e os [] = ([], e, os)"
| "endpoint_run P A e os (op # ops) =
     (let (evs, e', os') = endpoint_step P A e os op;
          (evs', e'', os'') = endpoint_run P A e' os' ops
      in (evs @ evs', e'', os''))"

lemma seal_error_not_None: "fst (Session_seal A s h p len buf) \<noteq> Inl RE_None"
  by (simp add: Session_seal_def Let_def split: option.split)

lemma send_session:
  assumes "NativeEndpoint_send P A e h p len u host port os = (r, e', os')"
  obtains s where "Session_seal A (ne_session e) h p len (ne_buffer e) = (case r of Inl err \<Rightarrow> Inl err | Inr x \<Rightarrow> Inl RE_None, s)"
      "r \<noteq> Inr ()" "r \<noteq> Inl RE_None" "e' = e\<lparr>ne_session := s\<rparr>" "os' = os"
  | buf n s where "Session_seal A (ne_session e) h p len (ne_buffer e) = (Inr (buf, n), s)"
      "UdpEndpoint_send_to P u host port (Some buf) n os = (r = Inr (), os')"
      "r = Inr () \<or> r = Inl RE_None" "e' = e\<lparr>ne_session := s, ne_buffer := buf\<rparr>"
proof (cases "Session_seal A (ne_session e) h p len (ne_buffer e)")
  case (Pair res s)
  show thesis
  proof (cases res)
    case (Inl err)
    then show thesis
      using that(1) [of s] assms Pair seal_error_not_None [of A "ne_session e" h p len "ne_buffer e"]
      by (auto simp: NativeEndpoint_send_def)
  next
    case (Inr x)
    then show thesis
      using that(2) [of "fst x" "snd x" s] assms Pair
      by (cases x) (auto simp: NativeEndpoint_send_def split: if_splits prod.splits)
  qed
qed

lemma receive_uncommitted_session:
  "ne_session (fst (snd (NativeEndpoint_receive_uncommitted P A e u now os))) = ne_session e"
  by (simp add: NativeEndpoint_receive_uncommitted_def Let_def case_prod_beta)

lemma receive_uncommitted_InrD:
  "NativeEndpoint_receive_uncommitted P A e u now_ms os = (Inr rcd, e1, os1) \<Longrightarrow>
     \<exists>n. Session_open_uncommitted A (ne_session e) (Some (ne_buffer e1)) n now_ms = Inr rcd"
  by (auto simp: NativeEndpoint_receive_uncommitted_def UdpEndpoint_receive_def Let_def
    split: prod.splits if_splits)

lemma commit_step:
  "NativeEndpoint_commit e rcd = (r, e') \<Longrightarrow>
   session_run A (ne_session e) [Op_commit rcd] =
     (if r = Inr () then [Committed (epoch_of (ne_session e)) (h_sequence (or_header rcd))] else [], ne_session e')"
  by (auto simp: NativeEndpoint_commit_def Let_def split: prod.splits sum.splits)

lemma endpoint_step_session:
  assumes "endpoint_step P A e os op = (evs, e', os')"
  shows "\<exists>ops. session_run A (ne_session e) ops = (evs, ne_session e')"
proof (cases op)
  case (Ep_send h p len u host port)
  obtain r where send: "NativeEndpoint_send P A e h p len u host port os = (r, e', os')"
    and evs: "evs = (if r = Inr () \<or> r = Inl RE_None then [Sent (epoch_of (ne_session e)) (h_sequence h)] else [])"
    using assms Ep_send by (auto split: prod.splits)
  from send have "session_run A (ne_session e) [Op_seal h p len (ne_buffer e)] = (evs, ne_session e')"
    by (cases rule: send_session) (auto simp: evs split: sum.splits)
  then show ?thesis by blast
next
  case (Ep_receive_uncommitted u now)
  then have "evs = []" and "ne_session e' = ne_session e"
    using assms receive_uncommitted_session [of P A e u now os] by (auto simp: prod_eq_iff)
  then have "session_run A (ne_session e) [] = (evs, ne_session e')" by simp
  then show ?thesis by blast
next
  case (Ep_commit rcd)
  obtain c e2 where com: "NativeEndpoint_commit e rcd = (c, e2)" by fastforce
  then have "session_run A (ne_session e) [Op_commit rcd] = (evs, ne_session e')"
    using assms Ep_commit commit_step [OF com, of A] by auto
  then show ?thesis by blast
next
  case (Ep_receive u now)
  obtain r e1 os1 where unc: "NativeEndpoint_receive_uncommitted P A e u now os = (r, e1, os1)"
    by (cases "NativeEndpoint_receive_uncommitted P A e u now os") auto
  then have same: "ne_session e1 = ne_session e"
    using receive_uncommitted_session [of P A e u now os] by simp
  show ?thesis
  proof (cases r)
    case (Inl err)
    then have "session_run A (ne_session e) [] = (evs, ne_session e')"
      using assms Ep_receive unc same by (auto simp: NativeEndpoint_receive_def)
    then show ?thesis by blast
  next
    case (Inr rcd)
    obtain c e2 where com: "NativeEndpoint_commit e1 rcd = (c, e2)" by fastforce
    then have "session_run A (ne_session e) [Op_commit rcd] = (evs, ne_session e')"
      using assms Ep_receive unc same Inr commit_step [OF com, of A]
      by (auto simp: NativeEndpoint_receive_def split: sum.splits)
    then show ?thesis by blast
  qed
qed

lemma session_run_append:
  "session_run A s ops = (evs, s') \<Longrightarrow> session_run A s' ops' = (evs', s'') \<Longrightarrow>
   session_run A s (ops @ ops') = (evs @ evs', s'')"
  by (induction ops arbitrary: s evs) (auto split: prod.splits)

lemma endpoint_run_session:
  "endpoint_run P A e os ops = (evs, e', os') \<Longrightarrow> \<exists>sops. session_run A (ne_session e) sops = (evs, ne_session e')"
proof (induction ops arbitrary: e os evs)
  case Nil
  then have "session_run A (ne_session e) [] = (evs, ne_session e')" by simp
  then show ?case by blast
next
  case (Cons op ops)
  obtain ev1 e1 os1 where step: "endpoint_step P A e os op = (ev1, e1, os1)"
    by (cases "endpoint_step P A e os op") auto
  obtain ev2 where "endpoint_run P A e1 os1 ops = (ev2, e', os')" and evs: "evs = ev1 @ ev2"
    using Cons.prems by (auto simp: step split: prod.splits)
  then obtain ops2 where "session_run A (ne_session e1) ops2 = (ev2, ne_session e')"
    using Cons.IH by blast
  moreover obtain ops1 where "session_run A (ne_session e) ops1 = (ev1, ne_session e1)"
    using endpoint_step_session [OF step] by blast
  ultimately show ?case
    unfolding evs using session_run_append by blast
qed

section \<open>A loopback network\<close>

text \<open>A concrete system: descriptors with their ports and the datagrams under way.\<close>

record loop_net =
  ln_sockets :: "(int \<times> u16) list"
  ln_mail :: "(u16 \<times> byte list) list"

definition ln_port :: "loop_net \<Rightarrow> int \<Rightarrow> u16" where
  "ln_port n fd = case_option 0 id (map_of (ln_sockets n) fd)"

definition loopback :: "loop_net posix" where
  "loopback = \<lparr>
     os_socket = (\<lambda>n. let fd = foldr max (map fst (ln_sockets n)) 0 + 1
                       in (fd, n\<lparr>ln_sockets := (fd, 0) # ln_sockets n\<rparr>)),
     os_setsockopt = (\<lambda>fd n. (0, n)),
     os_bind = (\<lambda>fd a p n. (0, n\<lparr>ln_sockets := map (\<lambda>(f, q). (f, if f = fd then p else q)) (ln_sockets n)\<rparr>)),
     os_inet_pton = (\<lambda>host. if host = ''127.0.0.1'' then (1, inaddr_loopback) else (0, 0)),
     os_sendto = (\<lambda>fd bs a p n. (int (length bs), n\<lparr>ln_mail := ln_mail n @ [(p, bs)]\<rparr>)),
     os_select = (\<lambda>fd s us n. (if map_of (ln_mail n) (ln_port n fd) = None then 0 else 1, n)),
     os_recvfrom = (\<lambda>fd buf cap n. case map_of (ln_mail n) (ln_port n fd) of
         None \<Rightarrow> ((- 1, buf), n)
       | Some dg \<Rightarrow> let got = take (min cap (length buf)) dg
                   in ((int (length got), got @ drop (length got) buf),
                       n\<lparr>ln_mail := remove1 (ln_port n fd, dg) (ln_mail n)\<rparr>)),
     os_close = (\<lambda>fd n. (0, n\<lparr>ln_sockets := filter (\<lambda>(f, q). f \<noteq> fd) (ln_sockets n)\<rparr>))\<rparr>"

definition ln_opened :: "loop_net \<Rightarrow> int set" where
  "ln_opened n = fst ` set (ln_sockets n)"

lemma foldr_max_ge: "x \<in> set xs \<Longrightarrow> x \<le> foldr max xs (0 :: int)" "0 \<le> foldr max xs (0 :: int)"
  by (induction xs) auto

lemma loopback_posix: "posix_udp loopback ln_opened"
proof -
  have fresh: "foldr max (map fst xs) 0 + 1 \<notin> fst ` set xs" for xs :: "(int \<times> u16) list"
    using foldr_max_ge(1) [of _ "map fst xs"] by fastforce
  have keep: "fst ` set (map (\<lambda>(f, q). (f, if f = fd then p else q)) xs) = fst ` set xs"
    and drop: "fst ` set (filter (\<lambda>(f, q). f \<noteq> fd) xs) = fst ` set xs - {fd}"
    for xs :: "(int \<times> u16) list" and fd p
    by (force simp: image_iff)+
  have nonneg: "\<not> foldr max (map fst xs) 0 + 1 < 0" for xs :: "(int \<times> u16) list"
    using foldr_max_ge(2) [of "map fst xs"] by simp
  show ?thesis
    unfolding posix_udp_def ln_opened_def
    by (intro conjI allI)
       (simp_all add: loopback_def Let_def fresh keep drop nonneg min.coboundedI2 del: set_map set_filter split: option.split)
qed

section \<open>Properties\<close>

text \<open>
  An endpoint never leaks a socket descriptor. After any sequence of bind, send, receive and
  close calls on a new \<^verbatim>\<open>UdpEndpoint\<close> (rebinding and failing calls included) the process has
  exactly the descriptors it had before, and the endpoint's own if it is valid; the destructor's
  \<^verbatim>\<open>close\<close> gives back exactly the initial set.
\<close>

theorem udp_descriptors_balanced:
  assumes "posix_udp P opened" and "(udp_step P)\<^sup>*\<^sup>* (new_UdpEndpoint, os0) (u, os)"
  shows "opened os = opened os0 \<union> (if UdpEndpoint_valid u then {udp_fd u} else {}) \<and>
    (UdpEndpoint_valid u \<longrightarrow> udp_fd u \<notin> opened os0) \<and>
    opened (snd (UdpEndpoint_close P u os)) = opened os0"
proof -
  have inv: "descriptor_inv P opened (opened os0) (u, os)"
    using udp_runs.inv_reachable [of P opened "opened os0" "(new_UdpEndpoint, os0)" "(u, os)"] assms by simp
  then have "descriptor_inv P opened (opened os0) (UdpEndpoint_close P u os)"
    by (rule close_inv)
  with inv show ?thesis
    using close_closes [of P u os] by (auto simp: descriptor_inv_def case_prod_beta split: if_splits)
qed

definition empty_net :: loop_net where
  "empty_net = \<lparr>ln_sockets = [], ln_mail = []\<rparr>"

theorem udp_descriptors_balanced_witness:
  "let (ok1, u1, os1) = UdpEndpoint_bind loopback new_UdpEndpoint 1 empty_net;
       (ok2, u2, os2) = UdpEndpoint_bind loopback u1 2 os1
   in ok1 \<and> ok2 \<and> UdpEndpoint_valid u2 \<and> ln_opened os2 = {udp_fd u2} \<and>
      ln_opened (snd (UdpEndpoint_close loopback u2 os2)) = {}"
proof -
  define u1 where "u1 = \<lparr>udp_fd = 1\<rparr>"
  define os1 where "os1 = \<lparr>ln_sockets = [(1, 1)], ln_mail = []\<rparr>"
  define os2 where "os2 = \<lparr>ln_sockets = [(1, 2)], ln_mail = []\<rparr>"
  have b1: "UdpEndpoint_bind loopback new_UdpEndpoint 1 empty_net = (True, u1, os1)"
    by (simp add: UdpEndpoint_bind_def UdpEndpoint_close_def new_UdpEndpoint_def loopback_def empty_net_def
      u1_def os1_def)
  have b2: "UdpEndpoint_bind loopback u1 2 os1 = (True, u1, os2)"
    by (simp add: UdpEndpoint_bind_def UdpEndpoint_close_def u1_def os1_def os2_def loopback_def)
  have "(udp_step loopback)\<^sup>*\<^sup>* (new_UdpEndpoint, empty_net) (u1, os1)"
    using udp_step.bind [of loopback new_UdpEndpoint empty_net 1] by (simp add: b1)
  moreover have "udp_step loopback (u1, os1) (u1, os2)"
    using udp_step.bind [of loopback u1 os1 2] by (simp add: b2)
  ultimately have run: "(udp_step loopback)\<^sup>*\<^sup>* (new_UdpEndpoint, empty_net) (u1, os2)"
    by (rule rtranclp.rtrancl_into_rtrancl)
  show ?thesis
    unfolding Let_def b1 case_prod_conv b2
    using udp_descriptors_balanced [OF loopback_posix run]
    by (simp add: u1_def UdpEndpoint_valid_def ln_opened_def empty_net_def)
qed

text \<open>
  C14: Whatever the network does, an endpoint seals every sequence number at most once per epoch and
  commits every record at most once: each sequence of calls on a \<^verbatim>\<open>NativeEndpoint\<close> acts on its
  session as a sequence of session calls with the same events, so the sent pairs (epoch, sequence)
  are strictly increasing and the committed ones distinct, also when datagrams are duplicated,
  reordered or lost and when \<^verbatim>\<open>sendto\<close> fails.
\<close>

theorem endpoint_refines_session:
  assumes "endpoint_run P A (new_NativeEndpoint (new_Session keys)) os ops = (evs, e', os')"
  shows "(\<exists>sops. session_run A (new_Session keys) sops = (evs, ne_session e')) \<and>
    sorted_wrt before (concat (map sent evs)) \<and> distinct (concat (map committed evs))"
proof -
  obtain sops where run: "session_run A (new_Session keys) sops = (evs, ne_session e')"
    using endpoint_run_session [OF assms] by (auto simp: new_NativeEndpoint_def)
  moreover have "window_rep (s_replay (new_Session keys)) {}"
    using window_rep_fresh by (simp add: new_Session_def)
  ultimately show ?thesis
    using session_run_sent [OF run] session_run_committed [OF run] by blast
qed

theorem endpoint_refines_session_witness:
  "\<exists>evs e' os'. endpoint_run loopback xor_ascon (new_NativeEndpoint (new_Session example_keys)) empty_net
     [Ep_commit \<lparr>or_header = example_header, or_payload = [], or_length = 0\<rparr>,
      Ep_receive new_UdpEndpoint 0,
      Ep_commit \<lparr>or_header = example_header, or_payload = [], or_length = 0\<rparr>] = (evs, e', os') \<and>
     evs = [Committed 3 4] \<and> distinct (concat (map committed evs))"
proof -
  let ?ops = "[Ep_commit \<lparr>or_header = example_header, or_payload = [], or_length = 0\<rparr>,
      Ep_receive new_UdpEndpoint 0,
      Ep_commit \<lparr>or_header = example_header, or_payload = [], or_length = 0\<rparr>]"
  have "\<exists>e' os'. endpoint_run loopback xor_ascon (new_NativeEndpoint (new_Session example_keys)) empty_net ?ops =
      ([Committed 3 4], e', os')"
    by (simp add: example_defs NativeEndpoint_commit_def Session_commit_replay_def ReplayWindow_commit_def
      ReplayWindow_accepted_def new_NativeEndpoint_def NativeEndpoint_receive_def
      NativeEndpoint_receive_uncommitted_def UdpEndpoint_receive_def new_UdpEndpoint_def Let_def)
  then obtain e' os' where run: "endpoint_run loopback xor_ascon (new_NativeEndpoint (new_Session example_keys))
      empty_net ?ops = ([Committed 3 4], e', os')"
    by blast
  with endpoint_refines_session [OF run] show ?thesis by blast
qed

lemma commit_after_open:
  assumes "ReplayWindow_accepted (s_replay (ne_session e)) (h_sequence (or_header rcd))"
  shows "NativeEndpoint_commit e rcd = (Inr (), e\<lparr>ne_session := (ne_session e)\<lparr>s_replay :=
    snd (ReplayWindow_commit (s_replay (ne_session e)) (h_sequence (or_header rcd)))\<rparr>\<rparr>)"
  using assms window.commit_result [of "s_replay (ne_session e)" "h_sequence (or_header rcd)"]
  by (auto simp: NativeEndpoint_commit_def Session_commit_replay_def split: prod.splits)

lemma or_bit_set: "k < 64 \<Longrightarrow> (b OR push_bit k 1) AND push_bit k 1 \<noteq> (0 :: u64)"
proof
  assume k: "k < 64" and z: "(b OR push_bit k 1) AND push_bit k 1 = (0 :: u64)"
  have "bit ((b OR push_bit k 1) AND push_bit k 1 :: u64) k"
    using k by (simp add: bit_simps)
  then have "bit (0 :: u64) k" unfolding z .
  then show False by simp
qed

lemma committed_not_accepted:
  "ReplayWindow_accepted w q \<Longrightarrow> \<not> ReplayWindow_accepted (snd (ReplayWindow_commit w q)) q"
proof (cases "rw_initialized w \<and> \<not> rw_high_water w < q")
  case True
  let ?d = "rw_high_water w - q"
  assume acc: "ReplayWindow_accepted w q"
  then have "?d < 64" using True by (simp add: ReplayWindow_accepted_def Let_def split: if_splits)
  then have "unat ?d < 64" by (simp add: word_less_nat_alt)
  with True acc show ?thesis
    by (auto simp: ReplayWindow_commit_def ReplayWindow_accepted_def [of "w\<lparr>rw_bitmap := b\<rparr>" for b] or_bit_set)
next
  case False
  assume acc: "ReplayWindow_accepted w q"
  have "(b OR 1) AND 1 \<noteq> (0 :: u64)" for b
    using or_bit_set [of 0 b] by simp
  with False acc show ?thesis
    by (auto simp: ReplayWindow_commit_def ReplayWindow_accepted_def Let_def)
qed

text \<open>
  An endpoint's session changes only when a record was authenticated. If a receive fails, for
  whatever datagram arrived or none, the session is as before; if it succeeds, the bytes in the
  buffer opened under the session's keys, the sequence number was acceptable before and is not
  afterwards, and nothing but the replay window of the session changes.
\<close>

theorem receive_changes_session_only_on_success:
  assumes "NativeEndpoint_receive P A e u now_ms os = (r, e', os')"
  shows "case r of
      Inl err \<Rightarrow> ne_session e' = ne_session e
    | Inr rcd \<Rightarrow>
        (\<exists>n. Session_open_uncommitted A (ne_session e) (Some (ne_buffer e')) n now_ms = Inr rcd) \<and>
        ReplayWindow_accepted (s_replay (ne_session e)) (h_sequence (or_header rcd)) \<and>
        \<not> ReplayWindow_accepted (s_replay (ne_session e')) (h_sequence (or_header rcd)) \<and>
        ne_session e' = (ne_session e)\<lparr>s_replay := s_replay (ne_session e')\<rparr>"
proof -
  obtain q e1 os1 where unc: "NativeEndpoint_receive_uncommitted P A e u now_ms os = (q, e1, os1)"
    by (cases "NativeEndpoint_receive_uncommitted P A e u now_ms os") auto
  then have same: "ne_session e1 = ne_session e"
    using receive_uncommitted_session [of P A e u now_ms os] by simp
  show ?thesis
  proof (cases q)
    case (Inl err)
    then show ?thesis using assms unc same by (auto simp: NativeEndpoint_receive_def)
  next
    case (Inr rcd)
    then obtain n where opened: "Session_open_uncommitted A (ne_session e) (Some (ne_buffer e1)) n now_ms = Inr rcd"
      using receive_uncommitted_InrD [OF unc [unfolded Inr]] by blast
    note acc = Session_open_InrD(5) [OF opened]
    let ?w = "snd (ReplayWindow_commit (s_replay (ne_session e)) (h_sequence (or_header rcd)))"
    have "NativeEndpoint_commit e1 rcd = (Inr (), e1\<lparr>ne_session := (ne_session e)\<lparr>s_replay := ?w\<rparr>\<rparr>)"
      using commit_after_open [of e1 rcd] acc same by simp
    then have "r = Inr rcd" and "e' = e1\<lparr>ne_session := (ne_session e)\<lparr>s_replay := ?w\<rparr>\<rparr>"
      using assms unc Inr by (simp_all add: NativeEndpoint_receive_def)
    with opened acc committed_not_accepted [OF acc] show ?thesis by auto
  qed
qed

theorem receive_changes_session_only_on_success_witness:
  "\<exists>e' os'. NativeEndpoint_receive loopback xor_ascon (new_NativeEndpoint (new_Session example_keys))
      \<lparr>udp_fd = 1\<rparr> 0 \<lparr>ln_sockets = [(1, 9)], ln_mail = [(9, [1, 2, 3])]\<rparr> = (Inl RE_InvalidLength, e', os') \<and>
    ne_session e' = new_Session example_keys"
proof -
  let ?e = "new_NativeEndpoint (new_Session example_keys)"
  let ?n = "\<lparr>ln_sockets = [(1, 9)], ln_mail = [(9, [1, 2, 3])]\<rparr>"
  have "\<exists>e' os'. NativeEndpoint_receive loopback xor_ascon ?e \<lparr>udp_fd = 1\<rparr> 0 ?n = (Inl RE_InvalidLength, e', os')"
    using example_valid(1)
    by (simp add: NativeEndpoint_receive_def NativeEndpoint_receive_uncommitted_def UdpEndpoint_receive_def
      loopback_def ln_port_def new_NativeEndpoint_def new_Session_def Session_open_uncommitted_def wire_consts)
  then obtain e' os' where run: "NativeEndpoint_receive loopback xor_ascon ?e \<lparr>udp_fd = 1\<rparr> 0 ?n =
      (Inl RE_InvalidLength, e', os')"
    by blast
  with receive_changes_session_only_on_success [OF run] show ?thesis
    by (simp add: new_NativeEndpoint_def)
qed

text \<open>
  What \<^verbatim>\<open>send\<close> does on every branch. If sealing refuses the record, nothing reaches the system
  and the session is unchanged. Otherwise the sequence number is used up, whether or not the
  datagram went out: every later send with a sequence number that is not higher is refused as an
  invalid header before it reaches the system. A success means that \<^verbatim>\<open>sendto\<close> took exactly the
  sealed record, at most \<^verbatim>\<open>kMaxRecordBytes\<close> long; a failure after sealing leaves
  \<^verbatim>\<open>RecordError::None\<close> in the error argument.
\<close>

theorem send_outcomes:
  assumes send: "NativeEndpoint_send P A e h p len u host port os = (r, e', os')"
    and buffer: "length (ne_buffer e) = kMaxRecordBytes"
  shows "(r \<noteq> Inr () \<and> r \<noteq> Inl RE_None \<longrightarrow> ne_session e' = ne_session e \<and> os' = os) \<and>
    (r = Inr () \<or> r = Inl RE_None \<longrightarrow> seal_guard (ne_session e) h p len \<and>
       (\<forall>h2 p2 len2 u2 host2 port2 os2. h_sequence h2 \<le> h_sequence h \<longrightarrow>
          NativeEndpoint_send P A e' h2 p2 len2 u2 host2 port2 os2 = (Inl RE_InvalidHeader, e', os2))) \<and>
    (r = Inr () \<longrightarrow> kHeaderBytes + len + kTagBytes \<le> kMaxRecordBytes \<and>
       (\<exists>a. os_sendto P (udp_fd u) (take (kHeaderBytes + len + kTagBytes) (ne_buffer e')) a port os =
          (int (kHeaderBytes + len + kTagBytes), os')))"
  using send
proof (cases rule: send_session)
  case (1 s)
  then show ?thesis by (auto dest!: Session_seal_InlD split: sum.splits)
next
  case (2 buf n s)
  note sealed = Session_seal_InrD [OF 2(1)]
  have "Session_seal A s h2 p2 len2 out = (Inl RE_InvalidHeader, s)"
    if "h_sequence h2 \<le> h_sequence h" for h2 p2 len2 out
    using sealed that by (simp add: Session_seal_def)
  then have again: "NativeEndpoint_send P A e' h2 p2 len2 u2 host2 port2 os2 = (Inl RE_InvalidHeader, e', os2)"
    if "h_sequence h2 \<le> h_sequence h" for h2 p2 len2 u2 host2 port2 os2
    using that by (simp add: NativeEndpoint_send_def 2(4))
  have n: "n = kHeaderBytes + len + kTagBytes"
    using 2(1) buffer by (auto simp: Session_seal_cases split: if_splits option.splits)
  have "len \<le> kMaxPayloadBytes" using sealed by (simp add: seal_guard_def)
  then have fits: "n \<le> kMaxRecordBytes" by (simp add: n wire_consts)
  have "\<exists>a. os_sendto P (udp_fd u) (take n buf) a port os = (int n, os')" if "r = Inr ()"
    using 2(2) that by (auto simp: UdpEndpoint_send_to_def split: option.splits if_splits prod.splits)
  then show ?thesis
    using again sealed 2(3) fits by (auto simp: n 2(4))
qed

text \<open>The example session of the record layer sending over the loopback network.\<close>

abbreviation example_udp :: UdpEndpoint where
  "example_udp \<equiv> \<lparr>udp_fd = 1\<rparr>"

abbreviation example_net :: loop_net where
  "example_net \<equiv> \<lparr>ln_sockets = [(1, 9)], ln_mail = []\<rparr>"

lemma example_send:
  "\<exists>buf. NativeEndpoint_send loopback xor_ascon (new_NativeEndpoint (new_Session example_keys)) example_header
      (Some [1, 2, 3]) 3 example_udp (Some ''127.0.0.1'') 9 example_net =
    (Inr (), \<lparr>ne_session = (new_Session example_keys)\<lparr>s_send_high_water := 4, s_send_initialized := True\<rparr>,
              ne_buffer = buf\<rparr>, example_net\<lparr>ln_mail := [(9, take 59 buf)]\<rparr>) \<and>
    length buf = kMaxRecordBytes"
proof -
  obtain buf where sealed: "Session_seal xor_ascon (new_Session example_keys) example_header (Some [1, 2, 3]) 3
      (replicate kMaxRecordBytes 0) =
    (Inr (buf, 59), (new_Session example_keys)\<lparr>s_send_high_water := 4, s_send_initialized := True\<rparr>)"
    using example_sealed by blast
  moreover have "length buf = kMaxRecordBytes"
    using Session_seal_length [OF sealed] by simp
  ultimately show ?thesis
    by (simp add: NativeEndpoint_send_def new_NativeEndpoint_def UdpEndpoint_send_to_def loopback_def wire_consts)
qed

theorem send_outcomes_witness:
  "\<exists>e' os'. NativeEndpoint_send loopback xor_ascon (new_NativeEndpoint (new_Session example_keys)) example_header
      (Some [1, 2, 3]) 3 example_udp (Some ''127.0.0.1'') 9 example_net = (Inr (), e', os') \<and>
    NativeEndpoint_send loopback xor_ascon e' example_header (Some [1, 2, 3]) 3 example_udp
      (Some ''127.0.0.1'') 9 os' = (Inl RE_InvalidHeader, e', os')"
proof -
  obtain e' os' where run: "NativeEndpoint_send loopback xor_ascon (new_NativeEndpoint (new_Session example_keys))
      example_header (Some [1, 2, 3]) 3 example_udp (Some ''127.0.0.1'') 9 example_net = (Inr (), e', os')"
    using example_send by blast
  with send_outcomes [OF run] show ?thesis
    by (auto simp: new_NativeEndpoint_def)
qed

text \<open>A sent datagram that arrives opens at the mirrored session, with and without committing it.\<close>

definition carried_by :: "OpenRecord \<Rightarrow> RecordHeader \<Rightarrow> byte list \<Rightarrow> nat \<Rightarrow> bool" where
  "carried_by rcd h plain len \<longleftrightarrow> or_header rcd = sealed_header h len \<and> or_length rcd = len \<and>
     take len (or_payload rcd) = take len plain \<and> length (or_payload rcd) = kMaxPayloadBytes"

lemma sent_datagram_opens:
  assumes A: "aead_correct A"
    and keys: "mirrored (s_keys (ne_session e)) (s_keys s)"
    and buffer: "length (ne_buffer e) = kMaxRecordBytes"
    and send: "NativeEndpoint_send P A e h (Some plain) len u host port os = (Inr (), e', os')"
    and qos: "len \<le> length plain" "canonical_qos (h_qos h)" and "live": "live h now_ms"
    and fresh: "ReplayWindow_accepted (s_replay s) (h_sequence h)"
  shows "\<exists>rcd. Session_open_uncommitted A s (Some (take (kHeaderBytes + len + kTagBytes) (ne_buffer e')))
      (length (take (kHeaderBytes + len + kTagBytes) (ne_buffer e'))) now_ms = Inr rcd \<and>
    carried_by rcd h plain len"
  using send
proof (cases rule: send_session)
  case (1 s1)
  then show ?thesis by simp
next
  case (2 buf n s1)
  let ?dg = "take (kHeaderBytes + len + kTagBytes) (ne_buffer e')"
  have n: "n = kHeaderBytes + len + kTagBytes" and size: "length buf = kMaxRecordBytes"
    using 2(1) buffer Session_seal_length [OF 2(1)] by (auto simp: Session_seal_cases split: if_splits option.splits)
  obtain rcd where opened: "Session_open_uncommitted A s (Some buf) n now_ms = Inr rcd"
    and rcd: "or_header rcd = sealed_header h len" "or_length rcd = len" "take len (or_payload rcd) = take len plain"
    using seal_opens [OF A keys 2(1) buffer qos _ fresh, of now_ms] "live" by (auto simp: live_def)
  have "?dg = take n buf" and "length ?dg = n" and "n \<le> length buf"
    using open_guard_length [OF Session_open_InrD(3) [OF opened]] size by (simp_all add: n 2(4))
  then have "Session_open_uncommitted A s (Some ?dg) (length ?dg) now_ms = Inr rcd"
    using open_take [of n buf A s now_ms] opened by simp
  then show ?thesis
    using rcd Session_open_InrD(7) [OF opened] unfolding carried_by_def by blast
qed

lemma received_uncommitted:
  assumes "datagram_arrives P v os dg" and "length (ne_buffer r) = kMaxRecordBytes"
    and "Session_open_uncommitted A (ne_session r) (Some dg) (length dg) now_ms = Inr rcd"
  obtains os' buf where "NativeEndpoint_receive_uncommitted P A r v now_ms os = (Inr rcd, r\<lparr>ne_buffer := buf\<rparr>, os')"
    "length buf = kMaxRecordBytes"
proof (rule that)
  show "NativeEndpoint_receive_uncommitted P A r v now_ms os = (Inr rcd,
      r\<lparr>ne_buffer := dg @ drop (length dg) (ne_buffer r)\<rparr>, snd (snd (NativeEndpoint_receive_uncommitted P A r v now_ms os)))"
    using receive_arrived [OF assms(1,2), of A now_ms] assms(3) by (simp add: prod_eq_iff)
  show "length (dg @ drop (length dg) (ne_buffer r)) = kMaxRecordBytes"
    using assms(1,2) by (simp add: datagram_arrives_def)
qed

text \<open>
  C9: From endpoint to endpoint. If a send succeeds and the peer, whose session holds the mirrored
  keys and still accepts the sequence number, is given that datagram before the deadline, then its
  receive succeeds with the caller's header (version, length and checksum filled in) and payload,
  and a second copy of the datagram is refused as a replay.
\<close>

theorem datagram_crosses_once:
  assumes A: "aead_correct A"
    and keys: "mirrored (s_keys (ne_session e)) (s_keys (ne_session r))"
    and buffers: "length (ne_buffer e) = kMaxRecordBytes" "length (ne_buffer r) = kMaxRecordBytes"
    and send: "NativeEndpoint_send P A e h (Some plain) len u host port os = (Inr (), e', os')"
    and qos: "len \<le> length plain" "canonical_qos (h_qos h)"
    and "live": "live h now_ms"
    and fresh: "ReplayWindow_accepted (s_replay (ne_session r)) (h_sequence h)"
    and arrives: "datagram_arrives P v os1 (take (kHeaderBytes + len + kTagBytes) (ne_buffer e'))"
  shows "\<exists>rcd r' os2. NativeEndpoint_receive P A r v now_ms os1 = (Inr rcd, r', os2) \<and>
    or_header rcd = sealed_header h len \<and> or_length rcd = len \<and>
    take len (or_payload rcd) = take len plain \<and>
    (\<forall>v2 os3. datagram_arrives P v2 os3 (take (kHeaderBytes + len + kTagBytes) (ne_buffer e')) \<longrightarrow>
       fst (NativeEndpoint_receive P A r' v2 now_ms os3) = Inl RE_Replay)"
proof -
  let ?dg = "take (kHeaderBytes + len + kTagBytes) (ne_buffer e')"
  obtain rcd where opened: "Session_open_uncommitted A (ne_session r) (Some ?dg) (length ?dg) now_ms = Inr rcd"
    and rcd: "carried_by rcd h plain len"
    using sent_datagram_opens [OF A keys buffers(1) send qos "live" fresh] by blast
  obtain os2 buf where unc: "NativeEndpoint_receive_uncommitted P A r v now_ms os1 = (Inr rcd, r\<lparr>ne_buffer := buf\<rparr>, os2)"
    and size: "length buf = kMaxRecordBytes"
    by (rule received_uncommitted [OF arrives buffers(2) opened])
  have seq: "h_sequence (or_header rcd) = h_sequence h" using rcd by (simp add: carried_by_def)
  define r2 where "r2 = r\<lparr>ne_buffer := buf, ne_session := (ne_session r)\<lparr>s_replay :=
    snd (ReplayWindow_commit (s_replay (ne_session r)) (h_sequence h))\<rparr>\<rparr>"
  have "NativeEndpoint_commit (r\<lparr>ne_buffer := buf\<rparr>) rcd = (Inr (), r2)"
    using commit_after_open [of "r\<lparr>ne_buffer := buf\<rparr>" rcd] fresh by (simp add: r2_def seq)
  with unc have got: "NativeEndpoint_receive P A r v now_ms os1 = (Inr rcd, r2, os2)"
    by (simp add: NativeEndpoint_receive_def)
  have again: "Session_open_uncommitted A (ne_session r2) (Some ?dg) (length ?dg) now_ms = Inl RE_Replay"
    using Session_open_InrD(1-4) [OF opened] open_guard_length [OF Session_open_InrD(3) [OF opened]]
      committed_not_accepted [OF fresh]
    unfolding Session_open_cases by (simp add: r2_def seq open_guard_def)
  have "fst (NativeEndpoint_receive P A r2 v2 now_ms os3) = Inl RE_Replay"
    if arr: "datagram_arrives P v2 os3 ?dg" for v2 os3
  proof -
    have "fst (NativeEndpoint_receive_uncommitted P A r2 v2 now_ms os3) = Inl RE_Replay"
      using receive_arrived(1) [OF arr, of r2 A now_ms] size unfolding again by (simp add: r2_def)
    then show ?thesis
      by (cases "NativeEndpoint_receive_uncommitted P A r2 v2 now_ms os3") (auto simp: NativeEndpoint_receive_def)
  qed
  with got rcd show ?thesis unfolding carried_by_def by blast
qed

theorem datagram_crosses_once_witness:
  "\<exists>e' os1 rcd r' os2. NativeEndpoint_send loopback xor_ascon (new_NativeEndpoint (new_Session example_keys))
      example_header (Some [1, 2, 3]) 3 example_udp (Some ''127.0.0.1'') 9 example_net = (Inr (), e', os1) \<and>
    NativeEndpoint_receive loopback xor_ascon (new_NativeEndpoint (new_Session example_peer_keys)) example_udp 0 os1 =
      (Inr rcd, r', os2) \<and> take 3 (or_payload rcd) = [1, 2, 3]"
proof -
  let ?e = "new_NativeEndpoint (new_Session example_keys)"
  let ?r = "new_NativeEndpoint (new_Session example_peer_keys)"
  obtain e' buf where run: "NativeEndpoint_send loopback xor_ascon ?e example_header (Some [1, 2, 3]) 3
      example_udp (Some ''127.0.0.1'') 9 example_net = (Inr (), e', example_net\<lparr>ln_mail := [(9, take 59 buf)]\<rparr>)"
    and buf: "ne_buffer e' = buf" "length buf = kMaxRecordBytes"
    using example_send by fastforce
  have arr: "datagram_arrives loopback example_udp (example_net\<lparr>ln_mail := [(9, take 59 buf)]\<rparr>)
      (take (kHeaderBytes + 3 + kTagBytes) (ne_buffer e'))"
    using buf by (auto simp: datagram_arrives_def UdpEndpoint_valid_def loopback_def ln_port_def wire_consts)
  have "\<exists>rcd r' os2. NativeEndpoint_receive loopback xor_ascon ?r example_udp 0
      (example_net\<lparr>ln_mail := [(9, take 59 buf)]\<rparr>) = (Inr rcd, r', os2) \<and>
      or_header rcd = sealed_header example_header 3 \<and> or_length rcd = 3 \<and>
      take 3 (or_payload rcd) = take 3 [1, 2, 3] \<and>
      (\<forall>v2 os3. datagram_arrives loopback v2 os3 (take (kHeaderBytes + 3 + kTagBytes) (ne_buffer e')) \<longrightarrow>
         fst (NativeEndpoint_receive loopback xor_ascon r' v2 0 os3) = Inl RE_Replay)"
    by (rule datagram_crosses_once [OF xor_ascon_correct _ _ _ run _ _ _ _ arr])
       (use example_mirrored in \<open>simp_all add: new_NativeEndpoint_def new_Session_def example_header_def
          default_header_def canonical_qos_def live_def ReplayWindow_accepted_def fresh_window_def Qos_of_u8_def\<close>)
  with run show ?thesis by auto
qed

end
