(* ===== verification/Adapter.thy ===== *)
theory Adapter
  imports Messages Complex_Main
begin

text \<open>
  The MAVLink 2 boundary adapter of \<^verbatim>\<open>include/new_mavlink/mavlink2_adapter.hpp\<close> and
  \<^verbatim>\<open>src/mavlink2_adapter.cpp\<close>. The generated MAVLink C library is a parameter of type
  \<open>('m, 'g) mavlink\<close>: \<open>'m\<close> is its \<^verbatim>\<open>mavlink_message_t\<close> and \<open>'g\<close> the state it keeps for the
  channel \<^verbatim>\<open>MAVLINK_COMM_0\<close> (parser state and transmit sequence), which outlives a call. The
  conversion of an angle from radians to microradians is modelled bit by bit: a single-precision
  multiplication, rounded to nearest even, and a truncating conversion to \<^verbatim>\<open>std::int32_t\<close>, whose
  result is undefined behaviour outside the range of the type.
\<close>

section \<open>The MAVLink library\<close>

record mavlink_command_ack =
  mca_command :: u16
  mca_result :: byte
  mca_progress :: byte

record mavlink_battery_status =
  mbs_voltages :: "u16 list"
  mbs_battery_remaining :: byte

record mavlink_global_position_int =
  mgp_lat :: i32
  mgp_lon :: i32
  mgp_alt :: i32

record mavlink_attitude =
  mat_roll :: float32
  mat_pitch :: float32
  mat_yaw :: float32

text \<open>
  The calls the adapter makes. \<open>ml_parse_char\<close> takes the byte, the caller's message and the channel
  state and returns whether a frame was completed; \<open>ml_to_send_buffer\<close> gives the bytes it stores.
\<close>

record ('m, 'g) mavlink =
  ml_no_message :: 'm
  ml_msgid :: "'m \<Rightarrow> u32"
  ml_sysid :: "'m \<Rightarrow> byte"
  ml_id_command_ack :: u32
  ml_id_battery_status :: u32
  ml_id_global_position_int :: u32
  ml_id_attitude :: u32
  ml_command_long_pack :: "byte \<Rightarrow> byte \<Rightarrow> byte \<Rightarrow> byte \<Rightarrow> u16 \<Rightarrow> byte \<Rightarrow> float32 list \<Rightarrow> 'g \<Rightarrow> 'm \<times> 'g"
  ml_to_send_buffer :: "'m \<Rightarrow> byte list"
  ml_parse_char :: "byte \<Rightarrow> 'm \<Rightarrow> 'g \<Rightarrow> (bool \<times> 'm) \<times> 'g"
  ml_command_ack_decode :: "'m \<Rightarrow> mavlink_command_ack"
  ml_battery_status_decode :: "'m \<Rightarrow> mavlink_battery_status"
  ml_global_position_int_decode :: "'m \<Rightarrow> mavlink_global_position_int"
  ml_attitude_decode :: "'m \<Rightarrow> mavlink_attitude"

text \<open>Frames the library serialises fit \<^verbatim>\<open>MAVLINK_MAX_PACKET_LEN\<close>, 280 bytes, and are not empty.\<close>

definition frames_bounded :: "('m, 'g) mavlink \<Rightarrow> bool" where
  "frames_bounded M \<longleftrightarrow> (\<forall>m. 0 < length (ml_to_send_buffer M m) \<and> length (ml_to_send_buffer M m) \<le> 280)"

section \<open>Commands\<close>

definition kPx4SystemId :: byte where "kPx4SystemId = 1"
definition kPx4ComponentId :: byte where "kPx4ComponentId = 1"

record MavlinkFrame =
  mf_bytes :: "byte list"
  mf_length :: nat

definition default_frame :: MavlinkFrame where
  "default_frame = \<lparr>mf_bytes = replicate 280 0, mf_length = 0\<rparr>"

definition command_allowed :: "u16 \<Rightarrow> bool" where
  "command_allowed command_id \<longleftrightarrow> command_id = 400 \<or> command_id = 22 \<or> command_id = 21"

definition encode_command_long ::
    "('m, 'g) mavlink \<Rightarrow> CommandRequest \<Rightarrow> byte \<Rightarrow> byte \<Rightarrow> byte \<Rightarrow> byte \<Rightarrow> MavlinkFrame \<Rightarrow> 'g \<Rightarrow>
     (bool \<times> MavlinkFrame) \<times> 'g" where
  "encode_command_long M request source_system source_component target_system target_component frame g =
     (let frame = frame\<lparr>mf_length := 0\<rparr>
      in if \<not> command_allowed (cr_command_id request) \<or> cr_request_id request = 0 \<or>
            cr_deadline_ms request = 0 \<or> unat (cr_arg_count request) > kMaxArgs \<or>
            source_system = 0 \<or> source_component = 0 \<or> target_system = 0 \<or> target_component = 0
         then ((False, frame), g)
         else if \<not> list_all (\<lambda>i. isfinite (cr_args request ! i)) [0..<unat (cr_arg_count request)]
         then ((False, frame), g)
         else
           let (message, g) = ml_command_long_pack M source_system source_component target_system
                 target_component (cr_command_id request) 0 (map (\<lambda>i. cr_args request ! i) [0..<7]) g;
               sent = ml_to_send_buffer M message;
               frame = frame\<lparr>mf_bytes := put_at (mf_bytes frame) 0 sent\<rparr>;
               len = of_nat (length sent) :: u16
           in if len = 0 \<or> unat len > 280 then ((False, frame), g)
              else ((True, frame\<lparr>mf_length := unat len\<rparr>), g))"

section \<open>Parsing frames\<close>

text \<open>The byte loop of \<^verbatim>\<open>parse_message\<close> and of \<^verbatim>\<open>decode_command_ack\<close>.\<close>

fun parse_loop :: "('m, 'g) mavlink \<Rightarrow> u32 \<Rightarrow> byte list \<Rightarrow> 'm \<Rightarrow> 'g \<Rightarrow> (bool \<times> 'm) \<times> 'g" where
  "parse_loop M msgid [] message g = ((False, message), g)"
| "parse_loop M msgid (b # bs) message g =
     (let ((complete, message), g) = ml_parse_char M b message g
      in if complete \<and> ml_msgid M message = msgid then ((True, message), g)
         else parse_loop M msgid bs message g)"

definition parse_message ::
    "('m, 'g) mavlink \<Rightarrow> ptr \<Rightarrow> nat \<Rightarrow> u32 \<Rightarrow> 'm \<Rightarrow> 'g \<Rightarrow> (bool \<times> 'm) \<times> 'g" where
  "parse_message M bytes len msgid result g =
     (case bytes of
        None \<Rightarrow> ((False, result), g)
      | Some b \<Rightarrow>
          if len = 0 \<or> len > 280 then ((False, result), g) else parse_loop M msgid (take len b) result g)"

text \<open>
  The decoders return \<open>None\<close> for \<^verbatim>\<open>false\<close>; the output argument then holds its default value.
\<close>

definition decode_command_ack ::
    "('m, 'g) mavlink \<Rightarrow> ptr \<Rightarrow> nat \<Rightarrow> 'g \<Rightarrow> CommandAck option \<times> 'g" where
  "decode_command_ack M bytes len g =
     (case bytes of
        None \<Rightarrow> (None, g)
      | Some b \<Rightarrow>
          if len = 0 \<or> len > 280 then (None, g)
          else
            let ((found, message), g) =
                  parse_loop M (ml_id_command_ack M) (take len b) (ml_no_message M) g
            in if \<not> found then (None, g)
               else
                 let v = ml_command_ack_decode M message
                 in if \<not> command_allowed (mca_command v) then (None, g)
                    else (Some \<lparr>ca_request_id = 1, ca_status = mca_result v, ca_detail = mca_progress v,
                                ca_reserved = 0, ca_result_code = ucast (mca_command v)\<rparr>, g))"

section \<open>Telemetry\<close>

record BatteryTelemetry =
  bt_source_system :: byte
  bt_voltage_mv :: u16
  bt_remaining_permille :: u16

record PositionTelemetry =
  pt_source_system :: byte
  pt_latitude_e7 :: i32
  pt_longitude_e7 :: i32
  pt_altitude_mm :: i32

record AttitudeTelemetry =
  at_source_system :: byte
  at_roll_urad :: i32
  at_pitch_urad :: i32
  at_yaw_urad :: i32

definition decode_battery_status ::
    "('m, 'g) mavlink \<Rightarrow> ptr \<Rightarrow> nat \<Rightarrow> 'g \<Rightarrow> BatteryTelemetry option \<times> 'g" where
  "decode_battery_status M bytes len g =
     (let ((found, message), g) = parse_message M bytes len (ml_id_battery_status M) (ml_no_message M) g
      in if \<not> found then (None, g)
         else
           let raw = ml_battery_status_decode M message
           in if ml_sysid M message = 0 \<or> mbs_voltages raw ! 0 = - 1 then (None, g)
              else (Some \<lparr>bt_source_system = ml_sysid M message, bt_voltage_mv = mbs_voltages raw ! 0,
                          bt_remaining_permille =
                            (if sint (mbs_battery_remaining raw) < 0 then 0
                             else if sint (mbs_battery_remaining raw) \<ge> 100 then 1000
                             else ucast (scast (mbs_battery_remaining raw) * 10 :: u32))\<rparr>, g))"

definition decode_global_position ::
    "('m, 'g) mavlink \<Rightarrow> ptr \<Rightarrow> nat \<Rightarrow> 'g \<Rightarrow> PositionTelemetry option \<times> 'g" where
  "decode_global_position M bytes len g =
     (let ((found, message), g) = parse_message M bytes len (ml_id_global_position_int M) (ml_no_message M) g
      in if \<not> found then (None, g)
         else
           let raw = ml_global_position_int_decode M message
           in if ml_sysid M message = 0 then (None, g)
              else (Some \<lparr>pt_source_system = ml_sysid M message, pt_latitude_e7 = mgp_lat raw,
                          pt_longitude_e7 = mgp_lon raw, pt_altitude_mm = mgp_alt raw\<rparr>, g))"

subsection \<open>Single-precision scaling\<close>

text \<open>A finite float is \<open>(-1)^sign * significand * 2^scale\<close>.\<close>

definition float_exponent :: "float32 \<Rightarrow> nat" where
  "float_exponent f = unat (drop_bit 23 f AND 0xFF)"

definition float_significand :: "float32 \<Rightarrow> nat" where
  "float_significand f =
     (if float_exponent f = 0 then unat (f AND 0x7FFFFF) else 2 ^ 23 + unat (f AND 0x7FFFFF))"

definition float_scale :: "float32 \<Rightarrow> int" where
  "float_scale f = int (max 1 (float_exponent f)) - 150"

definition float_value :: "float32 \<Rightarrow> real" where
  "float_value f = (if bit f 31 then - 1 else 1) * real (float_significand f) * 2 powi float_scale f"

text \<open>How many low bits a natural number has beyond 24, and rounding to 24 bits, ties to even.\<close>

fun excess_bits :: "nat \<Rightarrow> nat" where
  "excess_bits n = (if n < 2 ^ 24 then 0 else Suc (excess_bits (n div 2)))"

declare excess_bits.simps [simp del]

definition round24 :: "nat \<Rightarrow> nat" where
  "round24 n =
     (let d = excess_bits n; q = n div 2 ^ d; r = n mod 2 ^ d
      in (if 2 * r > 2 ^ d \<or> (2 * r = 2 ^ d \<and> odd q) then q + 1 else q) * 2 ^ d)"

text \<open>
  \<^verbatim>\<open>static_cast<std::int32_t>(x * 1000000.0F)\<close> for a finite \<^verbatim>\<open>x\<close>: \<open>None\<close> where the truncated
  product is not representable and the behaviour is undefined. (A product that rounds to a
  subnormal or to zero truncates to 0 either way.)
\<close>

definition rad_to_urad :: "float32 \<Rightarrow> i32 option" where
  "rad_to_urad f =
     (let product = round24 (float_significand f * 1000000);
          magnitude = (if float_scale f \<ge> 0 then product * 2 ^ nat (float_scale f)
                       else product div 2 ^ nat (- float_scale f));
          v = (if bit f 31 then - int magnitude else int magnitude)
      in if - (2 ^ 31) \<le> v \<and> v < 2 ^ 31 then Some (word_of_int v) else None)"

datatype 'a outcome = Refused | Returned 'a | Undefined_Behaviour

definition decode_attitude_mavlink ::
    "('m, 'g) mavlink \<Rightarrow> ptr \<Rightarrow> nat \<Rightarrow> 'g \<Rightarrow> AttitudeTelemetry outcome \<times> 'g" where
  "decode_attitude_mavlink M bytes len g =
     (let ((found, message), g) = parse_message M bytes len (ml_id_attitude M) (ml_no_message M) g
      in if \<not> found then (Refused, g)
         else
           let raw = ml_attitude_decode M message
           in if ml_sysid M message = 0 \<or> \<not> isfinite (mat_roll raw) \<or> \<not> isfinite (mat_pitch raw) \<or>
                 \<not> isfinite (mat_yaw raw)
              then (Refused, g)
              else
                (case (rad_to_urad (mat_roll raw), rad_to_urad (mat_pitch raw), rad_to_urad (mat_yaw raw)) of
                   (Some roll, Some pitch, Some yaw) \<Rightarrow>
                     (Returned \<lparr>at_source_system = ml_sysid M message, at_roll_urad = roll,
                                at_pitch_urad = pitch, at_yaw_urad = yaw\<rparr>, g)
                 | _ \<Rightarrow> (Undefined_Behaviour, g)))"

section \<open>Rounding\<close>

lemma excess_bits_fits: "n div 2 ^ excess_bits n < 2 ^ 24"
proof (induction n rule: excess_bits.induct)
  case (1 n)
  then show ?case
    by (cases "n < 2 ^ 24") (simp_all add: excess_bits.simps [of n] div_mult2_eq [symmetric] mult.commute)
qed

lemma excess_bits_large: "0 < excess_bits n \<Longrightarrow> 2 ^ (23 + excess_bits n) \<le> n"
proof (induction n rule: excess_bits.induct)
  case (1 n)
  show ?case
  proof (cases "n < 2 ^ 24")
    case True
    then show ?thesis using "1.prems" by (simp add: excess_bits.simps [of n])
  next
    case False
    note e = excess_bits.simps [of n]
    have "2 ^ (23 + excess_bits (n div 2)) \<le> n div 2"
      using "1.IH" False by (cases "excess_bits (n div 2)") auto
    then show ?thesis using False by (simp add: e power_add)
  qed
qed

lemma round24_error: "\<bar>real (round24 n) - real n\<bar> * 16777216 \<le> real n"
proof (cases "excess_bits n")
  case 0
  then show ?thesis by (simp add: round24_def)
next
  case (Suc k)
  define D where "D = (2 :: nat) ^ excess_bits n"
  define q where "q = n div D"
  define r where "r = n mod D"
  define p where "p = q * D"
  have n: "n = p + r" unfolding p_def q_def r_def by (rule div_mult_mod_eq [symmetric])
  then have real_n: "real n = real p + real r" by (metis of_nat_add)
  have r: "r < D" by (simp add: r_def D_def)
  have round: "round24 n = (if 2 * r > D \<or> (2 * r = D \<and> odd q) then q + 1 else q) * D"
    by (simp add: round24_def Let_def D_def q_def r_def)
  have "2 * \<bar>real (round24 n) - real n\<bar> \<le> real D"
  proof (cases "2 * r > D \<or> (2 * r = D \<and> odd q)")
    case True
    then have "round24 n = p + D" and "D \<le> 2 * r" by (auto simp: round p_def)
    then have "real (round24 n) - real n = real D - real r" and "real D \<le> 2 * real r"
      using real_n by linarith+
    then show ?thesis using r by simp
  next
    case False
    then have "round24 n = p" and "2 * r \<le> D" by (auto simp: round p_def)
    then have "real (round24 n) - real n = - real r" and "2 * real r \<le> real D"
      using real_n by linarith+
    then show ?thesis by simp
  qed
  moreover have "2 ^ (23 + excess_bits n) \<le> n"
    using excess_bits_large [of n] Suc by simp
  then have "8388608 * D \<le> n" by (simp add: D_def power_add)
  ultimately show ?thesis by linarith
qed

section \<open>Scaling an angle\<close>

text \<open>The exact product, and the rounded one whose integral part the cast takes.\<close>

definition urad_product :: "float32 \<Rightarrow> real" where
  "urad_product f = real (round24 (float_significand f * 1000000)) * 2 powi float_scale f"

definition urad_magnitude :: "float32 \<Rightarrow> nat" where
  "urad_magnitude f =
     (if float_scale f \<ge> 0 then round24 (float_significand f * 1000000) * 2 ^ nat (float_scale f)
      else round24 (float_significand f * 1000000) div 2 ^ nat (- float_scale f))"

lemma rad_to_urad_eq:
  "rad_to_urad f =
     (let v = (if bit f 31 then - int (urad_magnitude f) else int (urad_magnitude f))
      in if - (2 ^ 31) \<le> v \<and> v < 2 ^ 31 then Some (word_of_int v) else None)"
  by (simp add: rad_to_urad_def urad_magnitude_def Let_def)

lemma urad_magnitude_floor: "real (urad_magnitude f) \<le> urad_product f" "urad_product f < real (urad_magnitude f) + 1"
proof -
  let ?m = "round24 (float_significand f * 1000000)"
  have "real (urad_magnitude f) \<le> urad_product f \<and> urad_product f < real (urad_magnitude f) + 1"
  proof (cases "float_scale f \<ge> 0")
    case True
    then have "(2 :: real) powi float_scale f = 2 ^ nat (float_scale f)"
      by (simp add: power_int_def)
    then show ?thesis using True by (simp add: urad_magnitude_def urad_product_def)
  next
    case False
    let ?k = "nat (- float_scale f)"
    have "(2 :: real) powi float_scale f = 1 / 2 ^ ?k"
      using False by (simp add: power_int_def inverse_eq_divide power_one_over)
    then have prod: "urad_product f = real ?m / 2 ^ ?k"
      by (simp add: urad_product_def)
    have "urad_magnitude f = nat \<lfloor>real ?m / real (2 ^ ?k)\<rfloor>"
      using False by (simp only: urad_magnitude_def floor_divide_of_nat_eq nat_int if_False)
    then have "urad_magnitude f = nat \<lfloor>urad_product f\<rfloor>" by (simp add: prod)
    moreover have "0 \<le> urad_product f" by (simp add: prod)
    ultimately show ?thesis by linarith
  qed
  then show "real (urad_magnitude f) \<le> urad_product f" "urad_product f < real (urad_magnitude f) + 1" by simp_all
qed

lemma abs_float_value: "\<bar>float_value f\<bar> = real (float_significand f) * 2 powi float_scale f"
  by (simp add: float_value_def abs_mult)

lemma urad_product_error:
  "\<bar>urad_product f - 1000000 * \<bar>float_value f\<bar>\<bar> \<le> 1000000 * \<bar>float_value f\<bar> / 16777216"
proof -
  let ?n = "float_significand f * 1000000"
  let ?s = "(2 :: real) powi float_scale f"
  have "urad_product f - 1000000 * \<bar>float_value f\<bar> = (real (round24 ?n) - real ?n) * ?s"
    by (simp add: urad_product_def abs_float_value algebra_simps)
  then have "\<bar>urad_product f - 1000000 * \<bar>float_value f\<bar>\<bar> * 16777216 = (\<bar>real (round24 ?n) - real ?n\<bar> * 16777216) * ?s"
    by (simp add: abs_mult)
  also have "\<dots> \<le> real ?n * ?s"
    by (rule mult_right_mono [OF round24_error]) simp
  also have "\<dots> = 1000000 * \<bar>float_value f\<bar>"
    by (simp add: abs_float_value)
  finally show ?thesis by (simp add: field_simps)
qed

lemma float_value_sign: "bit f 31 \<Longrightarrow> float_value f \<le> 0" "\<not> bit f 31 \<Longrightarrow> 0 \<le> float_value f"
  by (simp_all add: float_value_def)

lemma sint_word_of_int_32: "- (2 ^ 31) \<le> v \<Longrightarrow> v < 2 ^ 31 \<Longrightarrow> sint (word_of_int v :: i32) = v"
  by (simp add: signed_take_bit_int_eq_self signed_of_int)

lemma rad_to_urad_bounds:
  assumes "\<bar>float_value f\<bar> \<le> 2147"
  shows "\<exists>w. rad_to_urad f = Some w \<and>
    \<bar>real_of_int (sint w) - 1000000 * float_value f\<bar> < 1 + 1000000 * \<bar>float_value f\<bar> / 16777216"
proof -
  define v where "v = (if bit f 31 then - int (urad_magnitude f) else int (urad_magnitude f))"
  have "1000000 * \<bar>float_value f\<bar> / 16777216 \<le> 2147000000 / 16777216"
    using assms by (simp add: divide_right_mono)
  then have "urad_product f < 2147483648"
    using urad_product_error [of f] assms by linarith
  then have "urad_magnitude f < 2147483648"
    using urad_magnitude_floor(1) [of f] by linarith
  then have range: "- (2 ^ 31) \<le> v" "v < 2 ^ 31" by (auto simp: v_def)
  have "\<bar>real_of_int v - 1000000 * float_value f\<bar> = \<bar>real (urad_magnitude f) - 1000000 * \<bar>float_value f\<bar>\<bar>"
    using float_value_sign [of f] by (cases "bit f 31") (auto simp: v_def)
  also have "\<dots> < 1 + 1000000 * \<bar>float_value f\<bar> / 16777216"
    using urad_magnitude_floor [of f] urad_product_error [of f] by linarith
  finally have "\<bar>real_of_int (sint (word_of_int v :: i32)) - 1000000 * float_value f\<bar> <
      1 + 1000000 * \<bar>float_value f\<bar> / 16777216"
    unfolding sint_word_of_int_32 [OF range] .
  moreover have "rad_to_urad f = Some (word_of_int v)"
    using range by (simp add: rad_to_urad_eq v_def [symmetric])
  ultimately show ?thesis by blast
qed

lemma rad_to_urad_undefined:
  assumes "2148 \<le> \<bar>float_value f\<bar>"
  shows "rad_to_urad f = None"
proof -
  let ?x = "1000000 * \<bar>float_value f\<bar>"
  have "?x - ?x / 16777216 \<le> urad_product f"
    using urad_product_error [of f] by linarith
  moreover have "2148000000 - 2148000000 / 16777216 \<le> ?x - ?x / 16777216"
    using assms by simp
  ultimately have "2147483650 \<le> urad_product f" by linarith
  then have "2147483648 < urad_magnitude f"
    using urad_magnitude_floor(2) [of f] by linarith
  then show ?thesis by (simp add: rad_to_urad_eq)
qed

section \<open>The parser loop\<close>

text \<open>
  The specification of the loop: feed the bytes one by one and take the first frame with the wanted
  identifier. \<open>feed\<close> is the trace of the parser, one entry per byte.
\<close>

fun feed :: "('m, 'g) mavlink \<Rightarrow> byte list \<Rightarrow> 'm \<Rightarrow> 'g \<Rightarrow> ((bool \<times> 'm) \<times> 'g) list" where
  "feed M [] m g = []"
| "feed M (b # bs) m g = (let ((c, m'), g') = ml_parse_char M b m g in ((c, m'), g') # feed M bs m' g')"

abbreviation wanted_frame :: "('m, 'g) mavlink \<Rightarrow> u32 \<Rightarrow> (bool \<times> 'm) \<times> 'g \<Rightarrow> bool" where
  "wanted_frame M msgid r \<equiv> fst (fst r) \<and> ml_msgid M (snd (fst r)) = msgid"

lemma parse_loop_find:
  "parse_loop M msgid bs m g =
     (case find (wanted_frame M msgid) (feed M bs m g) of
        Some ((c, m'), g') \<Rightarrow> ((True, m'), g')
      | None \<Rightarrow> ((False, fst (last ((m, g) # map (\<lambda>((c, m), g). (m, g)) (feed M bs m g)))),
                 snd (last ((m, g) # map (\<lambda>((c, m), g). (m, g)) (feed M bs m g)))))"
proof (induction bs arbitrary: m g)
  case Nil
  then show ?case by simp
next
  case (Cons b bs)
  obtain c m' g' where step: "ml_parse_char M b m g = ((c, m'), g')"
    by (metis prod.collapse)
  show ?case
    by (cases "c \<and> ml_msgid M m' = msgid") (auto simp: step Cons.IH split: option.splits)
qed

section \<open>Properties\<close>

definition command_forwardable :: "CommandRequest \<Rightarrow> bool" where
  "command_forwardable r \<longleftrightarrow> command_allowed (cr_command_id r) \<and> cr_request_id r \<noteq> 0 \<and> cr_deadline_ms r \<noteq> 0 \<and>
     unat (cr_arg_count r) \<le> kMaxArgs \<and> (\<forall>i < unat (cr_arg_count r). isfinite (cr_args r ! i))"

lemma encode_command_long_ok:
  assumes "frames_bounded M" and "length (mf_bytes frame) = 280"
    and "command_forwardable r" and "ss \<noteq> 0" "sc \<noteq> 0" "ts \<noteq> 0" "tc \<noteq> 0"
  obtains message g1 where "ml_command_long_pack M ss sc ts tc (cr_command_id r) 0
      (map (\<lambda>i. cr_args r ! i) [0..<7]) g = (message, g1)"
    "encode_command_long M r ss sc ts tc frame g =
      ((True, frame\<lparr>mf_bytes := put_at (mf_bytes frame) 0 (ml_to_send_buffer M message),
                    mf_length := length (ml_to_send_buffer M message)\<rparr>), g1)"
proof -
  obtain message g1 where pack: "ml_command_long_pack M ss sc ts tc (cr_command_id r) 0
      (map (\<lambda>i. cr_args r ! i) [0..<7]) g = (message, g1)"
    by fastforce
  let ?bs = "ml_to_send_buffer M message"
  have bs: "0 < length ?bs" "length ?bs \<le> 280" using assms(1) by (auto simp: frames_bounded_def)
  then have len: "unat (of_nat (length ?bs) :: u16) = length ?bs"
    by (simp add: unat_of_nat take_bit_eq_mod)
  then have "(of_nat (length ?bs) :: u16) \<noteq> 0" using bs(1) by (metis unat_0 less_irrefl)
  then have "encode_command_long M r ss sc ts tc frame g =
      ((True, frame\<lparr>mf_bytes := put_at (mf_bytes frame) 0 ?bs, mf_length := length ?bs\<rparr>), g1)"
    using assms bs len
    by (simp add: encode_command_long_def command_forwardable_def list_all_iff Let_def pack)
  with pack show thesis by (rule that)
qed

text \<open>
  C37: Only allowlisted, complete requests cross the boundary, and they cross unchanged. With a
  library whose frames fit 280 bytes, \<^verbatim>\<open>encode_command_long\<close> succeeds exactly if the command is
  400, 22 or 21, request identifier and deadline are not 0, at most seven arguments are given and
  finite, and no system or component identifier is 0; the frame is then the library's serialisation
  of a COMMAND_LONG with that command and the seven arguments. A refusal leaves length 0 and, the
  guards having failed, does not touch the library.
\<close>

theorem encode_command_long_allowlist:
  assumes "frames_bounded M" and "length (mf_bytes frame) = 280"
    and "encode_command_long M r ss sc ts tc frame g = ((ok, frame'), g')"
  shows "(ok \<longleftrightarrow> command_forwardable r \<and> ss \<noteq> 0 \<and> sc \<noteq> 0 \<and> ts \<noteq> 0 \<and> tc \<noteq> 0) \<and>
    (\<not> ok \<longrightarrow> mf_length frame' = 0 \<and> mf_bytes frame' = mf_bytes frame \<and> g' = g) \<and>
    (ok \<longrightarrow> (\<exists>message. ml_command_long_pack M ss sc ts tc (cr_command_id r) 0
        (map (\<lambda>i. cr_args r ! i) [0..<7]) g = (message, g') \<and>
      take (mf_length frame') (mf_bytes frame') = ml_to_send_buffer M message \<and>
      0 < mf_length frame' \<and> mf_length frame' \<le> 280 \<and> length (mf_bytes frame') = 280))"
proof (cases "command_forwardable r \<and> ss \<noteq> 0 \<and> sc \<noteq> 0 \<and> ts \<noteq> 0 \<and> tc \<noteq> 0")
  case False
  then have "((ok, frame'), g') = ((False, frame\<lparr>mf_length := 0\<rparr>), g)"
    using assms(3) by (auto simp: encode_command_long_def command_forwardable_def list_all_iff Let_def
      split: if_splits)
  with False show ?thesis by auto
next
  case True
  then have args: "command_forwardable r" "ss \<noteq> 0" "sc \<noteq> 0" "ts \<noteq> 0" "tc \<noteq> 0" by simp_all
  obtain message g1 where "ml_command_long_pack M ss sc ts tc (cr_command_id r) 0
      (map (\<lambda>i. cr_args r ! i) [0..<7]) g = (message, g1)"
    "encode_command_long M r ss sc ts tc frame g =
      ((True, frame\<lparr>mf_bytes := put_at (mf_bytes frame) 0 (ml_to_send_buffer M message),
                    mf_length := length (ml_to_send_buffer M message)\<rparr>), g1)"
    by (rule encode_command_long_ok [OF assms(1,2) args])
  moreover have "0 < length (ml_to_send_buffer M message)" "length (ml_to_send_buffer M message) \<le> 280"
    using assms(1) by (auto simp: frames_bounded_def)
  ultimately show ?thesis using True assms(2,3) by (auto simp: put_at_0)
qed

text \<open>A small concrete library: every byte completes a frame whose identifier is the byte.\<close>

definition byte_lib :: "(byte, unit) mavlink" where
  "byte_lib = \<lparr>
     ml_no_message = 0, ml_msgid = ucast, ml_sysid = (\<lambda>m. 1),
     ml_id_command_ack = 77, ml_id_battery_status = 147, ml_id_global_position_int = 33, ml_id_attitude = 30,
     ml_command_long_pack = (\<lambda>ss sc ts tc command confirmation params g. (ucast command, g)),
     ml_to_send_buffer = (\<lambda>m. [0xFD, m]),
     ml_parse_char = (\<lambda>b m g. ((True, b), g)),
     ml_command_ack_decode = (\<lambda>m. \<lparr>mca_command = 400, mca_result = 0, mca_progress = 5\<rparr>),
     ml_battery_status_decode = (\<lambda>m. \<lparr>mbs_voltages = [16000], mbs_battery_remaining = 90\<rparr>),
     ml_global_position_int_decode = (\<lambda>m. \<lparr>mgp_lat = 473977400, mgp_lon = 85455900, mgp_alt = 500000\<rparr>),
     ml_attitude_decode = (\<lambda>m. \<lparr>mat_roll = 0x3DCCCCCD, mat_pitch = 0xBE4CCCCD, mat_yaw = 0x3E99999A\<rparr>)\<rparr>"

definition arm_request :: CommandRequest where
  "arm_request = \<lparr>cr_request_id = 44, cr_command_id = 400, cr_deadline_ms = 1000, cr_arg_count = 1,
     cr_args = [0x3F800000, 0, 0, 0, 0, 0, 0]\<rparr>"

lemma arm_request_forwardable: "command_forwardable arm_request"
  by (simp add: command_forwardable_def arm_request_def command_allowed_def kMaxArgs_def isfinite_def)

theorem encode_command_long_allowlist_witness:
  "\<exists>frame' g'. encode_command_long byte_lib arm_request 255 190 kPx4SystemId kPx4ComponentId default_frame () =
     ((True, frame'), g') \<and> mf_length frame' = 2"
proof -
  obtain ok frame' g' where run: "encode_command_long byte_lib arm_request 255 190 kPx4SystemId kPx4ComponentId
      default_frame () = ((ok, frame'), g')"
    by (metis prod.collapse)
  have "frames_bounded byte_lib" by (simp add: frames_bounded_def byte_lib_def)
  note enc = encode_command_long_allowlist [OF this _ run]
  have "ok" and len: "length (take (mf_length frame') (mf_bytes frame')) = 2" "mf_length frame' \<le> 280"
      "length (mf_bytes frame') = 280"
    using enc arm_request_forwardable
    by (auto simp: default_frame_def kPx4SystemId_def kPx4ComponentId_def byte_lib_def)
  then show ?thesis using run by (auto simp: min_def split: if_splits)
qed

text \<open>
  \<^verbatim>\<open>decode_command_ack\<close> reports the first COMMAND_ACK frame the parser completes while the given
  bytes are fed to it, if it acknowledges an allowlisted command. The acknowledgement always encodes
  as a native payload, but its request identifier is the constant 1: nothing of the acknowledged
  request is left in it except the command number.
\<close>

theorem decode_command_ack_first_frame:
  "decode_command_ack M bytes len g =
     (case bytes of
        None \<Rightarrow> (None, g)
      | Some b \<Rightarrow>
          if len = 0 \<or> len > 280 then (None, g)
          else
            let trace = feed M (take len b) (ml_no_message M) g
            in case find (wanted_frame M (ml_id_command_ack M)) trace of
                 None \<Rightarrow> (None, snd (last ((ml_no_message M, g) # map (\<lambda>((c, m), g). (m, g)) trace)))
               | Some ((c, m), g') \<Rightarrow>
                   (if command_allowed (mca_command (ml_command_ack_decode M m))
                    then Some \<lparr>ca_request_id = 1, ca_status = mca_result (ml_command_ack_decode M m),
                               ca_detail = mca_progress (ml_command_ack_decode M m), ca_reserved = 0,
                               ca_result_code = ucast (mca_command (ml_command_ack_decode M m))\<rparr>
                    else None, g')) \<and>
   (\<forall>ack. fst (decode_command_ack M bytes len g) = Some ack \<longrightarrow>
      (\<exists>buf. encode_ack ack (Some (replicate kAckBytes 0)) kAckBytes = Some (buf, kAckBytes)))"
proof
  show "decode_command_ack M bytes len g =
     (case bytes of
        None \<Rightarrow> (None, g)
      | Some b \<Rightarrow>
          if len = 0 \<or> len > 280 then (None, g)
          else
            let trace = feed M (take len b) (ml_no_message M) g
            in case find (wanted_frame M (ml_id_command_ack M)) trace of
                 None \<Rightarrow> (None, snd (last ((ml_no_message M, g) # map (\<lambda>((c, m), g). (m, g)) trace)))
               | Some ((c, m), g') \<Rightarrow>
                   (if command_allowed (mca_command (ml_command_ack_decode M m))
                    then Some \<lparr>ca_request_id = 1, ca_status = mca_result (ml_command_ack_decode M m),
                               ca_detail = mca_progress (ml_command_ack_decode M m), ca_reserved = 0,
                               ca_result_code = ucast (mca_command (ml_command_ack_decode M m))\<rparr>
                    else None, g'))"
    by (simp add: decode_command_ack_def parse_loop_find Let_def split: option.split prod.split)
  have "ca_request_id ack = 1" if "fst (decode_command_ack M bytes len g) = Some ack" for ack
    using that by (auto simp: decode_command_ack_def Let_def split: option.splits if_splits prod.splits)
  then show "\<forall>ack. fst (decode_command_ack M bytes len g) = Some ack \<longrightarrow>
      (\<exists>buf. encode_ack ack (Some (replicate kAckBytes 0)) kAckBytes = Some (buf, kAckBytes))"
    by (simp add: encode_ack_def)
qed

theorem decode_command_ack_first_frame_witness:
  "\<exists>ack buf. fst (decode_command_ack byte_lib (Some [3, 77, 9]) 3 ()) = Some ack \<and>
     ca_request_id ack = 1 \<and> ca_result_code ack = 400 \<and>
     encode_ack ack (Some (replicate kAckBytes 0)) kAckBytes = Some (buf, kAckBytes)"
proof -
  have "\<exists>ack. fst (decode_command_ack byte_lib (Some [3, 77, 9]) 3 ()) = Some ack \<and>
      ca_request_id ack = 1 \<and> ca_result_code ack = 400"
    by (simp add: decode_command_ack_def byte_lib_def command_allowed_def)
  with decode_command_ack_first_frame [of byte_lib "Some [3, 77, 9]" 3 "()"] show ?thesis by blast
qed

lemma permille_product:
  fixes r :: byte
  assumes "0 \<le> sint r" and "sint r < 100"
  shows "unat (ucast (scast r * 10 :: u32) :: u16) = 10 * nat (sint r)"
proof -
  obtain k where k: "sint r = int k" "k < 100" using assms by (metis nonneg_int_cases of_nat_less_numeral_iff)
  have "scast r = (of_nat k :: u32)"
    by (metis k(1) of_int_of_nat_eq of_int_sint)
  then have "unat (scast r * 10 :: u32) = 10 * k"
    using k(2) by (simp add: unat_word_ariths unat_of_nat take_bit_eq_mod)
  then show ?thesis
    using k by (simp add: unsigned_ucast_eq take_bit_eq_mod)
qed

lemma permille_bound:
  fixes r :: byte
  assumes "\<not> sint r < 0" and "\<not> 100 \<le> sint r"
  shows "(ucast (scast r * 10 :: u32) :: u16) \<le> 1000"
  using permille_product [of r] assms by (simp add: word_le_nat_alt)

text \<open>
  C38: What the telemetry decoders return fits the native codecs. A decoded battery has a charge of at
  most 1000 permille, a reported voltage and a source system, and with any valid state metadata it
  encodes and decodes to itself; a decoded position has a source system and encodes exactly if its
  latitude and longitude are within 90 and 180 degrees, which the adapter does not check.
\<close>

theorem telemetry_fits_native:
  "(fst (decode_battery_status M bytes len g) = Some t \<longrightarrow>
      bt_remaining_permille t \<le> 1000 \<and> bt_source_system t \<noteq> 0 \<and> bt_voltage_mv t \<noteq> - 1 \<and>
      (\<forall>meta current out. meta_ok meta \<and> kBatteryBytes \<le> length out \<longrightarrow>
         (let v = \<lparr>b_meta = meta, b_voltage_mv = bt_voltage_mv t, b_current_ma = current,
                   b_remaining_permille = bt_remaining_permille t, b_reserved = 0\<rparr>
          in \<exists>buf. encode_battery v (Some out) (length out) = Some buf \<and>
                   decode_battery (Some buf) kBatteryBytes = Some v))) \<and>
   (fst (decode_global_position M bytes len g) = Some p \<longrightarrow>
      pt_source_system p \<noteq> 0 \<and>
      (\<forall>meta out. meta_ok meta \<and> kPositionBytes \<le> length out \<longrightarrow>
         (encode_position \<lparr>p_meta = meta, p_latitude_e7 = pt_latitude_e7 p, p_longitude_e7 = pt_longitude_e7 p,
            p_altitude_mm = pt_altitude_mm p\<rparr> (Some out) (length out) \<noteq> None) =
         (\<bar>sint (pt_latitude_e7 p)\<bar> \<le> 900000000 \<and> \<bar>sint (pt_longitude_e7 p)\<bar> \<le> 1800000000)))"
proof (intro conjI impI)
  assume t: "fst (decode_battery_status M bytes len g) = Some t"
  then show permille: "bt_remaining_permille t \<le> 1000"
    by (auto simp: decode_battery_status_def Let_def permille_bound split: if_splits prod.splits)
  from t show "bt_source_system t \<noteq> 0" and "bt_voltage_mv t \<noteq> - 1"
    by (auto simp: decode_battery_status_def Let_def split: if_splits prod.splits)
  show "\<forall>meta current out. meta_ok meta \<and> kBatteryBytes \<le> length out \<longrightarrow>
         (let v = \<lparr>b_meta = meta, b_voltage_mv = bt_voltage_mv t, b_current_ma = current,
                   b_remaining_permille = bt_remaining_permille t, b_reserved = 0\<rparr>
          in \<exists>buf. encode_battery v (Some out) (length out) = Some buf \<and>
                   decode_battery (Some buf) kBatteryBytes = Some v)"
  proof (intro allI impI)
    fix meta current and out :: "byte list"
    assume ok: "meta_ok meta \<and> kBatteryBytes \<le> length out"
    let ?v = "\<lparr>b_meta = meta, b_voltage_mv = bt_voltage_mv t, b_current_ma = current,
                   b_remaining_permille = bt_remaining_permille t, b_reserved = 0\<rparr>"
    have "battery_ok ?v" using ok permille by (simp add: battery_ok_def)
    then show "let v = ?v in \<exists>buf. encode_battery v (Some out) (length out) = Some buf \<and>
                   decode_battery (Some buf) kBatteryBytes = Some v"
      using battery.encode_decode [of ?v "length out" out] ok by auto
  qed
next
  assume p: "fst (decode_global_position M bytes len g) = Some p"
  then show "pt_source_system p \<noteq> 0"
    by (auto simp: decode_global_position_def Let_def split: if_splits prod.splits)
  show "\<forall>meta out. meta_ok meta \<and> kPositionBytes \<le> length out \<longrightarrow>
         (encode_position \<lparr>p_meta = meta, p_latitude_e7 = pt_latitude_e7 p, p_longitude_e7 = pt_longitude_e7 p,
            p_altitude_mm = pt_altitude_mm p\<rparr> (Some out) (length out) \<noteq> None) =
         (\<bar>sint (pt_latitude_e7 p)\<bar> \<le> 900000000 \<and> \<bar>sint (pt_longitude_e7 p)\<bar> \<le> 1800000000)"
    using position.encode_iff by (simp add: position_ok_def)
qed

theorem telemetry_fits_native_witness:
  "\<exists>t p. fst (decode_battery_status byte_lib (Some [147]) 1 ()) = Some t \<and> bt_remaining_permille t = 900 \<and>
     fst (decode_global_position byte_lib (Some [33]) 1 ()) = Some p \<and> bt_voltage_mv t \<noteq> - 1 \<and>
     pt_source_system p \<noteq> 0"
proof -
  obtain t where t: "fst (decode_battery_status byte_lib (Some [147]) 1 ()) = Some t" "bt_remaining_permille t = 900"
    by (simp add: decode_battery_status_def parse_message_def byte_lib_def)
  obtain p where p: "fst (decode_global_position byte_lib (Some [33]) 1 ()) = Some p"
    by (simp add: decode_global_position_def parse_message_def byte_lib_def)
  have "bt_voltage_mv t \<noteq> - 1"
    using telemetry_fits_native [of byte_lib "Some [147]" 1 "()" t] t by blast
  moreover have "pt_source_system p \<noteq> 0"
    using telemetry_fits_native [of byte_lib "Some [33]" 1 "()" _ p] p by blast
  ultimately show ?thesis using t p by blast
qed

definition scaled_from :: "i32 \<Rightarrow> float32 \<Rightarrow> bool" where
  "scaled_from w f \<longleftrightarrow>
     \<bar>real_of_int (sint w) - 1000000 * float_value f\<bar> < 1 + 1000000 * \<bar>float_value f\<bar> / 16777216"

text \<open>
  C39: The scaling of angles. For finite roll, pitch and yaw of at most 2147 radians (any physical
  angle) \<^verbatim>\<open>decode_attitude\<close> returns microradians within 1 plus a rounding error of 2 to the power
  -24 of the exact product; for an angle of 2148 radians or more, which the finiteness check lets
  through, the conversion to \<^verbatim>\<open>std::int32_t\<close> is undefined behaviour.
\<close>

theorem attitude_scaling:
  assumes "parse_message M bytes len (ml_id_attitude M) (ml_no_message M) g = ((True, m), g')"
    and "ml_sysid M m \<noteq> 0" and "raw = ml_attitude_decode M m"
    and "isfinite (mat_roll raw)" "isfinite (mat_pitch raw)" "isfinite (mat_yaw raw)"
  shows "(\<bar>float_value (mat_roll raw)\<bar> \<le> 2147 \<and> \<bar>float_value (mat_pitch raw)\<bar> \<le> 2147 \<and>
      \<bar>float_value (mat_yaw raw)\<bar> \<le> 2147 \<longrightarrow>
      (\<exists>t. decode_attitude_mavlink M bytes len g = (Returned t, g') \<and>
        at_source_system t = ml_sysid M m \<and> scaled_from (at_roll_urad t) (mat_roll raw) \<and>
        scaled_from (at_pitch_urad t) (mat_pitch raw) \<and> scaled_from (at_yaw_urad t) (mat_yaw raw))) \<and>
    (2148 \<le> \<bar>float_value (mat_roll raw)\<bar> \<or> 2148 \<le> \<bar>float_value (mat_pitch raw)\<bar> \<or>
      2148 \<le> \<bar>float_value (mat_yaw raw)\<bar> \<longrightarrow>
      decode_attitude_mavlink M bytes len g = (Undefined_Behaviour, g'))"
proof (intro conjI impI)
  have step: "decode_attitude_mavlink M bytes len g =
      (case (rad_to_urad (mat_roll raw), rad_to_urad (mat_pitch raw), rad_to_urad (mat_yaw raw)) of
         (Some roll, Some pitch, Some yaw) \<Rightarrow>
           (Returned \<lparr>at_source_system = ml_sysid M m, at_roll_urad = roll, at_pitch_urad = pitch,
              at_yaw_urad = yaw\<rparr>, g')
       | _ \<Rightarrow> (Undefined_Behaviour, g'))"
    using assms by (simp add: decode_attitude_mavlink_def Let_def)
  {
    assume "\<bar>float_value (mat_roll raw)\<bar> \<le> 2147 \<and> \<bar>float_value (mat_pitch raw)\<bar> \<le> 2147 \<and>
      \<bar>float_value (mat_yaw raw)\<bar> \<le> 2147"
    then obtain roll pitch yaw where "rad_to_urad (mat_roll raw) = Some roll" "scaled_from roll (mat_roll raw)"
      "rad_to_urad (mat_pitch raw) = Some pitch" "scaled_from pitch (mat_pitch raw)"
      "rad_to_urad (mat_yaw raw) = Some yaw" "scaled_from yaw (mat_yaw raw)"
      using rad_to_urad_bounds unfolding scaled_from_def by meson
    then show "\<exists>t. decode_attitude_mavlink M bytes len g = (Returned t, g') \<and>
        at_source_system t = ml_sysid M m \<and> scaled_from (at_roll_urad t) (mat_roll raw) \<and>
        scaled_from (at_pitch_urad t) (mat_pitch raw) \<and> scaled_from (at_yaw_urad t) (mat_yaw raw)"
      by (simp add: step)
  next
    assume "2148 \<le> \<bar>float_value (mat_roll raw)\<bar> \<or> 2148 \<le> \<bar>float_value (mat_pitch raw)\<bar> \<or>
      2148 \<le> \<bar>float_value (mat_yaw raw)\<bar>"
    then show "decode_attitude_mavlink M bytes len g = (Undefined_Behaviour, g')"
      using rad_to_urad_undefined by (auto simp: step split: option.split)
  }
qed

lemma excess_step: "n < 16777216 \<Longrightarrow> excess_bits n = 0" "16777216 \<le> n \<Longrightarrow> excess_bits n = Suc (excess_bits (n div 2))"
  by (simp_all add: excess_bits.simps [of n])

text \<open>The angles of the adapter's test: 0.1, -0.2 and 0.3 radians.\<close>

lemma test_angles:
  "rad_to_urad 0x3DCCCCCD = Some 100000" "rad_to_urad 0xBE4CCCCD = Some (- 200000)"
  "rad_to_urad 0x3E99999A = Some 300000"
  by (simp_all add: rad_to_urad_def float_scale_def float_significand_def float_exponent_def round24_def
    excess_step Let_def)

theorem attitude_scaling_witness:
  "\<exists>t. decode_attitude_mavlink byte_lib (Some [30]) 1 () = (Returned t, ()) \<and> at_roll_urad t = 100000 \<and>
     at_pitch_urad t = - 200000 \<and> scaled_from 100000 0x3DCCCCCD \<and> scaled_from (- 200000) 0xBE4CCCCD"
proof -
  have parse: "parse_message byte_lib (Some [30]) 1 (ml_id_attitude byte_lib) (ml_no_message byte_lib) () = ((True, 30), ())"
    by (simp add: parse_message_def byte_lib_def)
  have angles: "\<bar>float_value 0x3DCCCCCD\<bar> \<le> 2147" "\<bar>float_value 0xBE4CCCCD\<bar> \<le> 2147" "\<bar>float_value 0x3E99999A\<bar> \<le> 2147"
    by (simp_all add: float_value_def float_scale_def float_significand_def float_exponent_def power_int_def power_divide)
  have "\<exists>t. decode_attitude_mavlink byte_lib (Some [30]) 1 () = (Returned t, ()) \<and>
      at_source_system t = ml_sysid byte_lib 30 \<and> scaled_from (at_roll_urad t) 0x3DCCCCCD \<and>
      scaled_from (at_pitch_urad t) 0xBE4CCCCD \<and> scaled_from (at_yaw_urad t) 0x3E99999A"
    using attitude_scaling [OF parse _ refl] angles by (simp add: byte_lib_def isfinite_def)
  moreover have "decode_attitude_mavlink byte_lib (Some [30]) 1 () =
      (Returned \<lparr>at_source_system = 1, at_roll_urad = 100000, at_pitch_urad = - 200000, at_yaw_urad = 300000\<rparr>, ())"
    by (simp add: decode_attitude_mavlink_def parse_message_def byte_lib_def isfinite_def test_angles)
  ultimately show ?thesis by auto
qed

text \<open>
  A native command that arrived as a payload and names an allowlisted command is forwardable: the
  adapter's guards ask for nothing the payload decoder has not already checked. Arguments past the
  argument count are checked by neither and reach the MAVLink frame as they are.
\<close>

theorem decoded_command_forwardable:
  assumes "decode_command bytes len = Some r" and "command_allowed (cr_command_id r)"
  shows "command_forwardable r"
proof -
  have "valid_command r"
    using assms(1) by (auto simp: decode_command_def Let_def split: option.splits if_splits)
  then show ?thesis
    using assms(2) by (auto simp: valid_command_def command_forwardable_def list_all_iff split: if_splits)
qed

end
