(* ===== verification/Loops.thy ===== *)
theory Loops
  imports NM_Prelude
begin

text \<open>
  The loops of the programs. One pass through a loop body ends with \<^verbatim>\<open>continue\<close> (or by reaching the
  end of the body), with \<^verbatim>\<open>break\<close> or with \<^verbatim>\<open>return\<close>; the loop is the
  \<open>partial_function (option)\<close> \<open>run_loop\<close>, whose value is the exit code and the last state, or
  \<open>None\<close> if it never ends. The locale \<open>service_loop\<close> is what such a loop promises: it returns
  exactly what finitely many passes return. From it come a rule for what holds whenever the loop
  returns, and one that makes it return.
\<close>

datatype loop_exit = Continue | Break | Return int

text \<open>\<open>finish\<close> is the code after the loop, reached by a \<^verbatim>\<open>break\<close>: the exit code and the last state.\<close>

partial_function (option) run_loop ::
    "('s \<Rightarrow> loop_exit \<times> 's) \<Rightarrow> ('s \<Rightarrow> int \<times> 's) \<Rightarrow> 's \<Rightarrow> (int \<times> 's) option" where
  "run_loop body finish s =
     (case body s of
        (Return code, s') \<Rightarrow> Some (code, s')
      | (Break, s') \<Rightarrow> Some (finish s')
      | (Continue, s') \<Rightarrow> run_loop body finish s')"

lemma run_loop_pass:
  "body s = (Continue, s') \<Longrightarrow> run_loop body finish s = run_loop body finish s'"
  "body s = (Break, s') \<Longrightarrow> run_loop body finish s = Some (finish s')"
  "body s = (Return code, s') \<Longrightarrow> run_loop body finish s = Some (code, s')"
  by (subst run_loop.simps, simp)+

text \<open>At most \<open>n\<close> passes.\<close>

primrec run_for :: "('s \<Rightarrow> loop_exit \<times> 's) \<Rightarrow> ('s \<Rightarrow> int \<times> 's) \<Rightarrow> nat \<Rightarrow> 's \<Rightarrow> (int \<times> 's) option" where
  "run_for body finish 0 s = None"
| "run_for body finish (Suc n) s =
     (case body s of
        (Return code, s') \<Rightarrow> Some (code, s')
      | (Break, s') \<Rightarrow> Some (finish s')
      | (Continue, s') \<Rightarrow> run_for body finish n s')"

lemma run_for_pass:
  assumes "body s = (x, s')"
    and "case x of Return code \<Rightarrow> r = (code, s') | Break \<Rightarrow> r = finish s'
      | Continue \<Rightarrow> \<exists>n. run_for body finish n s' = Some r"
  shows "\<exists>n. run_for body finish n s = Some r"
proof -
  have "\<exists>n. run_for body finish (Suc n) s = Some r"
    using assms by (auto split: loop_exit.splits)
  then show ?thesis by blast
qed

text \<open>What a pass has to establish: the invariant if the loop goes on, the result if it ends.\<close>

definition pass_ok :: "('s \<Rightarrow> int \<times> 's) \<Rightarrow> ('s \<Rightarrow> bool) \<Rightarrow> (int \<Rightarrow> 's \<Rightarrow> bool) \<Rightarrow> loop_exit \<times> 's \<Rightarrow> bool" where
  "pass_ok finish I Q r = (case r of
      (Continue, s) \<Rightarrow> I s | (Break, s) \<Rightarrow> case_prod Q (finish s) | (Return code, s) \<Rightarrow> Q code s)"

lemma pass_ok_simps [simp]:
  "pass_ok finish I Q (Continue, s) = I s"
  "pass_ok finish I Q (Break, s) = case_prod Q (finish s)"
  "pass_ok finish I Q (Return code, s) = Q code s"
  by (simp_all add: pass_ok_def)

lemma run_for_outcome:
  assumes "run_for body finish n s = Some (code, s')" and "I s"
    and pass: "\<And>s. I s \<Longrightarrow> pass_ok finish I Q (body s)"
  shows "Q code s'"
  using assms(1,2)
proof (induction n arbitrary: s)
  case (Suc n)
  then show ?case using pass [of s] by (auto split: prod.splits loop_exit.splits)
qed simp

lemma run_for_ends:
  fixes rank :: "'s \<Rightarrow> nat"
  assumes "I s" and "\<And>s. I s \<Longrightarrow> pass_ok finish (\<lambda>s'. I s' \<and> rank s' < rank s) (\<lambda>_ _. True) (body s)"
  shows "\<exists>n r. run_for body finish n s = Some r"
  using assms(1)
proof (induction "rank s" arbitrary: s rule: less_induct)
  case less
  obtain x s' where body: "body s = (x, s')" by fastforce
  show ?case
  proof (cases x)
    case Continue
    then obtain n r where "run_for body finish n s' = Some r"
      using less.hyps [of s'] assms(2) [OF less.prems] body by auto
    then have "run_for body finish (Suc n) s = Some r" by (simp add: body Continue)
    then show ?thesis by blast
  next
    case Break
    then have "run_for body finish (Suc 0) s = Some (finish s')" by (simp add: body)
    then show ?thesis by blast
  next
    case (Return code)
    then have "run_for body finish (Suc 0) s = Some (code, s')" by (simp add: body)
    then show ?thesis by blast
  qed
qed

locale service_loop =
  fixes body :: "'s \<Rightarrow> loop_exit \<times> 's"
    and finish :: "'s \<Rightarrow> int \<times> 's"
    and loop :: "'s \<Rightarrow> (int \<times> 's) option"
  assumes loop_iff: "loop s = Some r \<longleftrightarrow> (\<exists>n. run_for body finish n s = Some r)"
begin

lemma loop_outcome:
  assumes "loop s = Some (code, s')" and "I s"
    and "\<And>s. I s \<Longrightarrow> pass_ok finish I Q (body s)"
  shows "Q code s'"
  using assms(1) run_for_outcome [OF _ assms(2,3)] by (auto simp: loop_iff)

lemma loop_ends:
  fixes rank :: "'s \<Rightarrow> nat"
  assumes "I s" and "\<And>s. I s \<Longrightarrow> pass_ok finish (\<lambda>s'. I s' \<and> rank s' < rank s) (\<lambda>_ _. True) (body s)"
  shows "\<exists>code s'. loop s = Some (code, s')"
  using run_for_ends [of I s finish rank body, OF assms] by (auto simp: loop_iff)

end

text \<open>The loops of the programs keep the promise.\<close>

interpretation loops: service_loop body finish "run_loop body finish" for body finish
proof
  fix s r
  have "\<exists>n. run_for body finish n s = Some r" if "run_loop body finish s = Some r"
  proof (rule run_loop.raw_induct [OF _ that], goal_cases)
    case (1 loop body finish s r)
    obtain x s' where pass: "body s = (x, s')" by fastforce
    with 1(2) have "case x of Return code \<Rightarrow> r = (code, s') | Break \<Rightarrow> r = finish s'
        | Continue \<Rightarrow> \<exists>n. run_for body finish n s' = Some r"
      using 1(1) [of body finish s' r] by (simp split: loop_exit.splits)
    from run_for_pass [of body s x s', OF pass this] show ?case .
  qed
  moreover have "run_loop body finish s = Some r" if "run_for body finish n s = Some r" for n
    using that
  proof (induction n arbitrary: s)
    case (Suc n)
    then show ?case by (subst run_loop.simps) (auto split: prod.splits loop_exit.splits)
  qed simp
  ultimately show "(run_loop body finish s = Some r) = (\<exists>n. run_for body finish n s = Some r)" by blast
qed

end
