(* ===== verification/Vehicle_App.thy ===== *)
theory Vehicle_App
  imports Publisher Transport Loops
begin

text \<open>
  The programs \<^verbatim>\<open>apps/vehicle_endpoint.cpp\<close> and \<^verbatim>\<open>apps/publisher_demo.cpp\<close>. A \<^verbatim>\<open>main\<close> is
  its start (keys, socket), a loop body that is one definition from the state before to the state
  after, and a loop; the lines it prints are the log in the state. The numbers on the command line
  are arguments here: the theory \<open>Programs\<close> reads them from the text of the command line and renders
  the lines as text. Sleeping has no effect on the state. The loop of the vehicle, whose 64-bit time could wrap around,
  is a \<open>partial_function (option)\<close>: \<open>None\<close> would be a run that never ends.
\<close>

section \<open>Shared constants\<close>

definition app_psk :: "byte list" where
  "app_psk = map (\<lambda>i. of_nat (i + 1)) [0..<16]"

definition app_session :: SessionId where
  "app_session = \<lparr>sid_value = 1, sid_epoch = 1\<rparr>"

definition loopback_host :: string where
  "loopback_host = ''127.0.0.1''"

definition vehicle_position :: Position where
  "vehicle_position = \<lparr>p_meta = \<lparr>sm_resource_id = 42, sm_generation = 0, sm_base_generation = 0,
     sm_source_id = 1, sm_snapshot = 0, sm_reserved = 0\<rparr>,
     p_latitude_e7 = 473977400, p_longitude_e7 = 85455900, p_altitude_mm = 500000\<rparr>"

definition vehicle_attitude :: Attitude where
  "vehicle_attitude = \<lparr>a_meta = \<lparr>sm_resource_id = 43, sm_generation = 0, sm_base_generation = 0,
     sm_source_id = 1, sm_snapshot = 0, sm_reserved = 0\<rparr>,
     a_roll_urad = 0, a_pitch_urad = 0, a_yaw_urad = 0\<rparr>"

definition vehicle_battery :: Battery where
  "vehicle_battery = \<lparr>b_meta = \<lparr>sm_resource_id = 44, sm_generation = 0, sm_base_generation = 0,
     sm_source_id = 1, sm_snapshot = 0, sm_reserved = 0\<rparr>,
     b_voltage_mv = 16000, b_current_ma = 0, b_remaining_permille = 900, b_reserved = 0\<rparr>"

section \<open>The vehicle\<close>

type_synonym publish_line = "PublishKind \<times> MessageType \<times> u64"

datatype vehicle_line =
    Vehicle_ready u16 u16 u64 | Vehicle_publish publish_line | Vehicle_send_fail RecordError
  | Vehicle_snapshot | Vehicle_stream u64

record vehicle =
  v_publisher :: StatePublisher
  v_position :: Position
  v_endpoint :: NativeEndpoint
  v_sequence :: u64
  v_log :: "vehicle_line list"

abbreviation log_vehicle :: "vehicle_line \<Rightarrow> vehicle \<Rightarrow> vehicle" where
  "log_vehicle l v \<equiv> v\<lparr>v_log := v_log v @ [l]\<rparr>"

definition new_vehicle :: "DirectionalKeys \<Rightarrow> vehicle" where
  "new_vehicle tx = \<lparr>v_publisher = new_StatePublisher 1 3 kHelpfulSnapshotPeriodMs,
     v_position = vehicle_position, v_endpoint = new_NativeEndpoint (new_Session tx), v_sequence = 0,
     v_log = []\<rparr>"

text \<open>The updates at the head of an iteration.\<close>

definition state_updates :: "bool \<Rightarrow> u64 \<Rightarrow> StatePublisher \<Rightarrow> Position \<Rightarrow> StatePublisher \<times> Position" where
  "state_updates moving now_ms publisher position =
     (let publisher =
            (if now_ms = 0 then
               let publisher = snd (update_position publisher position now_ms);
                   publisher = snd (update_attitude publisher vehicle_attitude now_ms)
               in snd (update_battery publisher vehicle_battery now_ms)
             else publisher)
      in if moving \<and> now_ms = 3000 then
           let position = position\<lparr>p_latitude_e7 := p_latitude_e7 position + 10\<rparr>
           in (snd (update_position publisher position now_ms), position)
         else (publisher, position))"

text \<open>The inner loop over the polled messages; \<open>True\<close> is the early return with exit code 5.\<close>

fun vehicle_send ::
    "'o posix \<Rightarrow> ascon \<Rightarrow> UdpEndpoint \<Rightarrow> u16 \<Rightarrow> u64 \<Rightarrow> PublishedMessage list \<Rightarrow> vehicle \<Rightarrow> 'o \<Rightarrow>
     bool \<times> vehicle \<times> 'o" where
  "vehicle_send P A udp peer_port now_ms [] v os = (False, v, os)"
| "vehicle_send P A udp peer_port now_ms (m # ms) v os =
     (let header = (m_header (pm_message m))\<lparr>h_session_id := 1, h_epoch := 1, h_sequence := v_sequence v,
            h_payload_len := of_nat (m_length (pm_message m))\<rparr>;
          v = v\<lparr>v_sequence := v_sequence v + 1\<rparr>
      in case NativeEndpoint_send P A (v_endpoint v) header (Some (m_payload (pm_message m)))
                (m_length (pm_message m)) udp (Some loopback_host) peer_port os of
           (Inl err, e, os) \<Rightarrow> (True, log_vehicle (Vehicle_send_fail err) (v\<lparr>v_endpoint := e\<rparr>), os)
         | (Inr u, e, os) \<Rightarrow>
             vehicle_send P A udp peer_port now_ms ms
               (log_vehicle (Vehicle_publish (pm_kind m, h_type header, now_ms)) (v\<lparr>v_endpoint := e\<rparr>)) os)"

definition vehicle_iteration ::
    "'o posix \<Rightarrow> ascon \<Rightarrow> UdpEndpoint \<Rightarrow> u16 \<Rightarrow> u64 \<Rightarrow> u64 \<Rightarrow> vehicle \<Rightarrow> 'o \<Rightarrow> loop_exit \<times> vehicle \<times> 'o" where
  "vehicle_iteration P A udp peer_port duration_ms now_ms v os =
     (let (publisher, position) = state_updates (duration_ms > 0) now_ms (v_publisher v) (v_position v);
          (messages, publisher) = poll publisher now_ms False kMaxHelpfulSnapshotMessages;
          v = v\<lparr>v_publisher := publisher, v_position := position\<rparr>;
          (failed, v, os) = vehicle_send P A udp peer_port now_ms messages v os
      in if failed then (Return 5, v, os)
         else if duration_ms = 0 then (Return 0, log_vehicle Vehicle_snapshot v, os)
         else if now_ms \<ge> duration_ms then (Break, v, os)
         else (Continue, v, os))"

partial_function (option) vehicle_loop ::
    "'o posix \<Rightarrow> ascon \<Rightarrow> UdpEndpoint \<Rightarrow> u16 \<Rightarrow> u64 \<Rightarrow> u64 \<Rightarrow> vehicle \<Rightarrow> 'o \<Rightarrow> (int \<times> vehicle \<times> 'o) option" where
  "vehicle_loop P A udp peer_port duration_ms now_ms v os =
     (case vehicle_iteration P A udp peer_port duration_ms now_ms v os of
        (Return code, v, os) \<Rightarrow> Some (code, v, os)
      | (Break, v, os) \<Rightarrow> Some (0, log_vehicle (Vehicle_stream duration_ms) v, os)
      | (Continue, v, os) \<Rightarrow> vehicle_loop P A udp peer_port duration_ms (now_ms + 100) v os)"

text \<open>
  The exit code, the lines printed, and the system after the destructor of the socket.
\<close>

definition vehicle_main ::
    "'o posix \<Rightarrow> ascon \<Rightarrow> u16 \<Rightarrow> u16 \<Rightarrow> u64 \<Rightarrow> 'o \<Rightarrow> (int \<times> vehicle_line list \<times> 'o) option" where
  "vehicle_main P A listen_port peer_port duration_ms os =
     (case derive_directional_keys A app_psk app_session 1 3 of
        None \<Rightarrow> Some (2, [], os)
      | Some (tx, unused) \<Rightarrow>
          let (ok, udp, os) = UdpEndpoint_bind P new_UdpEndpoint listen_port os
          in if \<not> ok then Some (3, [], snd (UdpEndpoint_close P udp os))
             else
               map_option (\<lambda>(code, v, os). (code, Vehicle_ready listen_port peer_port duration_ms # v_log v,
                   snd (UdpEndpoint_close P udp os)))
                 (vehicle_loop P A udp peer_port duration_ms 0 (new_vehicle tx) os))"

section \<open>The publisher demonstration\<close>

text \<open>A line is type, kind, flags, length and time.\<close>

type_synonym demo_line = "MessageType \<times> PublishKind \<times> byte \<times> nat \<times> u64"

fun demo_loop :: "u64 list \<Rightarrow> StatePublisher \<Rightarrow> Position \<Rightarrow> demo_line list" where
  "demo_loop [] publisher position = []"
| "demo_loop (now # later) publisher position =
     (let (publisher, position) = state_updates True now publisher position;
          (output, publisher) = poll publisher now False kMaxHelpfulSnapshotMessages
      in map (\<lambda>m. (h_type (m_header (pm_message m)), pm_kind m, h_flags (m_header (pm_message m)),
                 m_length (pm_message m), now)) output @
         demo_loop later publisher position)"

definition publisher_demo :: "demo_line list" where
  "publisher_demo = demo_loop (map (\<lambda>i. of_nat (1000 * i)) [0..<21])
     (new_StatePublisher 1 3 kHelpfulSnapshotPeriodMs) vehicle_position"

section \<open>Runs of the vehicle\<close>

lemma vehicle_iteration_goes_on:
  "vehicle_iteration P A udp port duration now v os = (Continue, v', os') \<Longrightarrow> now < duration"
  by (auto simp: vehicle_iteration_def Let_def not_le split: prod.splits if_splits)

lemma vehicle_iteration_code:
  "vehicle_iteration P A udp port duration now v os = (Return code, v', os') \<Longrightarrow> code = 0 \<or> code = 5"
  by (auto simp: vehicle_iteration_def Let_def split: prod.splits if_splits)

lemma unat_add_100: "now < duration \<Longrightarrow> duration \<le> - 100 \<Longrightarrow> unat (now + 100) = unat now + 100"
  for now duration :: u64
proof -
  assume "now < duration" and "duration \<le> - 100"
  moreover have "unat (- 100 :: u64) = 2 ^ 64 - 100" by simp
  ultimately have "unat now + 100 < 2 ^ 64" by (simp add: word_less_nat_alt word_le_nat_alt)
  then show ?thesis by (simp add: unat_word_ariths)
qed

lemma vehicle_loop_ends:
  "duration \<le> - 100 \<Longrightarrow> \<exists>code v' os'. vehicle_loop P A udp port duration now v os = Some (code, v', os') \<and> code \<in> {0, 5}"
proof (induction "2 ^ 64 - unat now" arbitrary: now v os rule: less_induct)
  case less
  obtain r v1 os1 where it: "vehicle_iteration P A udp port duration now v os = (r, v1, os1)"
    by (cases "vehicle_iteration P A udp port duration now v os") auto
  show ?case
  proof (cases r)
    case Continue
    note up = unat_add_100 [OF vehicle_iteration_goes_on [OF it [unfolded Continue]] less.prems]
    have "unat (now + 100) < 2 ^ 64" using unsigned_less [of "now + 100"] by simp
    then have "2 ^ 64 - unat (now + 100) < 2 ^ 64 - unat now" using up by linarith
    from less.hyps [OF this less.prems] show ?thesis
      by (subst vehicle_loop.simps) (simp add: it Continue)
  next
    case Break
    then show ?thesis by (subst vehicle_loop.simps) (simp add: it)
  next
    case (Return code)
    then show ?thesis
      using vehicle_iteration_code [OF it [unfolded Return]] by (subst vehicle_loop.simps) (simp add: it)
  qed
qed

text \<open>
  The vehicle program always ends. For every network and every cipher, and every duration up to
  2 to the power 64 minus 100 milliseconds (beyond it the 64-bit time of the loop could wrap around
  before the end is reached), \<^verbatim>\<open>main\<close> returns one of the exit codes 0, 2, 3 and 5.
\<close>

theorem vehicle_main_terminates:
  assumes "duration_ms \<le> - 100"
  shows "\<exists>code lines os'. vehicle_main P A listen_port peer_port duration_ms os = Some (code, lines, os') \<and>
    code \<in> {0, 2, 3, 5}"
proof (cases "derive_directional_keys A app_psk app_session 1 3")
  case None
  then show ?thesis by (simp add: vehicle_main_def)
next
  case (Some keys)
  obtain tx unused where keys: "keys = (tx, unused)" by fastforce
  obtain ok udp os1 where bind: "UdpEndpoint_bind P new_UdpEndpoint listen_port os = (ok, udp, os1)"
    by (cases "UdpEndpoint_bind P new_UdpEndpoint listen_port os") auto
  obtain code v' os' where "vehicle_loop P A udp peer_port duration_ms 0 (new_vehicle tx) os1 = Some (code, v', os')"
    and code: "code = 0 \<or> code = 5"
    using vehicle_loop_ends [OF assms, of P A udp peer_port 0 "new_vehicle tx" os1] by auto
  then have "vehicle_main P A listen_port peer_port duration_ms os =
      (if ok then Some (code, Vehicle_ready listen_port peer_port duration_ms # v_log v', snd (UdpEndpoint_close P udp os')) else Some (3, [], snd (UdpEndpoint_close P udp os1)))"
    by (simp add: vehicle_main_def Some keys bind)
  then show ?thesis using code by (cases ok) auto
qed

theorem vehicle_main_terminates_witness:
  "\<exists>code lines os'. vehicle_main loopback xor_ascon 0 24660 20500 empty_net = Some (code, lines, os') \<and>
    code \<in> {0, 2, 3, 5}"
proof -
  have "(20500 :: u64) \<le> - 100" by simp
  from vehicle_main_terminates [OF this] show ?thesis .
qed

section \<open>What the vehicle publishes\<close>

definition settled :: "u64 \<Rightarrow> bool \<Rightarrow> StatePublisher" where
  "settled due moved = \<lparr>sp_source_id = 1, sp_destination_id = 3, sp_snapshot_period_ms = 10000,
     sp_next_snapshot_ms = due,
     sp_state = \<lparr>hs_has_position = True, hs_has_attitude = True, hs_has_battery = True,
       hs_position = vehicle_position\<lparr>p_meta := (p_meta vehicle_position)\<lparr>
           sm_generation := (if moved then 2 else 1), sm_base_generation := (if moved then 1 else 0)\<rparr>,
         p_latitude_e7 := (if moved then 473977410 else 473977400)\<rparr>,
       hs_attitude = vehicle_attitude\<lparr>a_meta := (a_meta vehicle_attitude)\<lparr>sm_generation := 1\<rparr>\<rparr>,
       hs_battery = vehicle_battery\<lparr>b_meta := (b_meta vehicle_battery)\<lparr>sm_generation := 1\<rparr>\<rparr>\<rparr>,
     sp_position_generation = (if moved then 2 else 1), sp_attitude_generation = 1,
     sp_battery_generation = 1, sp_position_dirty = False, sp_attitude_dirty = False,
     sp_battery_dirty = False\<rparr>"

definition position_at :: "bool \<Rightarrow> Position" where
  "position_at moved = vehicle_position\<lparr>p_latitude_e7 := (if moved then 473977410 else 473977400)\<rparr>"

lemmas vehicle_defs = vehicle_position_def vehicle_attitude_def vehicle_battery_def

lemma updates_start:
  "state_updates moving 0 (new_StatePublisher 1 3 kHelpfulSnapshotPeriodMs) vehicle_position =
     ((settled 10000 False)\<lparr>sp_position_dirty := True, sp_attitude_dirty := True, sp_battery_dirty := True\<rparr>,
      position_at False)"
  by (simp add: state_updates_def Let_def new_StatePublisher_def default_state_def update_position_def
    changed_position_def update_attitude_def changed_attitude_def update_battery_def changed_battery_def
    next_generation_def kHelpfulSnapshotPeriodMs_def settled_def position_at_def vehicle_defs)

lemma updates_move:
  "state_updates True 3000 (settled due False) (position_at False) =
     ((settled due True)\<lparr>sp_position_dirty := True, sp_next_snapshot_ms := (if due = 0 then 13000 else due)\<rparr>,
      position_at True)"
  by (simp add: state_updates_def Let_def settled_def position_at_def update_position_def
    changed_position_def next_generation_def vehicle_defs)

lemma updates_quiet:
  "now \<noteq> 0 \<Longrightarrow> \<not> (moving \<and> now = 3000) \<Longrightarrow> state_updates moving now p pos = (p, pos)"
  by (auto simp: state_updates_def)

text \<open>The messages of one poll, by kind: a settled publisher is silent until the snapshot is due.\<close>

lemma settled_sendable:
  "position_sendable (settled due moved) snapshot" "attitude_sendable (settled due moved) snapshot"
  "battery_sendable (settled due moved) snapshot"
  by (cases moved; cases snapshot; simp add: position_sendable_def attitude_sendable_def battery_sendable_def
    settled_def vehicle_defs position_ok_def attitude_ok_def battery_ok_def meta_ok_def stamped_def)+

definition lines_at :: "bool \<Rightarrow> nat \<Rightarrow> publish_line list" where
  "lines_at moving t =
     map (\<lambda>(kind, type). (kind, type, of_nat t))
       (if t = 0 then [(OnChange, MT_Position), (OnChange, MT_Attitude), (OnChange, MT_Battery)]
        else if t mod 10000 = 0
        then [(HelpfulSnapshot, MT_Position), (HelpfulSnapshot, MT_Attitude), (HelpfulSnapshot, MT_Battery)]
        else if moving \<and> t = 3000 then [(OnChange, MT_Position)] else [])"

abbreviation poll_line :: "u64 \<Rightarrow> PublishedMessage \<Rightarrow> publish_line" where
  "poll_line now m \<equiv> (pm_kind m, published_type m, now)"

lemma poll_lines:
  assumes "list_all (carries_state p snapshot) out" and "map published_type out = ts"
  shows "map (poll_line now) out = map (\<lambda>t. (if snapshot then HelpfulSnapshot else OnChange, t, now)) ts"
proof -
  have "pm_kind m = (if snapshot then HelpfulSnapshot else OnChange)" if "carries_state p snapshot m" for m
    using that by (auto simp: carries_state_def carries_header_def Let_def)
  then show ?thesis
    using assms by (induction out arbitrary: ts) auto
qed

definition due_after :: "nat \<Rightarrow> u64" where
  "due_after t = of_nat (10000 * (t div 10000 + 1))"

abbreviation poll3 :: "StatePublisher \<Rightarrow> u64 \<Rightarrow> PublishedMessage list \<times> StatePublisher" where
  "poll3 p now \<equiv> poll p now False kMaxHelpfulSnapshotMessages"

lemma poll_settled_due:
  assumes "due \<noteq> 0" "due \<le> now" "now \<le> - 10001"
  shows "\<exists>out. poll3 (settled due moved) now = (out, settled (now + 10000) moved) \<and>
    list_all (carries_state (settled due moved) True) out \<and>
    map (poll_line now) out = map (\<lambda>t. (HelpfulSnapshot, t, now)) [MT_Position, MT_Attitude, MT_Battery]"
proof -
  let ?p = "settled due moved"
  have due: "snapshot_due ?p now" using assms by (simp add: snapshot_due_def settled_def)
  have want: "wanted ?p True = [MT_Position, MT_Attitude, MT_Battery]"
    by (simp add: wanted_def settled_sendable)
  note d = poll_due [OF _ due, of kMaxHelpfulSnapshotMessages]
  have "\<not> now > - 1 - 10000" using assms(3) by simp
  then have next_p: "schedule_next_snapshot
      (?p\<lparr>sp_position_dirty := False, sp_attitude_dirty := False, sp_battery_dirty := False\<rparr>) now =
      settled (now + 10000) moved"
    by (simp add: schedule_next_snapshot_def settled_def)
  show ?thesis
  proof (intro exI conjI)
    show "poll3 ?p now = (fst (poll3 ?p now), settled (now + 10000) moved)"
      using d next_p by (simp add: prod_eq_iff kMaxHelpfulSnapshotMessages_def)
    show "list_all (carries_state ?p True) (fst (poll3 ?p now))"
      using d by (simp add: kMaxHelpfulSnapshotMessages_def)
    show "map (poll_line now) (fst (poll3 ?p now)) = map (\<lambda>t. (HelpfulSnapshot, t, now)) [MT_Position, MT_Attitude, MT_Battery]"
      using poll_lines [of ?p True "fst (poll3 ?p now)"] d by (simp add: want kMaxHelpfulSnapshotMessages_def)
  qed
qed

definition with_dirty :: "bool \<Rightarrow> bool \<Rightarrow> bool \<Rightarrow> StatePublisher \<Rightarrow> StatePublisher" where
  "with_dirty d1 d2 d3 p = p\<lparr>sp_position_dirty := d1, sp_attitude_dirty := d2, sp_battery_dirty := d3\<rparr>"

definition dirty_types :: "bool \<Rightarrow> bool \<Rightarrow> bool \<Rightarrow> MessageType list" where
  "dirty_types d1 d2 d3 =
     (if d1 then [MT_Position] else []) @ (if d2 then [MT_Attitude] else []) @ (if d3 then [MT_Battery] else [])"

lemma poll_settled_dirty:
  assumes "now < due"
  shows "\<exists>out. poll3 (with_dirty d1 d2 d3 (settled due moved)) now = (out, settled due moved) \<and>
    list_all (carries_state (settled due moved) False) out \<and>
    map (poll_line now) out = map (\<lambda>t. (OnChange, t, now)) (dirty_types d1 d2 d3)"
proof -
  let ?p = "(settled due moved)\<lparr>sp_position_dirty := d1, sp_attitude_dirty := d2, sp_battery_dirty := d3\<rparr>"
  have due: "\<not> snapshot_due ?p now" using assms by (auto simp: snapshot_due_def settled_def)
  have "kind_sendable ?p False t = kind_sendable (settled due moved) False t" for t
    by (cases t) (simp_all add: position_sendable_def attitude_sendable_def battery_sendable_def)
  then have want: "wanted ?p False =
      (if d1 then [MT_Position] else []) @ (if d2 then [MT_Attitude] else []) @ (if d3 then [MT_Battery] else [])"
    by (simp add: wanted_def settled_sendable)
  have carries: "carries_state ?p False = carries_state (settled due moved) False"
    by (simp add: fun_eq_iff carries_state_def carries_header_def)
  have p': "?p\<lparr>sp_position_dirty := False, sp_attitude_dirty := False, sp_battery_dirty := False\<rparr> = settled due moved"
    by (simp add: settled_def)
  note c = poll_change [OF _ due, of kMaxHelpfulSnapshotMessages]
  have take3: "take 3 (wanted ?p False) = wanted ?p False" by (simp add: want)
  have dirty: "(d1 \<and> MT_Position \<notin> set (wanted ?p False)) = False"
    "(d2 \<and> MT_Attitude \<notin> set (wanted ?p False)) = False" "(d3 \<and> MT_Battery \<notin> set (wanted ?p False)) = False"
    by (auto simp: want)
  show ?thesis
    unfolding with_dirty_def dirty_types_def
  proof (intro exI conjI)
    have "snd (poll3 ?p now) = settled due moved"
      using c dirty p' by (simp add: kMaxHelpfulSnapshotMessages_def take3)
    then show "poll3 ?p now = (fst (poll3 ?p now), settled due moved)" by (simp add: prod_eq_iff)
    show "list_all (carries_state (settled due moved) False) (fst (poll3 ?p now))"
      using c carries by (simp add: kMaxHelpfulSnapshotMessages_def)
    show "map (poll_line now) (fst (poll3 ?p now)) = map (\<lambda>t. (OnChange, t, now))
        ((if d1 then [MT_Position] else []) @ (if d2 then [MT_Attitude] else []) @ (if d3 then [MT_Battery] else []))"
      using poll_lines [of ?p False "fst (poll3 ?p now)"] c by (simp add: kMaxHelpfulSnapshotMessages_def take3 want)
  qed
qed

text \<open>
  One tick of either program, at a multiple of its step (100 or 1000 ms) before the 64-bit clock
  gets near its end.
\<close>

definition publisher_before :: "bool \<Rightarrow> nat \<Rightarrow> nat \<Rightarrow> StatePublisher \<times> Position" where
  "publisher_before moving st t =
     (if t = 0 then (new_StatePublisher 1 3 kHelpfulSnapshotPeriodMs, vehicle_position)
      else (settled (due_after (t - st)) (moving \<and> 3000 \<le> t - st), position_at (moving \<and> 3000 \<le> t - st)))"

lemma tick_arith:
  fixes st t :: nat
  assumes "st = 100 \<or> st = 1000" and "t mod st = 0" and "0 < t"
  shows "t mod 10000 = 0 \<Longrightarrow> (t - st) div 10000 + 1 = t div 10000 \<and> 10000 \<le> t"
    and "t mod 10000 \<noteq> 0 \<Longrightarrow> (t - st) div 10000 = t div 10000"
    and "t \<noteq> 3000 \<Longrightarrow> (3000 \<le> t - st) = (3000 \<le> t)"
proof -
  have st: "st dvd 10000" "st dvd 3000" "st dvd t" "0 < st" "st \<le> 10000"
    using assms by (auto simp: mod_eq_0_iff_dvd)
  show "(t - st) div 10000 + 1 = t div 10000 \<and> 10000 \<le> t" if "t mod 10000 = 0"
  proof -
    have k: "t = 10000 * (t div 10000)" using that mult_div_mod_eq [of 10000 t] by linarith
    define m where "m = t div 10000 - 1"
    have "t div 10000 \<noteq> 0" using k assms(3) by (metis mult_0_right not_less_zero)
    then have m: "t = 10000 * Suc m" using k by (simp add: m_def)
    then have "t - st = 10000 * m + (10000 - st)" using st by simp
    then have "(t - st) div 10000 = m" using st by (simp add: div_nat_eqI)
    then show ?thesis by (simp add: m)
  qed
  show "(t - st) div 10000 = t div 10000" if "t mod 10000 \<noteq> 0"
  proof -
    have "st dvd t mod 10000" using st by (simp add: dvd_mod)
    then have r: "st \<le> t mod 10000" using that by (simp add: dvd_imp_le)
    have "t - st = 10000 * (t div 10000) + (t mod 10000 - st)"
      using r mult_div_mod_eq [of 10000 t] by linarith
    moreover have "t mod 10000 - st < 10000" by (simp add: less_imp_diff_less)
    ultimately show ?thesis by (simp add: div_nat_eqI)
  qed
  show "(3000 \<le> t - st) = (3000 \<le> t)" if "t \<noteq> 3000"
  proof (cases "3000 < t")
    case True
    have "st dvd t - 3000" using st by (simp add: dvd_diff_nat)
    then have "st \<le> t - 3000" using True by (simp add: dvd_imp_le)
    then show ?thesis using True by linarith
  next
    case False
    then show ?thesis using that by linarith
  qed
qed

definition snapshot_at :: "nat \<Rightarrow> bool" where
  "snapshot_at t \<longleftrightarrow> 0 < t \<and> t mod 10000 = 0"

text \<open>What a tick at time \<open>t\<close> has to do: poll the lines of the schedule and leave the next state.\<close>

definition tick_ok :: "bool \<Rightarrow> nat \<Rightarrow> nat \<Rightarrow> StatePublisher \<Rightarrow> Position \<Rightarrow> bool" where
  "tick_ok moving st t p1 pos \<longleftrightarrow> (\<exists>out due.
     poll3 p1 (of_nat t) = (out, settled (due_after t) (moving \<and> 3000 \<le> t)) \<and>
     pos = position_at (moving \<and> 3000 \<le> t) \<and>
     list_all (carries_state (settled due (moving \<and> 3000 \<le> t)) (snapshot_at t)) out \<and>
     map (poll_line (of_nat t)) out = lines_at moving t)"

lemma settled_addr [simp]: "sp_source_id (settled d m) = 1" "sp_destination_id (settled d m) = 3"
  by (simp_all add: settled_def)

lemma settled_clean [simp]: "with_dirty False False False (settled d m) = settled d m"
  by (simp add: settled_def with_dirty_def)

lemma unat_time: "n < 2 ^ 64 \<Longrightarrow> unat (of_nat n :: u64) = n"
  by (simp add: unat_of_nat take_bit_eq_mod)

lemma unat_due_after:
  assumes "t + 20000 < 2 ^ 64"
  shows "unat (due_after t) = 10000 * (t div 10000 + 1)"
proof -
  have "10000 * (t div 10000) \<le> t" by simp
  then have "10000 * (t div 10000 + 1) < 2 ^ 64" using assms by (simp add: algebra_simps)
  then show ?thesis unfolding due_after_def by (rule unat_time)
qed

lemma due_after_multiple:
  assumes "t mod 10000 = 0"
  shows "due_after t = of_nat t + 10000"
proof -
  have "10000 * (t div 10000) = t" using assms by auto
  then have "10000 * (t div 10000 + 1) = t + 10000" by (simp add: distrib_left)
  then show ?thesis by (simp add: due_after_def)
qed

lemma tick_ok_dirty:
  assumes "of_nat t < due_after t" and "p1 = with_dirty d1 d2 d3 (settled (due_after t) (moving \<and> 3000 \<le> t))"
    and "pos = position_at (moving \<and> 3000 \<le> t)"
    and "map (\<lambda>k. (OnChange, k, of_nat t)) (dirty_types d1 d2 d3) = lines_at moving t"
    and "snapshot_at t = False"
  shows "tick_ok moving st t p1 pos"
proof -
  let ?q = "settled (due_after t) (moving \<and> 3000 \<le> t)"
  obtain out where out: "poll3 p1 (of_nat t) = (out, ?q)" "list_all (carries_state ?q False) out"
    "map (poll_line (of_nat t)) out = map (\<lambda>k. (OnChange, k, of_nat t)) (dirty_types d1 d2 d3)"
    using poll_settled_dirty [OF assms(1), of d1 d2 d3 "moving \<and> 3000 \<le> t"] unfolding assms(2) by blast
  show ?thesis
    unfolding tick_ok_def assms(5)
    by (intro exI conjI, rule out(1), rule assms(3), rule out(2)) (simp add: out(3) assms(4))
qed

lemma tick_first:
  assumes "state_updates moving 0 (new_StatePublisher 1 3 kHelpfulSnapshotPeriodMs) vehicle_position = (p1, pos)"
  shows "tick_ok moving st 0 p1 pos"
  using assms by (intro tick_ok_dirty [of 0 _ True True True])
    (auto simp: updates_start with_dirty_def due_after_def lines_at_def dirty_types_def snapshot_at_def)

lemma tick_move:
  assumes st: "st = 100 \<or> st = 1000"
    and up: "state_updates True 3000 (settled (due_after (3000 - st)) False) (position_at False) = (p1, pos)"
  shows "tick_ok True st 3000 p1 pos"
proof -
  have d: "due_after (3000 - st) = 10000" "due_after 3000 = 10000"
    using st by (auto simp: due_after_def)
  have "(settled 10000 True)\<lparr>sp_position_dirty := True, sp_next_snapshot_ms := 10000\<rparr> =
      with_dirty True False False (settled 10000 True)"
    by (simp add: settled_def with_dirty_def)
  then have "p1 = with_dirty True False False (settled 10000 True)" "pos = position_at True"
    using up by (auto simp: d updates_move)
  then show ?thesis
    by (intro tick_ok_dirty [of 3000 _ True False False]) (simp_all add: d lines_at_def dirty_types_def snapshot_at_def)
qed

lemma tick_snapshot:
  assumes t: "t mod 10000 = 0" "0 < t" "t + 20000 < 2 ^ 64"
    and up: "state_updates moving (of_nat t) (settled (of_nat t) (moving \<and> 3000 \<le> t)) (position_at (moving \<and> 3000 \<le> t)) = (p1, pos)"
  shows "tick_ok moving st t p1 pos"
proof -
  let ?m = "moving \<and> 3000 \<le> t"
  have "t \<noteq> 3000" using t(1) by auto
  then have quiet: "(of_nat t :: u64) \<noteq> 0" "(of_nat t :: u64) \<noteq> 3000"
    using unat_time [of t] t(2,3) by (auto simp: word_unat_eq_iff)
  then have p1: "p1 = settled (of_nat t) ?m" "pos = position_at ?m"
    using up updates_quiet [OF quiet(1)] by simp_all
  have "(of_nat t :: u64) \<le> - 10001" using unat_time [of t] t(3) by (simp add: word_le_nat_alt)
  then obtain out where out: "poll3 p1 (of_nat t) = (out, settled (of_nat t + 10000) ?m)"
    "list_all (carries_state p1 True) out"
    "map (poll_line (of_nat t)) out = map (\<lambda>k. (HelpfulSnapshot, k, of_nat t)) [MT_Position, MT_Attitude, MT_Battery]"
    using poll_settled_due [of "of_nat t" "of_nat t" ?m] quiet(1) unfolding p1(1) by blast
  have lines: "lines_at moving t = map (\<lambda>k. (HelpfulSnapshot, k, of_nat t)) [MT_Position, MT_Attitude, MT_Battery]"
    using t(1,2) by (simp add: lines_at_def)
  show ?thesis
    unfolding tick_ok_def due_after_multiple [OF t(1)] lines
    by (intro exI conjI, rule out(1), rule p1(2)) (use out(2,3) t in \<open>simp_all add: p1(1) snapshot_at_def\<close>)
qed

lemma tick_quiet:
  assumes t: "t mod 10000 \<noteq> 0" "t + 20000 < 2 ^ 64" and still: "\<not> (moving \<and> t = 3000)"
    and up: "state_updates moving (of_nat t) (settled (due_after t) (moving \<and> 3000 \<le> t)) (position_at (moving \<and> 3000 \<le> t)) = (p1, pos)"
  shows "tick_ok moving st t p1 pos"
proof -
  have pos: "0 < t" using t(1) by (cases t) simp_all
  have quiet: "(of_nat t :: u64) \<noteq> 0" "\<not> (moving \<and> (of_nat t :: u64) = 3000)"
    using unat_time [of t] pos still t(2) by (auto simp: word_unat_eq_iff)
  have "t < 10000 * (t div 10000 + 1)" using dividend_less_times_div [of 10000 t] by simp
  then have "(of_nat t :: u64) < due_after t"
    using unat_time [of t] t(2) unat_due_after [OF t(2)] by (simp add: word_less_nat_alt)
  then show ?thesis
    using up updates_quiet [OF quiet] pos t(1) still
    by (intro tick_ok_dirty [of t _ False False False]) (auto simp: lines_at_def dirty_types_def snapshot_at_def)
qed

lemma tick:
  assumes st: "st = 100 \<or> st = 1000" and t: "t mod st = 0" "t + 20000 < 2 ^ 64"
    and up: "state_updates moving (of_nat t) (fst (publisher_before moving st t)) (snd (publisher_before moving st t)) = (p1, pos)"
  obtains out due where
    "poll3 p1 (of_nat t) = (out, fst (publisher_before moving st (t + st)))"
    "pos = snd (publisher_before moving st (t + st))"
    "list_all (carries_state (settled due (moving \<and> 3000 \<le> t)) (snapshot_at t)) out"
    "map (poll_line (of_nat t)) out = lines_at moving t"
proof -
  have next_state: "publisher_before moving st (t + st) =
      (settled (due_after t) (moving \<and> 3000 \<le> t), position_at (moving \<and> 3000 \<le> t))"
    using st by (auto simp: publisher_before_def)
  consider "t = 0" | "t > 0" "t mod 10000 = 0" | "moving" "t = 3000" | "t > 0" "t mod 10000 \<noteq> 0" "\<not> (moving \<and> t = 3000)"
    by linarith
  then have "tick_ok moving st t p1 pos"
  proof cases
    case 1
    then show ?thesis using up tick_first by (simp add: publisher_before_def)
  next
    case 2
    note ar = tick_arith [OF st t(1) 2(1)]
    have "10000 * ((t - st) div 10000 + 1) = t" using ar(1) [OF 2(2)] 2(2) by auto
    then have "due_after (t - st) = of_nat t" by (simp only: due_after_def)
    moreover have "t \<noteq> 3000" using 2(2) by auto
    ultimately show ?thesis
      using up 2(1) ar(3) by (intro tick_snapshot [OF 2(2,1) t(2)]) (simp add: publisher_before_def)
  next
    case 3
    then show ?thesis using up st tick_move [OF st] by (auto simp: publisher_before_def)
  next
    case 4
    note ar = tick_arith [OF st t(1) 4(1)]
    have "(moving \<and> 3000 \<le> t - st) = (moving \<and> 3000 \<le> t)" using ar(3) 4(3) by auto
    moreover have "due_after (t - st) = due_after t" unfolding due_after_def using ar(2) [OF 4(2)] by simp
    ultimately show ?thesis
      using up 4(1) by (intro tick_quiet [OF 4(2) t(2) 4(3)]) (simp add: publisher_before_def)
  qed
  then show thesis
    using that next_state unfolding tick_ok_def by auto
qed

section \<open>Sending what was polled\<close>

definition network_up :: "'o posix \<Rightarrow> UdpEndpoint \<Rightarrow> bool" where
  "network_up P udp \<longleftrightarrow> UdpEndpoint_valid udp \<and> fst (os_inet_pton P loopback_host) = 1 \<and>
     (\<forall>fd bs a p os. fst (os_sendto P fd bs a p os) = int (length bs))"

text \<open>One \<^verbatim>\<open>sendto\<close> to a port of the loopback host: the system after it.\<close>

definition sent_to :: "'o posix \<Rightarrow> UdpEndpoint \<Rightarrow> u16 \<Rightarrow> byte list \<Rightarrow> 'o \<Rightarrow> 'o" where
  "sent_to P udp port dg os = snd (os_sendto P (udp_fd udp) dg (snd (os_inet_pton P loopback_host)) port os)"

lemma send_sent_to:
  assumes "NativeEndpoint_send P A e h (Some plain) len udp (Some loopback_host) port os = (Inr (), e', os')"
    and "length (ne_buffer e) = kMaxRecordBytes"
  shows "os' = sent_to P udp port (take (kHeaderBytes + len + kTagBytes) (ne_buffer e')) os"
    and "length (ne_buffer e') = kMaxRecordBytes" and "s_keys (ne_session e') = s_keys (ne_session e)"
    and "len \<le> kMaxPayloadBytes"
proof -
  obtain buf n s where seal: "Session_seal A (ne_session e) h (Some plain) len (ne_buffer e) = (Inr (buf, n), s)"
    and sent: "UdpEndpoint_send_to P udp (Some loopback_host) port (Some buf) n os = (True, os')"
    and e': "e' = e\<lparr>ne_session := s, ne_buffer := buf\<rparr>"
    using assms(1) by (cases rule: send_session) auto
  have n: "n = kHeaderBytes + len + kTagBytes"
    using seal by (auto simp: Session_seal_cases [OF assms(2)] split: if_splits option.splits)
  show "os' = sent_to P udp port (take (kHeaderBytes + len + kTagBytes) (ne_buffer e')) os"
    using sent n e' by (auto simp: sent_to_def UdpEndpoint_send_to_def case_prod_beta split: if_splits)
  show "length (ne_buffer e') = kMaxRecordBytes" and "s_keys (ne_session e') = s_keys (ne_session e)"
    and "len \<le> kMaxPayloadBytes"
    using Session_seal_length [OF seal assms(2)] seal e'
    by (auto simp: Session_seal_cases [OF assms(2)] seal_guard_def split: if_splits option.splits)
qed

lemma endpoint_send_ok:
  assumes A: "aead_correct A" and up: "network_up P udp" and keys: "valid_keys (s_keys (ne_session e))"
    and guard: "seal_guard (ne_session e) h (Some payload) len" and len: "len \<le> length payload"
    and buffer: "length (ne_buffer e) = kMaxRecordBytes"
  shows "\<exists>buf os'. NativeEndpoint_send P A e h (Some payload) len udp (Some loopback_host) port os =
    (Inr (), e\<lparr>ne_session := (ne_session e)\<lparr>s_send_high_water := h_sequence h, s_send_initialized := True\<rparr>,
               ne_buffer := buf\<rparr>, os') \<and> length buf = kMaxRecordBytes"
proof -
  let ?img = "header_image (sealed_header h len) (header_crc (sealed_header h len))"
  let ?s = "(ne_session e)\<lparr>s_send_high_water := h_sequence h, s_send_initialized := True\<rparr>"
  obtain c where c: "crypto_aead_encrypt A (take len payload) ?img
      (make_nonce (dk_session (s_keys (ne_session e))) (h_sequence h)) (dk_tx (s_keys (ne_session e))) = Some c"
    "length c = length (take len payload) + 16"
    using encrypt_Some [OF A] by blast
  define buf where "buf = ?img @ c @ drop (kHeaderBytes + length c) (ne_buffer e)"
  have lc: "length c = len + kTagBytes" using c(2) len by (simp add: wire_consts)
  then have sealed: "Session_seal A (ne_session e) h (Some payload) len (ne_buffer e) =
      (Inr (buf, kHeaderBytes + length c), ?s)"
    using c(1) guard keys buffer by (simp add: Session_seal_cases buf_def)
  have small: "kHeaderBytes + length c \<le> kMaxRecordBytes" "kHeaderBytes + length c \<noteq> 0"
    using guard lc by (simp_all add: seal_guard_def wire_consts)
  have size: "length buf = kMaxRecordBytes" using Session_seal_length [OF sealed buffer] .
  obtain os' where sent: "UdpEndpoint_send_to P udp (Some loopback_host) port (Some buf) (kHeaderBytes + length c) os = (True, os')"
  proof -
    obtain n os' where snd: "os_sendto P (udp_fd udp) (take (kHeaderBytes + length c) buf)
        (snd (os_inet_pton P loopback_host)) port os = (n, os')"
      by fastforce
    then have "n = int (kHeaderBytes + length c)"
      using up size small by (metis (no_types, lifting) fst_conv length_take min.absorb2 network_up_def)
    then show thesis
      using that [of os'] snd up small by (simp add: UdpEndpoint_send_to_def network_up_def UdpEndpoint_valid_def)
  qed
  then have "NativeEndpoint_send P A e h (Some payload) len udp (Some loopback_host) port os =
      (Inr (), e\<lparr>ne_session := ?s, ne_buffer := buf\<rparr>, os')"
    by (simp add: NativeEndpoint_send_def sealed)
  with size show ?thesis by blast
qed

definition vehicle_ready :: "DirectionalKeys \<Rightarrow> vehicle \<Rightarrow> bool" where
  "vehicle_ready keys v \<longleftrightarrow> s_keys (ne_session (v_endpoint v)) = keys \<and>
     length (ne_buffer (v_endpoint v)) = kMaxRecordBytes \<and>
     (s_send_initialized (ne_session (v_endpoint v)) \<longrightarrow>
        s_send_high_water (ne_session (v_endpoint v)) < v_sequence v)"

definition vehicle_keys :: "DirectionalKeys \<Rightarrow> bool" where
  "vehicle_keys keys \<longleftrightarrow> valid_keys keys \<and> dk_session keys = app_session \<and> dk_local_id keys = 1 \<and> dk_peer_id keys = 3"

lemma vehicle_send_ok:
  assumes A: "aead_correct A" and up: "network_up P udp" and keys: "vehicle_keys keys"
    and q: "sp_source_id q = 1" "sp_destination_id q = 3"
  shows "vehicle_ready keys v \<Longrightarrow> list_all (carries_state q snapshot) ms \<Longrightarrow>
    unat (v_sequence v) + length ms < 2 ^ 64 - 1 \<Longrightarrow>
    \<exists>v' os'. vehicle_send P A udp port now ms v os = (False, v', os') \<and> vehicle_ready keys v' \<and>
      v_log v' = v_log v @ map (\<lambda>m. Vehicle_publish (poll_line now m)) ms \<and> unat (v_sequence v') = unat (v_sequence v) + length ms \<and>
      v_publisher v' = v_publisher v \<and> v_position v' = v_position v"
proof (induction ms arbitrary: v os)
  case Nil
  then show ?case by simp
next
  case (Cons m ms)
  let ?h = "(m_header (pm_message m))\<lparr>h_session_id := 1, h_epoch := 1, h_sequence := v_sequence v,
    h_payload_len := of_nat (m_length (pm_message m))\<rparr>"
  let ?e = "v_endpoint v"
  have carries: "carries_state q snapshot m" using Cons.prems(2) by simp
  then have len: "m_length (pm_message m) \<le> length (m_payload (pm_message m))"
    "m_length (pm_message m) \<le> kMaxPayloadBytes"
    by (auto simp: carries_state_def carries_header_def Let_def message_consts wire_consts)
  have hdr: "known_type (h_type ?h)" "h_flags ?h \<le> kKnownFlags" "Qos_u8 (h_qos ?h) \<le> Qos_u8 Qos_Explicit"
    "h_source_id ?h = 1" "h_destination_id ?h = 3"
    using carries q by (auto simp: carries_state_def carries_header_def Let_def
      kFlagSnapshot_def kFlagDelta_def kKnownFlags_value)
  have seq: "unat (v_sequence v) < 2 ^ 64 - 1" using Cons.prems(3) by simp
  have "unat (- 1 :: u64) = 2 ^ 64 - 1" by (simp add: unsigned_minus_1_eq_mask mask_eq_exp_minus_1)
  then have not_last: "v_sequence v \<noteq> - 1" using seq by auto
  have next_seq: "unat (v_sequence v + 1) = unat (v_sequence v) + 1" using seq by (simp add: unat_word_ariths)
  have guard: "seal_guard (ne_session ?e) ?h (Some (m_payload (pm_message m))) (m_length (pm_message m))"
    using hdr len(2) not_last keys Cons.prems(1)
    by (simp add: seal_guard_def vehicle_keys_def vehicle_ready_def app_session_def)
  obtain buf os1 where send: "NativeEndpoint_send P A ?e ?h (Some (m_payload (pm_message m)))
      (m_length (pm_message m)) udp (Some loopback_host) port os =
      (Inr (), ?e\<lparr>ne_session := (ne_session ?e)\<lparr>s_send_high_water := v_sequence v, s_send_initialized := True\<rparr>,
        ne_buffer := buf\<rparr>, os1)" and size: "length buf = kMaxRecordBytes"
    using endpoint_send_ok [OF A up _ guard len(1), of port os] Cons.prems(1) keys
    by (auto simp: vehicle_ready_def vehicle_keys_def)
  define v1 where "v1 = v\<lparr>v_sequence := v_sequence v + 1, v_endpoint := ?e\<lparr>ne_session :=
      (ne_session ?e)\<lparr>s_send_high_water := v_sequence v, s_send_initialized := True\<rparr>, ne_buffer := buf\<rparr>,
    v_log := v_log v @ [Vehicle_publish (poll_line now m)]\<rparr>"
  have "v_sequence v < v_sequence v + 1" using next_seq by (simp add: word_less_nat_alt)
  then have "vehicle_ready keys v1"
    using Cons.prems(1) size by (simp add: vehicle_ready_def v1_def)
  moreover have "unat (v_sequence v1) + length ms < 2 ^ 64 - 1"
    using Cons.prems(3) next_seq by (simp add: v1_def)
  ultimately obtain v' os' where "vehicle_send P A udp port now ms v1 os1 = (False, v', os')"
    "vehicle_ready keys v'" "v_log v' = v_log v1 @ map (\<lambda>m. Vehicle_publish (poll_line now m)) ms"
    "unat (v_sequence v') = unat (v_sequence v1) + length ms" "v_publisher v' = v_publisher v1" "v_position v' = v_position v1"
    using Cons.IH [of v1 os1] Cons.prems(2) by auto
  moreover have "vehicle_send P A udp port now (m # ms) v os = vehicle_send P A udp port now ms v1 os1"
    using send by (simp add: v1_def Let_def)
  ultimately show ?case using next_seq by (simp add: v1_def)
qed

lemma lines_at_length: "length (lines_at moving t) \<le> 3"
  by (simp add: lines_at_def)

text \<open>
  What one iteration does to the endpoint, the sequence number and the system: it sends messages
  that carry the state of the publisher at that time, as the schedule says.
\<close>

definition sent_at ::
    "'o posix \<Rightarrow> ascon \<Rightarrow> UdpEndpoint \<Rightarrow> u16 \<Rightarrow> bool \<Rightarrow> nat \<Rightarrow> NativeEndpoint \<times> u64 \<times> 'o \<Rightarrow>
     NativeEndpoint \<times> u64 \<times> 'o \<Rightarrow> bool" where
  "sent_at P A udp port moving t = (\<lambda>(e, q, os) (e', q', os'). \<exists>out due v v'.
     vehicle_send P A udp port (of_nat t) out v os = (False, v', os') \<and> v_endpoint v = e \<and> v_sequence v = q \<and>
     v_endpoint v' = e' \<and> v_sequence v' = q' \<and> length (ne_buffer e) = kMaxRecordBytes \<and>
     list_all (carries_state (settled due (moving \<and> 3000 \<le> t)) (snapshot_at t)) out \<and>
     map (poll_line (of_nat t)) out = lines_at moving t)"

lemma vehicle_iteration_ok:
  assumes A: "aead_correct A" and up: "network_up P udp" and keys: "vehicle_keys keys"
    and ready: "vehicle_ready keys v" and n: "100 * n + 20000 < 2 ^ 64" "unat (v_sequence v) \<le> 3 * n"
    and state: "(v_publisher v, v_position v) = publisher_before (0 < D) 100 (100 * n)"
  shows "\<exists>v' os'. vehicle_iteration P A udp port D (of_nat (100 * n)) v os =
      (if D = 0 then Return 0 else if D \<le> of_nat (100 * n) then Break else Continue, v', os') \<and>
    vehicle_ready keys v' \<and>
    v_log v' = v_log v @ map Vehicle_publish (lines_at (0 < D) (100 * n)) @ (if D = 0 then [Vehicle_snapshot] else []) \<and>
    unat (v_sequence v') \<le> 3 * Suc n \<and>
    sent_at P A udp port (0 < D) (100 * n) (v_endpoint v, v_sequence v, os) (v_endpoint v', v_sequence v', os') \<and>
    (v_publisher v', v_position v') = publisher_before (0 < D) 100 (100 * Suc n)"
proof -
  let ?t = "100 * n"
  let ?now = "of_nat ?t :: u64"
  obtain p1 pos where upd: "state_updates (0 < D) ?now (v_publisher v) (v_position v) = (p1, pos)" by fastforce
  have upd': "state_updates (0 < D) ?now (fst (publisher_before (0 < D) 100 ?t))
      (snd (publisher_before (0 < D) 100 ?t)) = (p1, pos)"
    using upd by (simp add: state [symmetric])
  have mult: "?t mod 100 = 0" by simp
  obtain out due where poll: "poll3 p1 ?now = (out, fst (publisher_before (0 < D) 100 (?t + 100)))"
    and pos: "pos = snd (publisher_before (0 < D) 100 (?t + 100))"
    and out: "list_all (carries_state (settled due (0 < D \<and> 3000 \<le> ?t)) (snapshot_at ?t)) out"
    and lines: "map (poll_line ?now) out = lines_at (0 < D) ?t"
    by (rule tick [OF disjI1 [OF refl] mult n(1) upd'])
  have len: "length out \<le> 3"
    using arg_cong [OF lines, of length] lines_at_length [of "0 < D" ?t] by simp
  let ?v = "v\<lparr>v_publisher := fst (publisher_before (0 < D) 100 (?t + 100)), v_position := pos\<rparr>"
  have "vehicle_ready keys ?v" using ready by (simp add: vehicle_ready_def)
  moreover have "unat (v_sequence ?v) + length out < 2 ^ 64 - 1" using n len by simp
  ultimately obtain v' os' where sent: "vehicle_send P A udp port ?now out ?v os = (False, v', os')"
    and v': "vehicle_ready keys v'" "v_log v' = v_log v @ map Vehicle_publish (lines_at (0 < D) ?t)"
      "unat (v_sequence v') = unat (v_sequence v) + length out"
      "v_publisher v' = fst (publisher_before (0 < D) 100 (?t + 100))" "v_position v' = pos"
    using vehicle_send_ok [OF A up keys settled_addr, of ?v due "0 < D \<and> 3000 \<le> ?t" "snapshot_at ?t" out port ?now os] out
    by (auto simp: lines [symmetric])
  let ?w = "if D = 0 then log_vehicle Vehicle_snapshot v' else v'"
  have "vehicle_iteration P A udp port D ?now v os =
      (if D = 0 then Return 0 else if D \<le> ?now then Break else Continue, ?w, os')"
    unfolding vehicle_iteration_def Let_def upd prod.case poll sent by simp
  moreover have "vehicle_ready keys ?w" using v'(1) by (simp add: vehicle_ready_def)
  moreover have "sent_at P A udp port (0 < D) ?t (v_endpoint v, v_sequence v, os) (v_endpoint ?w, v_sequence ?w, os')"
    unfolding sent_at_def prod.case
    by (intro exI conjI, rule sent) (use ready out lines in \<open>simp_all add: vehicle_ready_def\<close>)
  ultimately show ?thesis
    using v' n(2) len pos by (intro exI conjI) (assumption | simp add: add.commute)+
qed

lemma unat_of_nat_u64: "n + 20000 < 2 ^ 64 \<Longrightarrow> unat (of_nat n :: u64) = n"
  by (simp add: unat_of_nat take_bit_eq_mod)

lemma vehicle_loop_ok:
  assumes A: "aead_correct A" and up: "network_up P udp" and keys: "vehicle_keys keys"
    and D: "unat D + 20100 < 2 ^ 64" and m: "m = (unat D + 99) div 100"
    and inv: "\<And>k c c'. k \<le> m \<Longrightarrow> J k c \<Longrightarrow> sent_at P A udp port (0 < D) (100 * k) c c' \<Longrightarrow> J (Suc k) c'"
  shows "n \<le> m \<Longrightarrow> vehicle_ready keys v \<Longrightarrow> unat (v_sequence v) \<le> 3 * n \<Longrightarrow>
    (v_publisher v, v_position v) = publisher_before (0 < D) 100 (100 * n) \<Longrightarrow>
    J n (v_endpoint v, v_sequence v, os) \<Longrightarrow>
    \<exists>v' os'. vehicle_loop P A udp port D (of_nat (100 * n)) v os = Some (0, v', os') \<and>
      v_log v' = v_log v @ map Vehicle_publish (concat (map (\<lambda>k. lines_at (0 < D) (100 * k)) [n..<Suc m])) @
        [if D = 0 then Vehicle_snapshot else Vehicle_stream D] \<and>
      J (Suc m) (v_endpoint v', v_sequence v', os')"
proof (induction "m - n" arbitrary: n v os)
  case 0
  then have "n = m" by simp
  have "unat D \<le> 100 * m" "100 * m \<le> unat D + 99" unfolding m by linarith+
  moreover from this have bound: "100 * m + 20000 < 2 ^ 64" using D by simp
  ultimately have "D \<le> of_nat (100 * m)"
    using unat_of_nat_u64 [of "100 * m"] by (simp only: word_le_nat_alt)
  with vehicle_iteration_ok [OF A up keys 0(3) bound, of D port os] 0 \<open>n = m\<close>
  obtain v' os' where "vehicle_iteration P A udp port D (of_nat (100 * n)) v os =
      (if D = 0 then Return 0 else Break, v', os')"
    "v_log v' = v_log v @ map Vehicle_publish (lines_at (0 < D) (100 * m)) @ (if D = 0 then [Vehicle_snapshot] else [])"
    and sent: "sent_at P A udp port (0 < D) (100 * m) (v_endpoint v, v_sequence v, os) (v_endpoint v', v_sequence v', os')"
    by auto
  then show ?case
    using inv [OF _ _ sent] 0(6) by (subst vehicle_loop.simps) (simp add: \<open>n = m\<close>)
next
  case (Suc d)
  then have "n < m" by simp
  then have n: "100 * n < unat D" unfolding m by linarith
  then have bound: "100 * n + 20000 < 2 ^ 64" using D by simp
  then have go: "\<not> D \<le> of_nat (100 * n)" "D \<noteq> 0"
    using n unat_of_nat_u64 [of "100 * n"] by (auto simp only: word_le_nat_alt not_le unat_0 not_less_zero)
  with vehicle_iteration_ok [OF A up keys Suc(4) bound Suc(5,6), of port os]
  obtain v1 os1 where it: "vehicle_iteration P A udp port D (of_nat (100 * n)) v os = (Continue, v1, os1)"
    and v1: "vehicle_ready keys v1" "unat (v_sequence v1) \<le> 3 * Suc n"
      "(v_publisher v1, v_position v1) = publisher_before (0 < D) 100 (100 * Suc n)"
      "v_log v1 = v_log v @ map Vehicle_publish (lines_at (0 < D) (100 * n))"
    and sent: "sent_at P A udp port (0 < D) (100 * n) (v_endpoint v, v_sequence v, os) (v_endpoint v1, v_sequence v1, os1)"
    by (auto simp only: go if_False append_Nil2)
  have "d = m - Suc n" "Suc n \<le> m" using Suc(2) \<open>n < m\<close> by simp_all
  from Suc(1) [OF this v1(1-3) inv [OF Suc(3,7) sent]] obtain v' os' where
    run: "vehicle_loop P A udp port D (of_nat (100 * Suc n)) v1 os1 = Some (0, v', os')"
    and log: "v_log v' = v_log v1 @ map Vehicle_publish (concat (map (\<lambda>k. lines_at (0 < D) (100 * k)) [Suc n..<Suc m])) @
      [if D = 0 then Vehicle_snapshot else Vehicle_stream D]"
    and J: "J (Suc m) (v_endpoint v', v_sequence v', os')"
    by blast
  have "of_nat (100 * Suc n) = (of_nat (100 * n) + 100 :: u64)" by simp
  then have "vehicle_loop P A udp port D (of_nat (100 * n)) v os = Some (0, v', os')"
    using run by (subst vehicle_loop.simps) (simp only: it prod.case loop_exit.case)
  moreover have "[n..<Suc m] = n # [Suc n..<Suc m]" using \<open>n < m\<close> by (simp add: upt_conv_Cons)
  ultimately show ?case using log v1(4) J by simp
qed

text \<open>What the demonstration prints beside kind, type and time is fixed by them.\<close>

definition demo_line_of :: "publish_line \<Rightarrow> demo_line" where
  "demo_line_of = (\<lambda>(kind, type, now). (type, kind, if kind = HelpfulSnapshot then kFlagSnapshot else kFlagDelta,
     if type = MT_Battery then kBatteryBytes else if type = MT_Attitude then kAttitudeBytes else kPositionBytes, now))"

lemma demo_line_ok:
  "carries_state q snapshot m \<Longrightarrow> (h_type (m_header (pm_message m)), pm_kind m, h_flags (m_header (pm_message m)),
     m_length (pm_message m), now) = demo_line_of (poll_line now m)"
  by (auto simp: carries_state_def carries_header_def demo_line_of_def Let_def)

lemma demo_loop_ok:
  assumes "m \<le> 1000"
  shows "demo_loop (map (\<lambda>i. of_nat (1000 * i)) [n..<m]) (fst (publisher_before True 1000 (1000 * n)))
      (snd (publisher_before True 1000 (1000 * n))) =
    map demo_line_of (concat (map (\<lambda>k. lines_at True (1000 * k)) [n..<m]))"
proof (induction "m - n" arbitrary: n)
  case 0
  then show ?case by simp
next
  case (Suc d)
  let ?t = "1000 * n"
  let ?s = "publisher_before True 1000"
  have n: "n < m" "d = m - Suc n" using Suc(2) by simp_all
  obtain p1 pos where upd: "state_updates True (of_nat ?t) (fst (?s ?t)) (snd (?s ?t)) = (p1, pos)" by fastforce
  have t: "?t mod 1000 = 0" "?t + 20000 < 2 ^ 64" using n assms by simp_all
  obtain out due where poll: "poll3 p1 (of_nat ?t) = (out, fst (?s (?t + 1000)))"
    and pos: "pos = snd (?s (?t + 1000))"
    and out: "list_all (carries_state (settled due (True \<and> 3000 \<le> ?t)) (snapshot_at ?t)) out"
    and lines: "map (poll_line (of_nat ?t)) out = lines_at True ?t"
    by (rule tick [OF disjI2 [OF refl] t upd])
  have demo: "map (\<lambda>m. (h_type (m_header (pm_message m)), pm_kind m, h_flags (m_header (pm_message m)),
      m_length (pm_message m), of_nat ?t)) out = map demo_line_of (lines_at True ?t)"
    unfolding lines [symmetric] using out by (auto simp: list_all_iff intro: demo_line_ok)
  have "[n..<m] = n # [Suc n..<m]" using n by (simp add: upt_conv_Cons)
  moreover have "demo_loop (of_nat ?t # later) (fst (?s ?t)) (snd (?s ?t)) =
      map demo_line_of (lines_at True ?t) @ demo_loop later (fst (?s (?t + 1000))) (snd (?s (?t + 1000)))" for later
    unfolding demo_loop.simps upd Let_def prod.case poll pos by (simp only: demo)
  moreover have "?t + 1000 = 1000 * Suc n" by simp
  ultimately show ?case using Suc(1) [OF n(2)] by (simp only: list.map concat.simps map_append)
qed

lemma lines_at_20s:
  "concat (map (\<lambda>k. lines_at True (1000 * k)) [0..<21]) =
     [(OnChange, MT_Position, 0), (OnChange, MT_Attitude, 0), (OnChange, MT_Battery, 0),
      (OnChange, MT_Position, 3000),
      (HelpfulSnapshot, MT_Position, 10000), (HelpfulSnapshot, MT_Attitude, 10000), (HelpfulSnapshot, MT_Battery, 10000),
      (HelpfulSnapshot, MT_Position, 20000), (HelpfulSnapshot, MT_Attitude, 20000), (HelpfulSnapshot, MT_Battery, 20000)]"
  by (simp add: lines_at_def upt_rec numeral_eq_Suc [of "num.One"])

text \<open>
  The publisher demonstration prints exactly ten lines: the three states on change at 0 ms, the
  changed position at 3000 ms, and full snapshots at 10000 and 20000 ms. Nothing is repeated in
  between.
\<close>

theorem publisher_demo_prints:
  "publisher_demo =
     [(MT_Position, OnChange, 1, 28, 0), (MT_Attitude, OnChange, 1, 28, 0), (MT_Battery, OnChange, 1, 24, 0),
      (MT_Position, OnChange, 1, 28, 3000),
      (MT_Position, HelpfulSnapshot, 4, 28, 10000), (MT_Attitude, HelpfulSnapshot, 4, 28, 10000),
      (MT_Battery, HelpfulSnapshot, 4, 24, 10000),
      (MT_Position, HelpfulSnapshot, 4, 28, 20000), (MT_Attitude, HelpfulSnapshot, 4, 28, 20000),
      (MT_Battery, HelpfulSnapshot, 4, 24, 20000)]"
  using demo_loop_ok [of 21 0] unfolding lines_at_20s
  by (simp add: publisher_demo_def publisher_before_def demo_line_of_def message_consts kFlagSnapshot_def kFlagDelta_def)

definition vehicle_schedule :: "u64 \<Rightarrow> publish_line list" where
  "vehicle_schedule duration_ms =
     concat (map (\<lambda>k. lines_at (0 < duration_ms) (100 * k)) [0..<Suc ((unat duration_ms + 99) div 100)])"

text \<open>A whole run, with an invariant \<open>J\<close> of what the iterations send.\<close>

lemma vehicle_main_ok:
  assumes "aead_correct A" and "derive_directional_keys A app_psk app_session 1 3 = Some (tx, rx)" and "valid_keys tx"
    and "UdpEndpoint_bind P new_UdpEndpoint listen_port os = (True, udp, os1)" and "network_up P udp"
    and "unat duration_ms + 20100 < 2 ^ 64"
    and "\<And>k c c'. k \<le> (unat duration_ms + 99) div 100 \<Longrightarrow> J k c \<Longrightarrow>
      sent_at P A udp peer_port (0 < duration_ms) (100 * k) c c' \<Longrightarrow> J (Suc k) c'"
    and "J 0 (new_NativeEndpoint (new_Session tx), 0, os1)"
  shows "\<exists>e q os2. vehicle_main P A listen_port peer_port duration_ms os =
    Some (0, Vehicle_ready listen_port peer_port duration_ms # map Vehicle_publish (vehicle_schedule duration_ms) @
      [if duration_ms = 0 then Vehicle_snapshot else Vehicle_stream duration_ms], snd (UdpEndpoint_close P udp os2)) \<and>
    J (Suc ((unat duration_ms + 99) div 100)) (e, q, os2)"
proof -
  have keys: "vehicle_keys tx"
    using assms(3) derive_directional_keys_SomeD [OF assms(2)] by (simp add: vehicle_keys_def)
  have ready: "vehicle_ready tx (new_vehicle tx)"
    by (simp add: vehicle_ready_def new_vehicle_def new_NativeEndpoint_def new_Session_def)
  have first: "(v_publisher (new_vehicle tx), v_position (new_vehicle tx)) = publisher_before (0 < duration_ms) 100 (100 * 0)"
    by (simp add: new_vehicle_def publisher_before_def)
  have start: "J 0 (v_endpoint (new_vehicle tx), v_sequence (new_vehicle tx), os1)"
    using assms(8) by (simp add: new_vehicle_def)
  let ?m = "(unat duration_ms + 99) div 100"
  have "\<exists>v' os'. vehicle_loop P A udp peer_port duration_ms (of_nat (100 * 0)) (new_vehicle tx) os1 = Some (0, v', os') \<and>
    v_log v' = v_log (new_vehicle tx) @
      map Vehicle_publish (concat (map (\<lambda>k. lines_at (0 < duration_ms) (100 * k)) [0..<Suc ?m])) @
      [if duration_ms = 0 then Vehicle_snapshot else Vehicle_stream duration_ms] \<and>
    J (Suc ?m) (v_endpoint v', v_sequence v', os')"
    by (rule vehicle_loop_ok [where J = J, OF assms(1,5) keys assms(6) refl, OF _ _ ready _ first start])
       (rule assms(7), assumption+, simp_all add: new_vehicle_def)
  then obtain v' os' where "vehicle_loop P A udp peer_port duration_ms 0 (new_vehicle tx) os1 = Some (0, v', os')"
    "v_log v' = map Vehicle_publish (vehicle_schedule duration_ms) @
      [if duration_ms = 0 then Vehicle_snapshot else Vehicle_stream duration_ms]"
    "J (Suc ?m) (v_endpoint v', v_sequence v', os')"
    unfolding vehicle_schedule_def by (auto simp: new_vehicle_def)
  then show ?thesis
    by (auto simp: vehicle_main_def assms(2,4))
qed

section \<open>The datagrams of a run\<close>

text \<open>
  A datagram that opens, at any time, at every session with keys \<open>k\<close> that still accepts the sequence
  number \<open>q\<close>, to a record with that number, without a deadline, and as \<open>good\<close> says.
\<close>

definition delivers :: "ascon \<Rightarrow> DirectionalKeys \<Rightarrow> u64 \<Rightarrow> (OpenRecord \<Rightarrow> bool) \<Rightarrow> byte list \<Rightarrow> bool" where
  "delivers A k q good dg \<longleftrightarrow> dg \<noteq> [] \<and> length dg \<le> kMaxRecordBytes \<and>
     (\<forall>s now_ms. s_keys s = k \<and> ReplayWindow_accepted (s_replay s) q \<longrightarrow>
        (\<exists>rcd. Session_open_uncommitted A s (Some dg) (length dg) now_ms = Inr rcd \<and> good rcd \<and>
           h_deadline_ms (or_header rcd) = 0 \<and> h_sequence (or_header rcd) = q))"

text \<open>
  The record behind a line of the schedule: addresses, flags, and the state of the vehicle in figures.
  The position moves at 3000 ms, and then has generation 2 on base 1; snapshots have base 0.
\<close>

definition scheduled_meta :: "bool \<Rightarrow> u32 \<Rightarrow> u32 \<Rightarrow> u32 \<Rightarrow> StateMeta" where
  "scheduled_meta snapshot resource generation base =
     \<lparr>sm_resource_id = resource, sm_generation = generation, sm_base_generation = (if snapshot then 0 else base),
      sm_source_id = 1, sm_snapshot = (if snapshot then 1 else 0), sm_reserved = 0\<rparr>"

definition scheduled_position :: "bool \<Rightarrow> bool \<Rightarrow> Position" where
  "scheduled_position moved snapshot = (if moved
     then \<lparr>p_meta = scheduled_meta snapshot 42 2 1, p_latitude_e7 = 473977410, p_longitude_e7 = 85455900,
           p_altitude_mm = 500000\<rparr>
     else \<lparr>p_meta = scheduled_meta snapshot 42 1 0, p_latitude_e7 = 473977400, p_longitude_e7 = 85455900,
           p_altitude_mm = 500000\<rparr>)"

definition scheduled_attitude :: "bool \<Rightarrow> Attitude" where
  "scheduled_attitude snapshot = \<lparr>a_meta = scheduled_meta snapshot 43 1 0, a_roll_urad = 0, a_pitch_urad = 0, a_yaw_urad = 0\<rparr>"

definition scheduled_battery :: "bool \<Rightarrow> Battery" where
  "scheduled_battery snapshot = \<lparr>b_meta = scheduled_meta snapshot 44 1 0, b_voltage_mv = 16000, b_current_ma = 0,
     b_remaining_permille = 900, b_reserved = 0\<rparr>"

definition scheduled_record :: "bool \<Rightarrow> publish_line \<Rightarrow> OpenRecord \<Rightarrow> bool" where
  "scheduled_record moving = (\<lambda>(kind, type, now) rcd.
     let snapshot = (kind = HelpfulSnapshot); payload = Some (or_payload rcd); len = or_length rcd
     in h_type (or_header rcd) = type \<and> h_qos (or_header rcd) = Qos_StateLatest \<and>
        h_source_id (or_header rcd) = 1 \<and> h_destination_id (or_header rcd) = 3 \<and>
        h_flags (or_header rcd) = (if snapshot then kFlagSnapshot else kFlagDelta) \<and>
        (type = MT_Position \<and> decode_position payload len = Some (scheduled_position (moving \<and> 3000 \<le> now) snapshot) \<or>
         type = MT_Attitude \<and> decode_attitude payload len = Some (scheduled_attitude snapshot) \<or>
         type = MT_Battery \<and> decode_battery payload len = Some (scheduled_battery snapshot)))"

lemma decode_same_prefix:
  assumes "take n b = take n b'" and "n \<le> length b" "n \<le> length b'"
  shows "decode_position (Some b) n = decode_position (Some b') n"
    "decode_attitude (Some b) n = decode_attitude (Some b') n"
    "decode_battery (Some b) n = decode_battery (Some b') n"
  using position.decode_reads_prefix [of n b] position.decode_reads_prefix [of n b']
    attitude.decode_reads_prefix [of n b] attitude.decode_reads_prefix [of n b']
    battery.decode_reads_prefix [of n b] battery.decode_reads_prefix [of n b'] assms
  by simp_all

lemma settled_scheduled:
  "(hs_position (sp_state (settled d moved)))\<lparr>p_meta := stamped snapshot (p_meta (hs_position (sp_state (settled d moved))))\<rparr> =
     scheduled_position moved snapshot"
  "(hs_attitude (sp_state (settled d moved)))\<lparr>a_meta := stamped snapshot (a_meta (hs_attitude (sp_state (settled d moved))))\<rparr> =
     scheduled_attitude snapshot"
  "(hs_battery (sp_state (settled d moved)))\<lparr>b_meta := stamped snapshot (b_meta (hs_battery (sp_state (settled d moved))))\<rparr> =
     scheduled_battery snapshot"
  by (simp_all add: settled_def vehicle_defs stamped_def scheduled_position_def scheduled_attitude_def
      scheduled_battery_def scheduled_meta_def)

lemma carries_state_basics:
  assumes "carries_state q snapshot m"
  shows "0 < m_length (pm_message m)" "m_length (pm_message m) \<le> length (m_payload (pm_message m))"
    and "h_deadline_ms (m_header (pm_message m)) = 0" "h_qos (m_header (pm_message m)) = Qos_StateLatest"
  using assms
  by (auto simp: carries_state_def carries_header_def Let_def message_consts wire_consts default_header_def)

lemma scheduled_record_carried:
  assumes m: "carries_state (settled d (moving \<and> 3000 \<le> now)) snapshot m"
    and h: "h = (m_header (pm_message m))\<lparr>h_session_id := 1, h_epoch := 1, h_sequence := q, h_payload_len := n\<rparr>"
    and rcd: "carried_by rcd h (m_payload (pm_message m)) (m_length (pm_message m))"
    and max: "m_length (pm_message m) \<le> kMaxPayloadBytes"
  shows "scheduled_record moving (poll_line now m) rcd"
proof -
  let ?len = "m_length (pm_message m)"
  have same: "take ?len (or_payload rcd) = take ?len (m_payload (pm_message m))" "?len \<le> length (or_payload rcd)"
    "or_length rcd = ?len" "or_header rcd = sealed_header h ?len"
    using rcd max by (simp_all add: carried_by_def)
  note dec = decode_same_prefix [OF same(1,2) carries_state_basics(2) [OF m]]
  show ?thesis
    using m unfolding carries_state_def Let_def settled_scheduled dec [symmetric]
    by (cases snapshot) (auto simp: scheduled_record_def carries_header_def same(3,4) h Let_def)
qed

lemma vehicle_send_Cons:
  assumes "vehicle_send P A u port now (m # ms) v os = (False, v', os')"
  obtains e1 os1 where "NativeEndpoint_send P A (v_endpoint v) ((m_header (pm_message m))\<lparr>h_session_id := 1, h_epoch := 1,
      h_sequence := v_sequence v, h_payload_len := of_nat (m_length (pm_message m))\<rparr>)
      (Some (m_payload (pm_message m))) (m_length (pm_message m)) u (Some loopback_host) port os = (Inr (), e1, os1)"
    "vehicle_send P A u port now ms (log_vehicle (Vehicle_publish (poll_line now m))
      (v\<lparr>v_sequence := v_sequence v + 1, v_endpoint := e1\<rparr>)) os1 = (False, v', os')"
  using assms by (auto simp: Let_def split: prod.splits sum.splits)

text \<open>What an endpoint sends is delivered: every record that carries it opens at the other end.\<close>

lemma sent_delivers:
  assumes A: "aead_correct A" and keys: "mirrored (s_keys (ne_session e)) k"
    and buffer: "length (ne_buffer e) = kMaxRecordBytes"
    and send: "NativeEndpoint_send P A e h (Some plain) len u (Some loopback_host) port os = (Inr (), e', os')"
    and h: "canonical_qos (h_qos h)" "h_deadline_ms h = 0" and len: "len \<le> length plain"
    and good: "\<And>rcd. carried_by rcd h plain len \<Longrightarrow> good rcd"
  shows "delivers A k (h_sequence h) good (take (kHeaderBytes + len + kTagBytes) (ne_buffer e'))"
proof -
  let ?dg = "take (kHeaderBytes + len + kTagBytes) (ne_buffer e')"
  have "\<exists>rcd. Session_open_uncommitted A s (Some ?dg) (length ?dg) now_ms = Inr rcd \<and> good rcd \<and>
      h_deadline_ms (or_header rcd) = 0 \<and> h_sequence (or_header rcd) = h_sequence h"
    if s: "s_keys s = k" "ReplayWindow_accepted (s_replay s) (h_sequence h)" for s now_ms
  proof -
    have "live h now_ms" using h(2) by (simp add: live_def)
    then obtain rcd where rcd: "Session_open_uncommitted A s (Some ?dg) (length ?dg) now_ms = Inr rcd"
        "carried_by rcd h plain len"
      using sent_datagram_opens [OF A _ buffer send len h(1)] keys s by blast
    with good h(2) show ?thesis by (simp add: carried_by_def)
  qed
  then show ?thesis
    using send_sent_to(2) [OF send buffer] by (auto simp: delivers_def wire_consts)
qed

abbreviation scheduled_datagram :: "ascon \<Rightarrow> DirectionalKeys \<Rightarrow> bool \<Rightarrow> u64 \<Rightarrow> publish_line \<Rightarrow> byte list \<Rightarrow> bool" where
  "scheduled_datagram A k moving q l \<equiv> delivers A k q (scheduled_record moving l)"

lemma vehicle_send_datagrams:
  assumes A: "aead_correct A"
  shows "vehicle_send P A udp port now ms v os = (False, v', os') \<Longrightarrow> length (ne_buffer (v_endpoint v)) = kMaxRecordBytes \<Longrightarrow>
    mirrored (s_keys (ne_session (v_endpoint v))) k \<Longrightarrow>
    list_all (carries_state (settled d (moving \<and> 3000 \<le> now)) snapshot) ms \<Longrightarrow>
    \<exists>dgs. os' = fold (sent_to P udp port) dgs os \<and>
      numbered (scheduled_datagram A k moving) (v_sequence v) (map (poll_line now) ms) dgs \<and>
      v_sequence v' = v_sequence v + of_nat (length dgs) \<and>
      length (ne_buffer (v_endpoint v')) = kMaxRecordBytes \<and> mirrored (s_keys (ne_session (v_endpoint v'))) k"
proof (induction ms arbitrary: v os)
  case Nil
  then show ?case by (intro exI [of _ "[]"]) simp
next
  case (Cons m ms)
  let ?h = "(m_header (pm_message m))\<lparr>h_session_id := 1, h_epoch := 1, h_sequence := v_sequence v,
    h_payload_len := of_nat (m_length (pm_message m))\<rparr>"
  let ?n = "m_length (pm_message m)"
  obtain e1 os1 where send: "NativeEndpoint_send P A (v_endpoint v) ?h (Some (m_payload (pm_message m))) ?n
      udp (Some loopback_host) port os = (Inr (), e1, os1)"
    and rest: "vehicle_send P A udp port now ms (log_vehicle (Vehicle_publish (poll_line now m))
      (v\<lparr>v_sequence := v_sequence v + 1, v_endpoint := e1\<rparr>)) os1 = (False, v', os')"
    by (rule vehicle_send_Cons [OF Cons.prems(1)])
  have carries: "carries_state (settled d (moving \<and> 3000 \<le> now)) snapshot m"
    "list_all (carries_state (settled d (moving \<and> 3000 \<le> now)) snapshot) ms" using Cons.prems(4) by simp_all
  note basics = carries_state_basics [OF carries(1)] and sent = send_sent_to [OF send Cons.prems(2)]
  have h: "canonical_qos (h_qos ?h)" "h_deadline_ms ?h = 0"
    using basics(3,4) by (simp_all add: canonical_qos_def Qos_of_u8_def)
  let ?dg = "take (kHeaderBytes + ?n + kTagBytes) (ne_buffer e1)"
  have first: "scheduled_datagram A k moving (v_sequence v) (poll_line now m) ?dg"
    using sent_delivers [OF A Cons.prems(3,2) send h basics(2) scheduled_record_carried [OF carries(1) refl _ sent(4)]]
    by simp
  have "mirrored (s_keys (ne_session e1)) k" using Cons.prems(3) sent(3) by simp
  then obtain dgs where dgs: "os' = fold (sent_to P udp port) dgs os1"
    "numbered (scheduled_datagram A k moving) (v_sequence v + 1) (map (poll_line now) ms) dgs"
    "v_sequence v' = v_sequence v + 1 + of_nat (length dgs)"
    "length (ne_buffer (v_endpoint v')) = kMaxRecordBytes" "mirrored (s_keys (ne_session (v_endpoint v'))) k"
    using Cons.IH [OF rest] sent(2) carries(2) by auto
  then show ?case
    using first sent(1) by (intro exI [of _ "?dg # dgs"]) simp
qed

lemma vehicle_main_sends:
  assumes A: "aead_correct A" and keys: "derive_directional_keys A app_psk app_session 1 3 = Some (tx, rx)" "valid_keys tx"
    and udp: "UdpEndpoint_bind P new_UdpEndpoint listen_port os = (True, udp, os1)" "network_up P udp"
    and D: "unat duration_ms + 20100 < 2 ^ 64"
  obtains dgs where "vehicle_main P A listen_port peer_port duration_ms os =
      Some (0, Vehicle_ready listen_port peer_port duration_ms # map Vehicle_publish (vehicle_schedule duration_ms) @
        [if duration_ms = 0 then Vehicle_snapshot else Vehicle_stream duration_ms],
        snd (UdpEndpoint_close P udp (fold (sent_to P udp peer_port) dgs os1)))"
    "numbered (scheduled_datagram A rx (0 < duration_ms)) 0 (vehicle_schedule duration_ms) dgs"
proof -
  let ?R = "scheduled_datagram A rx (0 < duration_ms)"
  let ?lines = "\<lambda>n. concat (map (\<lambda>k. lines_at (0 < duration_ms) (100 * k)) [0..<n])"
  let ?J = "\<lambda>n (e :: NativeEndpoint, q :: u64, os'). length (ne_buffer e) = kMaxRecordBytes \<and>
    mirrored (s_keys (ne_session e)) rx \<and>
    (\<exists>dgs. os' = fold (sent_to P udp peer_port) dgs os1 \<and> numbered ?R 0 (?lines n) dgs \<and> q = of_nat (length dgs))"
  let ?m = "(unat duration_ms + 99) div 100"
  have keep: "?J (Suc n) c'" if n: "n \<le> ?m" and J: "?J n c"
    and sent: "sent_at P A udp peer_port (0 < duration_ms) (100 * n) c c'" for n c c'
  proof -
    obtain e q os2 e' q' os3 where c: "c = (e, q, os2)" "c' = (e', q', os3)" by (cases c; cases c') auto
    obtain msgs due v v' where send: "vehicle_send P A udp peer_port (of_nat (100 * n)) msgs v os2 = (False, v', os3)"
      and v: "v_endpoint v = e" "v_sequence v = q" "v_endpoint v' = e'" "v_sequence v' = q'"
      and msgs: "list_all (carries_state (settled due (0 < duration_ms \<and> 3000 \<le> 100 * n)) (snapshot_at (100 * n))) msgs"
        "map (poll_line (of_nat (100 * n))) msgs = lines_at (0 < duration_ms) (100 * n)"
      using sent unfolding sent_at_def c prod.case by blast
    have "100 * n + 20000 < 2 ^ 64" using n D by linarith
    then have time: "(3000 \<le> (of_nat (100 * n) :: u64)) = (3000 \<le> 100 * n)"
      using unat_of_nat_u64 [of "100 * n"] by (simp add: word_le_nat_alt)
    obtain old where old: "os2 = fold (sent_to P udp peer_port) old os1" "numbered ?R 0 (?lines n) old" "q = of_nat (length old)"
      using J by (auto simp: c)
    have ready: "length (ne_buffer (v_endpoint v)) = kMaxRecordBytes" "mirrored (s_keys (ne_session (v_endpoint v))) rx"
      using J v by (simp_all add: c)
    obtain dgs where dgs: "os3 = fold (sent_to P udp peer_port) dgs os2"
      "numbered ?R q (lines_at (0 < duration_ms) (100 * n)) dgs" "q' = q + of_nat (length dgs)"
      "length (ne_buffer e') = kMaxRecordBytes" "mirrored (s_keys (ne_session e')) rx"
      using vehicle_send_datagrams [OF A send ready msgs(1) [folded time]] unfolding v msgs(2) by blast
    have "numbered ?R 0 (?lines (Suc n)) (old @ dgs)"
      using numbered_append [OF old(2), of "lines_at (0 < duration_ms) (100 * n)" dgs] dgs(2) old(3)
        numbered_length [OF old(2)] by simp
    then show ?thesis using dgs old(1,3) by (auto simp: c intro!: exI [of _ "old @ dgs"])
  qed
  have start: "?J 0 (new_NativeEndpoint (new_Session tx), 0, os1)"
    using derive_directional_keys_SomeD [OF keys(1)]
    by (auto simp: new_NativeEndpoint_def new_Session_def mirrored_def intro!: exI [of _ "[]"])
  have "\<exists>e q os2. vehicle_main P A listen_port peer_port duration_ms os =
      Some (0, Vehicle_ready listen_port peer_port duration_ms # map Vehicle_publish (vehicle_schedule duration_ms) @
        [if duration_ms = 0 then Vehicle_snapshot else Vehicle_stream duration_ms], snd (UdpEndpoint_close P udp os2)) \<and>
      ?J (Suc ?m) (e, q, os2)"
    by (rule vehicle_main_ok [where J = ?J, OF A keys udp D]) (rule keep, assumption+, rule start)
  then show thesis using that by (auto simp: vehicle_schedule_def)
qed

text \<open>
  C31: What the vehicle program sends. With a correct cipher, valid derived keys, a bound socket and a
  network that takes every datagram, the vehicle ends with exit code 0 having printed its start line,
  the lines of what it sent and the line of its success. Between binding and closing its socket the
  only calls that reach the system are one \<^verbatim>\<open>sendto\<close> to the peer's port for each line of the
  schedule, in this order: the three states at 0 ms, the changed position at 3000 ms (if it runs at all
  beyond the first tick), a full snapshot at every multiple of 10000 ms up to the first tick of 100 ms
  not before the end of the duration. The datagram of the line number \<open>i\<close> opens under the peer's keys as
  the record with sequence number \<open>i\<close>, from 1 to 3, of the type and with the flag of that line, and its
  payload decodes to the state of the vehicle at that time.
\<close>

theorem vehicle_publishes_on_schedule:
  assumes "aead_correct A" and "derive_directional_keys A app_psk app_session 1 3 = Some (tx, rx)" and "valid_keys tx"
    and "UdpEndpoint_bind P new_UdpEndpoint listen_port os = (True, udp, os1)" and "network_up P udp"
    and "unat duration_ms + 20100 < 2 ^ 64"
  shows "\<exists>dgs. vehicle_main P A listen_port peer_port duration_ms os =
      Some (0, Vehicle_ready listen_port peer_port duration_ms # map Vehicle_publish (vehicle_schedule duration_ms) @
        [if duration_ms = 0 then Vehicle_snapshot else Vehicle_stream duration_ms],
        snd (UdpEndpoint_close P udp (fold (sent_to P udp peer_port) dgs os1))) \<and>
    length dgs = length (vehicle_schedule duration_ms) \<and>
    (\<forall>i < length dgs. delivers A rx (of_nat i)
       (scheduled_record (0 < duration_ms) (vehicle_schedule duration_ms ! i)) (dgs ! i))"
proof -
  obtain dgs where run: "vehicle_main P A listen_port peer_port duration_ms os =
      Some (0, Vehicle_ready listen_port peer_port duration_ms # map Vehicle_publish (vehicle_schedule duration_ms) @
        [if duration_ms = 0 then Vehicle_snapshot else Vehicle_stream duration_ms],
        snd (UdpEndpoint_close P udp (fold (sent_to P udp peer_port) dgs os1)))"
    and sent: "numbered (scheduled_datagram A rx (0 < duration_ms)) 0 (vehicle_schedule duration_ms) dgs"
    by (rule vehicle_main_sends [OF assms])
  from run numbered_length [OF sent] numbered_nth [OF sent] show ?thesis by auto
qed

text \<open>The concrete cipher derives valid keys for the two hops of the applications.\<close>

lemma app_keys:
  assumes "a = 1 \<and> b = 3 \<or> a = 3 \<and> b = 2"
  shows "\<exists>k1 k2. derive_directional_keys xor_ascon app_psk app_session a b = Some (k1, k2) \<and> valid_keys k1 \<and> valid_keys k2"
proof -
  obtain k1 k2 where k: "derive_directional_keys xor_ascon app_psk app_session a b = Some (k1, k2)"
    using derive_directional_keys_Some [OF xor_ascon_prf_ok, of app_session a b app_psk] assms
    by (auto simp: app_session_def)
  then have keys: "dk_tx k1 = the (xor_auth (kdf_input tx_label app_session a b) app_psk)"
    "dk_rx k1 = the (xor_auth (kdf_input rx_label app_session a b) app_psk)"
    using assms by (auto simp: derive_directional_keys_def derive_one_labels xor_ascon_def split: if_splits option.splits)
  have "dk_tx k1 ! 3 = 0x54 XOR 4" "dk_rx k1 ! 3 = 0x52 XOR 4" "length (dk_tx k1) = 16" "length (dk_rx k1) = 16"
    unfolding keys by (simp_all add: xor_auth_def kdf_input_def tx_label_def rx_label_def app_psk_def)
  then have "dk_tx k1 ! 3 \<in> set (dk_tx k1)" "dk_rx k1 ! 3 \<in> set (dk_rx k1)" "dk_tx k1 ! 3 = 80" "dk_rx k1 ! 3 = 86"
    using nth_mem [of 3 "dk_tx k1"] nth_mem [of 3 "dk_rx k1"] by simp_all
  then have "\<exists>x \<in> set (dk_tx k1). x \<noteq> 0" "\<exists>x \<in> set (dk_rx k1). x \<noteq> 0" "dk_tx k1 \<noteq> dk_rx k1"
    by (auto intro: bexI [of _ 80] bexI [of _ 86])
  then have "valid_keys k1"
    using derive_directional_keys_SomeD(1-5) [OF k] assms
    by (auto simp: valid_keys_def app_session_def list_ex_iff)
  moreover have "mirrored k1 k2"
    using derive_directional_keys_SomeD [OF k] by (simp add: mirrored_def)
  ultimately show ?thesis using k mirrored_valid by blast
qed

lemma loopback_network_up: "UdpEndpoint_valid udp \<Longrightarrow> network_up loopback udp"
  by (simp add: network_up_def loopback_def loopback_host_def)

lemma loopback_bind: "UdpEndpoint_bind loopback new_UdpEndpoint port empty_net =
    (True, \<lparr>udp_fd = 1\<rparr>, \<lparr>ln_sockets = [(1, port)], ln_mail = []\<rparr>)"
  by (simp add: UdpEndpoint_bind_def UdpEndpoint_close_def new_UdpEndpoint_def loopback_def empty_net_def)

lemma schedule_20500:
  "vehicle_schedule 20500 =
     [(OnChange, MT_Position, 0), (OnChange, MT_Attitude, 0), (OnChange, MT_Battery, 0),
      (OnChange, MT_Position, 3000),
      (HelpfulSnapshot, MT_Position, 10000), (HelpfulSnapshot, MT_Attitude, 10000), (HelpfulSnapshot, MT_Battery, 10000),
      (HelpfulSnapshot, MT_Position, 20000), (HelpfulSnapshot, MT_Attitude, 20000), (HelpfulSnapshot, MT_Battery, 20000)]"
  by (simp add: vehicle_schedule_def lines_at_def upt_rec)

lemma loopback_sent: "ln_mail (fold (sent_to loopback udp port) dgs n) = ln_mail n @ map (Pair port) dgs"
  by (induction dgs arbitrary: n) (simp_all add: sent_to_def loopback_def)

theorem vehicle_publishes_on_schedule_witness:
  "\<exists>os' k dgs. vehicle_main loopback xor_ascon 0 24660 20500 empty_net =
     Some (0, Vehicle_ready 0 24660 20500 # map Vehicle_publish
       [(OnChange, MT_Position, 0), (OnChange, MT_Attitude, 0), (OnChange, MT_Battery, 0),
        (OnChange, MT_Position, 3000),
        (HelpfulSnapshot, MT_Position, 10000), (HelpfulSnapshot, MT_Attitude, 10000), (HelpfulSnapshot, MT_Battery, 10000),
        (HelpfulSnapshot, MT_Position, 20000), (HelpfulSnapshot, MT_Attitude, 20000), (HelpfulSnapshot, MT_Battery, 20000)] @
       [Vehicle_stream 20500], os') \<and>
     ln_mail os' = map (Pair 24660) dgs \<and> length dgs = 10 \<and>
     delivers xor_ascon k 3 (\<lambda>rcd. decode_position (Some (or_payload rcd)) (or_length rcd) =
       Some (scheduled_position True False)) (dgs ! 3)"
proof -
  obtain tx rx where keys: "derive_directional_keys xor_ascon app_psk app_session 1 3 = Some (tx, rx)" "valid_keys tx"
    using app_keys [of 1 3] by auto
  have "UdpEndpoint_valid \<lparr>udp_fd = 1\<rparr>" by (simp add: UdpEndpoint_valid_def)
  then have up: "network_up loopback \<lparr>udp_fd = 1\<rparr>" by (rule loopback_network_up)
  have D: "unat (20500 :: u64) + 20100 < 2 ^ 64" by simp
  obtain dgs where run: "vehicle_main loopback xor_ascon 0 24660 20500 empty_net =
      Some (0, Vehicle_ready 0 24660 20500 # map Vehicle_publish (vehicle_schedule 20500) @
        [if (20500 :: u64) = 0 then Vehicle_snapshot else Vehicle_stream 20500],
        snd (UdpEndpoint_close loopback \<lparr>udp_fd = 1\<rparr> (fold (sent_to loopback \<lparr>udp_fd = 1\<rparr> 24660) dgs
          \<lparr>ln_sockets = [(1, 0)], ln_mail = []\<rparr>)))"
    and dgs: "length dgs = length (vehicle_schedule 20500)"
    and sent: "\<forall>i < length dgs. delivers xor_ascon rx (of_nat i)
       (scheduled_record (0 < (20500 :: u64)) (vehicle_schedule 20500 ! i)) (dgs ! i)"
    using vehicle_publishes_on_schedule
      [where listen_port = 0 and peer_port = 24660, OF xor_ascon_correct keys loopback_bind up D] by blast
  have len: "length dgs = 10" using dgs by (simp add: schedule_20500)
  have "delivers xor_ascon rx 3 (scheduled_record True (OnChange, MT_Position, 3000)) (dgs ! 3)"
    using sent [rule_format, of 3] len by (simp add: schedule_20500)
  then have "delivers xor_ascon rx 3 (\<lambda>rcd. decode_position (Some (or_payload rcd)) (or_length rcd) =
      Some (scheduled_position True False)) (dgs ! 3)"
    unfolding delivers_def scheduled_record_def Let_def by fastforce
  moreover have "ln_mail (snd (UdpEndpoint_close loopback \<lparr>udp_fd = 1\<rparr> n)) = ln_mail n" for n
    by (simp add: UdpEndpoint_close_def loopback_def)
  then have "ln_mail (snd (UdpEndpoint_close loopback \<lparr>udp_fd = 1\<rparr> (fold (sent_to loopback \<lparr>udp_fd = 1\<rparr> 24660) dgs
      \<lparr>ln_sockets = [(1, 0)], ln_mail = []\<rparr>))) = map (Pair 24660) dgs"
    by (simp add: loopback_sent)
  moreover have "(if (20500 :: u64) = 0 then Vehicle_snapshot else Vehicle_stream 20500) = Vehicle_stream 20500" by simp
  ultimately show ?thesis
    using run len unfolding schedule_20500
    by (intro exI [of _ "snd (UdpEndpoint_close loopback \<lparr>udp_fd = 1\<rparr> (fold (sent_to loopback \<lparr>udp_fd = 1\<rparr> 24660) dgs
        \<lparr>ln_sockets = [(1, 0)], ln_mail = []\<rparr>))"] exI [of _ rx] exI [of _ dgs]) simp
qed

end
