(* ===== verification/Relay_Apps.thy ===== *)
theory Relay_Apps
  imports Vehicle_App Loops
begin

text \<open>
  The programs \<^verbatim>\<open>apps/proxy_service.cpp\<close>, which ends the vehicle's session and re-encrypts every
  record for the ground station, and \<^verbatim>\<open>apps/gcs_endpoint.cpp\<close>, modelled like the vehicle: start,
  loop body, loop, and the printed lines as a log. Readings of \<^verbatim>\<open>steady_clock\<close>, in milliseconds
  since the start, are a parameter \<open>clock\<close>. How long the loops run depends on the clock and on the
  network, so they are \<open>run_loop\<close>s. The last section follows one state from the
  vehicle's publisher to the ground station.
\<close>

section \<open>The proxy service\<close>

datatype proxy_line =
    Ingress_fail RecordError | Schema_reject | Commit_fail RecordError | Egress_fail RecordError
  | Reencrypt MessageType nat u64 | Proxy_ready u16 u16 u64 | Proxy_stream u64

record proxy_service =
  ps_ingress :: NativeEndpoint
  ps_egress :: NativeEndpoint
  ps_egress_sequence :: u64
  ps_received_any :: bool
  ps_log :: "proxy_line list"

abbreviation log_proxy :: "proxy_line \<Rightarrow> proxy_service \<Rightarrow> proxy_service" where
  "log_proxy l s \<equiv> s\<lparr>ps_log := ps_log s @ [l]\<rparr>"

definition new_proxy_service :: "DirectionalKeys \<Rightarrow> DirectionalKeys \<Rightarrow> proxy_service" where
  "new_proxy_service proxy_ingress proxy_egress =
     \<lparr>ps_ingress = new_NativeEndpoint (new_Session proxy_ingress),
      ps_egress = new_NativeEndpoint (new_Session proxy_egress), ps_egress_sequence = 0,
      ps_received_any = False, ps_log = []\<rparr>"

text \<open>The schema check by type: other known types pass unchecked.\<close>

definition schema_ok :: "OpenRecord \<Rightarrow> bool" where
  "schema_ok opened =
     (if h_type (or_header opened) = MT_Position
      then decode_position (Some (or_payload opened)) (or_length opened) \<noteq> None
      else if h_type (or_header opened) = MT_Attitude
      then decode_attitude (Some (or_payload opened)) (or_length opened) \<noteq> None
      else if h_type (or_header opened) = MT_Battery
      then decode_battery (Some (or_payload opened)) (or_length opened) \<noteq> None
      else True)"

definition proxy_iteration ::
    "'o posix \<Rightarrow> ascon \<Rightarrow> UdpEndpoint \<Rightarrow> u16 \<Rightarrow> u64 \<Rightarrow> u64 \<Rightarrow> proxy_service \<Rightarrow> 'o \<Rightarrow>
     loop_exit \<times> proxy_service \<times> 'o" where
  "proxy_iteration P A udp egress_port duration_ms elapsed s os =
     (case NativeEndpoint_receive_uncommitted P A (ps_ingress s) udp (ucast elapsed) os of
        (Inl err, e, os) \<Rightarrow>
          let s = s\<lparr>ps_ingress := e\<rparr>
          in if err = RE_Timeout then
               if duration_ms = 0 then (Return 4, log_proxy (Ingress_fail err) s, os)
               else if elapsed \<ge> duration_ms then (Break, s, os) else (Continue, s, os)
             else (Return 4, log_proxy (Ingress_fail err) s, os)
      | (Inr opened, e, os) \<Rightarrow>
          let s = s\<lparr>ps_ingress := e, ps_received_any := True\<rparr>
          in if \<not> known_type (h_type (or_header opened)) \<or> or_length opened = 0 \<or> \<not> schema_ok opened
             then (Continue, log_proxy Schema_reject s, os)
             else
               case NativeEndpoint_commit e opened of
                 (Inl err, e) \<Rightarrow> (Return 8, log_proxy (Commit_fail err) (s\<lparr>ps_ingress := e\<rparr>), os)
               | (Inr u, e) \<Rightarrow>
                   let out_header = (or_header opened)\<lparr>h_source_id := 3, h_destination_id := 2,
                         h_sequence := ps_egress_sequence s, h_session_id := 1, h_epoch := 1\<rparr>;
                       s = s\<lparr>ps_ingress := e, ps_egress_sequence := ps_egress_sequence s + 1\<rparr>
                   in case NativeEndpoint_send P A (ps_egress s) out_header (Some (or_payload opened))
                             (or_length opened) udp (Some loopback_host) egress_port os of
                        (Inl err, e', os) \<Rightarrow> (Return 5, log_proxy (Egress_fail err) (s\<lparr>ps_egress := e'\<rparr>), os)
                      | (Inr u, e', os) \<Rightarrow>
                          (if duration_ms = 0 \<or> elapsed \<ge> duration_ms then Break else Continue,
                           log_proxy (Reencrypt (h_type out_header) (or_length opened) (h_sequence out_header))
                             (s\<lparr>ps_egress := e'\<rparr>), os))"

definition proxy_body ::
    "'o posix \<Rightarrow> ascon \<Rightarrow> ('o \<Rightarrow> u64 \<times> 'o) \<Rightarrow> UdpEndpoint \<Rightarrow> u16 \<Rightarrow> u64 \<Rightarrow> proxy_service \<times> 'o \<Rightarrow>
     loop_exit \<times> proxy_service \<times> 'o" where
  "proxy_body P A clock udp egress_port duration_ms =
     (\<lambda>(s, os). proxy_iteration P A udp egress_port duration_ms (fst (clock os)) s (snd (clock os)))"

definition proxy_finish :: "u64 \<Rightarrow> proxy_service \<times> 'o \<Rightarrow> int \<times> proxy_service \<times> 'o" where
  "proxy_finish duration_ms = (\<lambda>(s, os).
     if ps_received_any s then (0, log_proxy (Proxy_stream duration_ms) s, os) else (4, s, os))"

definition proxy_loop ::
    "'o posix \<Rightarrow> ascon \<Rightarrow> ('o \<Rightarrow> u64 \<times> 'o) \<Rightarrow> UdpEndpoint \<Rightarrow> u16 \<Rightarrow> u64 \<Rightarrow> proxy_service \<Rightarrow> 'o \<Rightarrow>
     (int \<times> proxy_service \<times> 'o) option" where
  "proxy_loop P A clock udp egress_port duration_ms s os =
     run_loop (proxy_body P A clock udp egress_port duration_ms) (proxy_finish duration_ms) (s, os)"

definition proxy_main ::
    "'o posix \<Rightarrow> ascon \<Rightarrow> ('o \<Rightarrow> u64 \<times> 'o) \<Rightarrow> u16 \<Rightarrow> u16 \<Rightarrow> u64 \<Rightarrow> 'o \<Rightarrow> (int \<times> proxy_line list \<times> 'o) option" where
  "proxy_main P A clock ingress_port egress_port duration_ms os =
     (case (derive_directional_keys A app_psk app_session 1 3, derive_directional_keys A app_psk app_session 3 2) of
        (Some (vehicle_unused, proxy_ingress), Some (proxy_egress, gcs_unused)) \<Rightarrow>
          let (ok, udp, os) = UdpEndpoint_bind P new_UdpEndpoint ingress_port os
          in if \<not> ok then Some (3, [], snd (UdpEndpoint_close P udp os))
             else
               map_option (\<lambda>(code, s, os). (code, Proxy_ready ingress_port egress_port duration_ms # ps_log s,
                   snd (UdpEndpoint_close P udp os)))
                 (proxy_loop P A clock udp egress_port duration_ms
                   (new_proxy_service proxy_ingress proxy_egress) os)
      | _ \<Rightarrow> Some (2, [], os))"

section \<open>The ground station\<close>

datatype gcs_line =
    Gcs_receive_fail RecordError | Gcs_position Position | Gcs_attitude Attitude | Gcs_battery Battery
  | Gcs_schema_reject MessageType | Gcs_commit_fail RecordError
  | Gcs_ready u16 u64 | Gcs_snapshot nat | Gcs_stream nat u64

record ground_station =
  gs_endpoint :: NativeEndpoint
  gs_received_count :: nat
  gs_log :: "gcs_line list"

abbreviation log_gcs :: "gcs_line \<Rightarrow> ground_station \<Rightarrow> ground_station" where
  "log_gcs l s \<equiv> s\<lparr>gs_log := gs_log s @ [l]\<rparr>"

definition new_ground_station :: "DirectionalKeys \<Rightarrow> ground_station" where
  "new_ground_station rx =
     \<lparr>gs_endpoint = new_NativeEndpoint (new_Session rx), gs_received_count = 0, gs_log = []\<rparr>"

definition gcs_state :: "OpenRecord \<Rightarrow> gcs_line option" where
  "gcs_state opened =
     (if h_type (or_header opened) = MT_Position
      then map_option Gcs_position (decode_position (Some (or_payload opened)) (or_length opened))
      else if h_type (or_header opened) = MT_Attitude
      then map_option Gcs_attitude (decode_attitude (Some (or_payload opened)) (or_length opened))
      else if h_type (or_header opened) = MT_Battery
      then map_option Gcs_battery (decode_battery (Some (or_payload opened)) (or_length opened))
      else None)"

definition gcs_iteration ::
    "'o posix \<Rightarrow> ascon \<Rightarrow> UdpEndpoint \<Rightarrow> u64 \<Rightarrow> u64 \<Rightarrow> ground_station \<Rightarrow> 'o \<Rightarrow>
     loop_exit \<times> ground_station \<times> 'o" where
  "gcs_iteration P A udp duration_ms elapsed s os =
     (case NativeEndpoint_receive_uncommitted P A (gs_endpoint s) udp (ucast elapsed) os of
        (Inl err, e, os) \<Rightarrow>
          let s = s\<lparr>gs_endpoint := e\<rparr>
          in if err = RE_Timeout \<and> duration_ms > 0 \<and> elapsed < duration_ms then (Continue, s, os)
             else (Return (if gs_received_count s = 0 then 4 else 0),
                   if err = RE_Timeout \<and> duration_ms = 0 then log_gcs (Gcs_receive_fail err) s else s, os)
      | (Inr opened, e, os) \<Rightarrow>
          let s = s\<lparr>gs_endpoint := e\<rparr>
          in case gcs_state opened of
               None \<Rightarrow> (Continue, log_gcs (Gcs_schema_reject (h_type (or_header opened))) s, os)
             | Some line \<Rightarrow>
                 let s = log_gcs line s
                 in case NativeEndpoint_commit e opened of
                      (Inl err, e) \<Rightarrow> (Return 6, log_gcs (Gcs_commit_fail err) (s\<lparr>gs_endpoint := e\<rparr>), os)
                    | (Inr u, e) \<Rightarrow>
                        let s = s\<lparr>gs_endpoint := e, gs_received_count := gs_received_count s + 1\<rparr>
                        in if duration_ms = 0 then (Return 0, log_gcs (Gcs_snapshot (gs_received_count s)) s, os)
                           else (if elapsed \<ge> duration_ms then Break else Continue, s, os))"

definition gcs_body ::
    "'o posix \<Rightarrow> ascon \<Rightarrow> ('o \<Rightarrow> u64 \<times> 'o) \<Rightarrow> UdpEndpoint \<Rightarrow> u64 \<Rightarrow> ground_station \<times> 'o \<Rightarrow>
     loop_exit \<times> ground_station \<times> 'o" where
  "gcs_body P A clock udp duration_ms =
     (\<lambda>(s, os). gcs_iteration P A udp duration_ms (fst (clock os)) s (snd (clock os)))"

definition gcs_finish :: "u64 \<Rightarrow> ground_station \<times> 'o \<Rightarrow> int \<times> ground_station \<times> 'o" where
  "gcs_finish duration_ms = (\<lambda>(s, os).
     (if gs_received_count s > 0 then 0 else 4, log_gcs (Gcs_stream (gs_received_count s) duration_ms) s, os))"

definition gcs_loop ::
    "'o posix \<Rightarrow> ascon \<Rightarrow> ('o \<Rightarrow> u64 \<times> 'o) \<Rightarrow> UdpEndpoint \<Rightarrow> u64 \<Rightarrow> ground_station \<Rightarrow> 'o \<Rightarrow>
     (int \<times> ground_station \<times> 'o) option" where
  "gcs_loop P A clock udp duration_ms s os =
     run_loop (gcs_body P A clock udp duration_ms) (gcs_finish duration_ms) (s, os)"

definition gcs_main ::
    "'o posix \<Rightarrow> ascon \<Rightarrow> ('o \<Rightarrow> u64 \<times> 'o) \<Rightarrow> u16 \<Rightarrow> u64 \<Rightarrow> 'o \<Rightarrow> (int \<times> gcs_line list \<times> 'o) option" where
  "gcs_main P A clock listen_port duration_ms os =
     (case derive_directional_keys A app_psk app_session 3 2 of
        None \<Rightarrow> Some (2, [], os)
      | Some (unused, rx) \<Rightarrow>
          let (ok, udp, os) = UdpEndpoint_bind P new_UdpEndpoint listen_port os
          in if \<not> ok then Some (3, [], snd (UdpEndpoint_close P udp os))
             else
               map_option (\<lambda>(code, s, os). (code, Gcs_ready listen_port duration_ms # gs_log s,
                   snd (UdpEndpoint_close P udp os)))
                 (gcs_loop P A clock udp duration_ms (new_ground_station rx) os))"

section \<open>One iteration of the proxy service\<close>

definition proxy_ready :: "DirectionalKeys \<Rightarrow> DirectionalKeys \<Rightarrow> proxy_service \<Rightarrow> bool" where
  "proxy_ready kin keg s \<longleftrightarrow> s_keys (ne_session (ps_ingress s)) = kin \<and> s_keys (ne_session (ps_egress s)) = keg \<and>
     length (ne_buffer (ps_ingress s)) = kMaxRecordBytes \<and> length (ne_buffer (ps_egress s)) = kMaxRecordBytes \<and>
     (s_send_initialized (ne_session (ps_egress s)) \<longrightarrow>
        s_send_high_water (ne_session (ps_egress s)) < ps_egress_sequence s)"

definition egress_keys :: "DirectionalKeys \<Rightarrow> bool" where
  "egress_keys k \<longleftrightarrow> valid_keys k \<and> dk_session k = app_session \<and> dk_local_id k = 3 \<and> dk_peer_id k = 2"

definition egress_header :: "proxy_service \<Rightarrow> RecordHeader \<Rightarrow> RecordHeader" where
  "egress_header s h = h\<lparr>h_source_id := 3, h_destination_id := 2, h_sequence := ps_egress_sequence s,
     h_session_id := 1, h_epoch := 1\<rparr>"

definition relayable :: "OpenRecord \<Rightarrow> bool" where
  "relayable opened \<longleftrightarrow> or_length opened \<noteq> 0 \<and> schema_ok opened"

lemma decode_header_canonical: "decode_header (Some b) = Some h \<Longrightarrow> canonical_qos (h_qos h)"
  by (auto simp: decode_header_def Let_def split: if_splits)

lemma opened_known:
  assumes "NativeEndpoint_receive_uncommitted P A e u now_ms os = (Inr opened, e1, os1)"
  shows "known_type (h_type (or_header opened))" "h_flags (or_header opened) \<le> kKnownFlags"
    "Qos_u8 (h_qos (or_header opened)) \<le> Qos_u8 Qos_Explicit" "or_length opened \<le> kMaxPayloadBytes"
    "length (or_payload opened) = kMaxPayloadBytes"
    "ReplayWindow_accepted (s_replay (ne_session e1)) (h_sequence (or_header opened))" "ne_session e1 = ne_session e"
    "canonical_qos (h_qos (or_header opened))"
proof -
  obtain n where o: "Session_open_uncommitted A (ne_session e) (Some (ne_buffer e1)) n now_ms = Inr opened"
    using receive_uncommitted_InrD [OF assms] by blast
  show same: "ne_session e1 = ne_session e"
    using receive_uncommitted_session [of P A e u now_ms os] assms by simp
  show "known_type (h_type (or_header opened))" "h_flags (or_header opened) \<le> kKnownFlags"
    "Qos_u8 (h_qos (or_header opened)) \<le> Qos_u8 Qos_Explicit" "or_length opened \<le> kMaxPayloadBytes"
    "length (or_payload opened) = kMaxPayloadBytes"
    "ReplayWindow_accepted (s_replay (ne_session e1)) (h_sequence (or_header opened))"
    using Session_open_InrD(3,5,6,7) [OF o] same by (simp_all add: open_guard_def)
  show "canonical_qos (h_qos (or_header opened))"
    using decode_header_canonical [OF Session_open_InrD(2) [OF o]] .
qed

lemma less_succ_u64: "q \<noteq> - 1 \<Longrightarrow> q < q + 1" for q :: u64
proof -
  assume "q \<noteq> - 1"
  then have "unat q \<noteq> unat (- 1 :: u64)" by (metis word_unat_eq_iff)
  moreover have "unat q < 2 ^ 64" using unsigned_less [of q] by simp
  ultimately have "unat q < 2 ^ 64 - 1"
    by (simp add: unsigned_minus_1_eq_mask mask_eq_exp_minus_1)
  then show ?thesis by (simp add: word_less_nat_alt unat_word_ariths)
qed

lemma proxy_rejects:
  assumes "NativeEndpoint_receive_uncommitted P A (ps_ingress s) udp (ucast elapsed) os = (Inr opened, e, os1)"
    and "\<not> relayable opened"
  shows "proxy_iteration P A udp port D elapsed s os =
    (Continue, log_proxy Schema_reject (s\<lparr>ps_ingress := e, ps_received_any := True\<rparr>), os1)"
  using assms(2) unfolding proxy_iteration_def assms(1) by (auto simp: relayable_def)

lemma proxy_relays:
  assumes A: "aead_correct A" and up: "network_up P udp" and keys: "egress_keys keg"
    and ready: "proxy_ready kin keg s" and seq: "ps_egress_sequence s \<noteq> - 1"
    and unc: "NativeEndpoint_receive_uncommitted P A (ps_ingress s) udp (ucast elapsed) os = (Inr opened, e, os1)"
    and unc_buffer: "length (ne_buffer e) = kMaxRecordBytes" and good: "relayable opened"
  obtains s' e' os' where "proxy_iteration P A udp port D elapsed s os =
      (if D = 0 \<or> D \<le> elapsed then Break else Continue, s', os')"
    "NativeEndpoint_send P A (ps_egress s) (egress_header s (or_header opened)) (Some (or_payload opened))
       (or_length opened) udp (Some loopback_host) port os1 = (Inr (), e', os')"
    "ps_egress s' = e'" "ps_egress_sequence s' = ps_egress_sequence s + 1"
    "ps_log s' = ps_log s @ [Reencrypt (h_type (or_header opened)) (or_length opened) (ps_egress_sequence s)]"
    "\<not> ReplayWindow_accepted (s_replay (ne_session (ps_ingress s'))) (h_sequence (or_header opened))"
    "proxy_ready kin keg s'" "ps_received_any s'"
    "s_replay (ne_session (ps_ingress s')) =
       snd (ReplayWindow_commit (s_replay (ne_session e)) (h_sequence (or_header opened)))"
proof -
  note known = opened_known [OF unc]
  let ?h = "egress_header s (or_header opened)"
  have guard: "seal_guard (ne_session (ps_egress s)) ?h (Some (or_payload opened)) (or_length opened)"
    using known keys ready seq
    by (simp add: seal_guard_def egress_header_def egress_keys_def proxy_ready_def app_session_def)
  have valid: "valid_keys (s_keys (ne_session (ps_egress s)))" and buf: "length (ne_buffer (ps_egress s)) = kMaxRecordBytes"
    and len: "or_length opened \<le> length (or_payload opened)"
    using keys ready known by (simp_all add: egress_keys_def proxy_ready_def)
  obtain b os' where send: "NativeEndpoint_send P A (ps_egress s) ?h (Some (or_payload opened)) (or_length opened)
      udp (Some loopback_host) port os1 = (Inr (), (ps_egress s)\<lparr>ne_session := (ne_session (ps_egress s))\<lparr>
        s_send_high_water := h_sequence ?h, s_send_initialized := True\<rparr>, ne_buffer := b\<rparr>, os')"
    and size: "length b = kMaxRecordBytes"
    using endpoint_send_ok [OF A up valid guard len buf, of port os1] by blast
  let ?e' = "(ps_egress s)\<lparr>ne_session := (ne_session (ps_egress s))\<lparr>
        s_send_high_water := h_sequence ?h, s_send_initialized := True\<rparr>, ne_buffer := b\<rparr>"
  let ?w = "snd (ReplayWindow_commit (s_replay (ne_session e)) (h_sequence (or_header opened)))"
  let ?e2 = "e\<lparr>ne_session := (ne_session e)\<lparr>s_replay := ?w\<rparr>\<rparr>"
  define s' where "s' = log_proxy (Reencrypt (h_type ?h) (or_length opened) (h_sequence ?h))
    (s\<lparr>ps_ingress := ?e2, ps_received_any := True, ps_egress_sequence := ps_egress_sequence s + 1, ps_egress := ?e'\<rparr>)"
  have commit: "NativeEndpoint_commit e opened = (Inr (), ?e2)"
    using commit_after_open [OF known(6)] .
  have pass: "(\<not> known_type (h_type (or_header opened)) \<or> or_length opened = 0 \<or> \<not> schema_ok opened) = False"
    using known(1) good by (simp add: relayable_def)
  have send': "NativeEndpoint_send P A (ps_egress s) ((or_header opened)\<lparr>h_source_id := 3, h_destination_id := 2,
      h_sequence := ps_egress_sequence s, h_session_id := 1, h_epoch := 1\<rparr>) (Some (or_payload opened))
      (or_length opened) udp (Some loopback_host) port os1 = (Inr (), ?e', os')"
    using send by (simp add: egress_header_def)
  have "proxy_iteration P A udp port D elapsed s os = (if D = 0 \<or> D \<le> elapsed then Break else Continue, s', os')"
    unfolding proxy_iteration_def unc Let_def prod.case sum.case pass if_False commit
    by (simp add: send') (simp add: s'_def egress_header_def)
  moreover have "\<not> ReplayWindow_accepted (s_replay (ne_session (ps_ingress s'))) (h_sequence (or_header opened))"
    using committed_not_accepted [OF known(6)] by (simp add: s'_def)
  moreover have "ps_egress_sequence s < ps_egress_sequence s + 1"
    using seq by (rule less_succ_u64)
  then have "proxy_ready kin keg s'"
    using ready size known(7) unc_buffer by (simp add: s'_def proxy_ready_def egress_header_def)
  ultimately show thesis
    using that [OF _ send] by (simp add: s'_def egress_header_def)
qed

section \<open>Properties of the proxy service\<close>

text \<open>
  The datagram a record is relayed in: it opens at every session with the ground station's keys that
  still accepts the egress sequence number, before the record's deadline, as the same record from 3 to 2.
\<close>

definition relayed :: "ascon \<Rightarrow> DirectionalKeys \<Rightarrow> OpenRecord \<Rightarrow> u64 \<Rightarrow> byte list \<Rightarrow> bool" where
  "relayed A kgcs opened q dg \<longleftrightarrow>
     (\<forall>g now. s_keys g = kgcs \<and> live (or_header opened) now \<and> ReplayWindow_accepted (s_replay g) q \<longrightarrow>
        (\<exists>rcd. Session_open_uncommitted A g (Some dg) (length dg) now = Inr rcd \<and>
           h_type (or_header rcd) = h_type (or_header opened) \<and> h_qos (or_header rcd) = h_qos (or_header opened) \<and>
           h_flags (or_header rcd) = h_flags (or_header opened) \<and>
           h_deadline_ms (or_header rcd) = h_deadline_ms (or_header opened) \<and>
           h_source_id (or_header rcd) = 3 \<and> h_destination_id (or_header rcd) = 2 \<and>
           h_sequence (or_header rcd) = q \<and> or_length rcd = or_length opened \<and>
           take (or_length rcd) (or_payload rcd) = take (or_length opened) (or_payload opened)))"

text \<open>
  C15: The proxy service re-encrypts every record it accepts. For a record that opened under the
  vehicle's keys the loop body either rejects it by schema (empty, or a state whose payload does not
  decode), makes no further system call and leaves its replay window and egress session as they are;
  or it commits the record, so that the ingress never accepts its sequence number again, and makes
  exactly one more system call, a \<^verbatim>\<open>sendto\<close> to the egress port. The bytes it hands over open at the
  ground station's keys, under the egress sequence number, which then increases by one, as a record
  from 3 to 2 with the same type, QoS, flags, deadline, length and payload.
\<close>

theorem proxy_reencrypts:
  assumes A: "aead_correct A" and up: "network_up P udp"
    and keys: "derive_directional_keys A app_psk app_session 3 2 = Some (keg, kgcs)" "valid_keys keg"
    and ready: "proxy_ready kin keg s" and seq: "ps_egress_sequence s \<noteq> - 1"
    and unc: "NativeEndpoint_receive_uncommitted P A (ps_ingress s) udp (ucast elapsed) os = (Inr opened, e, os1)"
    and buf: "length (ne_buffer e) = kMaxRecordBytes"
  shows "\<exists>exit s' os'. proxy_iteration P A udp port D elapsed s os = (exit, s', os') \<and> proxy_ready kin keg s' \<and>
    (if \<not> relayable opened
     then exit = Continue \<and> os' = os1 \<and> ps_egress s' = ps_egress s \<and> ne_session (ps_ingress s') = ne_session (ps_ingress s)
     else exit = (if D = 0 \<or> D \<le> elapsed then Break else Continue) \<and>
       \<not> ReplayWindow_accepted (s_replay (ne_session (ps_ingress s'))) (h_sequence (or_header opened)) \<and>
       ps_egress_sequence s' = ps_egress_sequence s + 1 \<and>
       (\<exists>dg. os' = sent_to P udp port dg os1 \<and> relayed A kgcs opened (ps_egress_sequence s) dg))"
proof (cases "relayable opened")
  case False
  then show ?thesis
    using proxy_rejects [OF unc False, of port D] opened_known(7) [OF unc] ready buf by (simp add: proxy_ready_def)
next
  case True
  have ek: "egress_keys keg"
    using keys(2) derive_directional_keys_SomeD [OF keys(1)] by (simp add: egress_keys_def)
  obtain s' e' os' where it: "proxy_iteration P A udp port D elapsed s os =
      (if D = 0 \<or> D \<le> elapsed then Break else Continue, s', os')"
    and send: "NativeEndpoint_send P A (ps_egress s) (egress_header s (or_header opened)) (Some (or_payload opened))
       (or_length opened) udp (Some loopback_host) port os1 = (Inr (), e', os')"
    and s': "ps_egress s' = e'" "ps_egress_sequence s' = ps_egress_sequence s + 1"
    and "ps_log s' = ps_log s @ [Reencrypt (h_type (or_header opened)) (or_length opened) (ps_egress_sequence s)]"
    and once: "\<not> ReplayWindow_accepted (s_replay (ne_session (ps_ingress s'))) (h_sequence (or_header opened))"
    and ready': "proxy_ready kin keg s'"
    and "ps_received_any s'" and "s_replay (ne_session (ps_ingress s')) =
       snd (ReplayWindow_commit (s_replay (ne_session e)) (h_sequence (or_header opened)))"
    by (rule proxy_relays [OF A up ek ready seq unc buf True])
  let ?h = "egress_header s (or_header opened)"
  let ?dg = "take (kHeaderBytes + or_length opened + kTagBytes) (ne_buffer e')"
  have h: "canonical_qos (h_qos ?h)" "h_sequence ?h = ps_egress_sequence s"
    and len: "or_length opened \<le> length (or_payload opened)"
    using opened_known(4,5,8) [OF unc] by (simp_all add: egress_header_def)
  have buffer: "length (ne_buffer (ps_egress s)) = kMaxRecordBytes" using ready by (simp add: proxy_ready_def)
  have opens: "\<exists>rcd. Session_open_uncommitted A g (Some ?dg) (length ?dg) now = Inr rcd \<and>
      carried_by rcd ?h (or_payload opened) (or_length opened)"
    if "s_keys g = kgcs" "live (or_header opened) now" "ReplayWindow_accepted (s_replay g) (ps_egress_sequence s)" for g now
  proof (rule sent_datagram_opens [OF A _ buffer send len h(1)])
    show "mirrored (s_keys (ne_session (ps_egress s))) (s_keys g)"
      using derive_directional_keys_SomeD [OF keys(1)] ready that(1) by (simp add: mirrored_def proxy_ready_def)
    show "live ?h now" using that(2) by (simp add: live_def egress_header_def)
    show "ReplayWindow_accepted (s_replay g) (h_sequence ?h)" using that(3) h(2) by simp
  qed
  have "relayed A kgcs opened (ps_egress_sequence s) ?dg"
    unfolding relayed_def
  proof (intro allI impI, elim conjE)
    fix g :: Session and now :: u32
    assume "s_keys g = kgcs" "live (or_header opened) now" "ReplayWindow_accepted (s_replay g) (ps_egress_sequence s)"
    from opens [OF this] obtain rcd where rcd: "Session_open_uncommitted A g (Some ?dg) (length ?dg) now = Inr rcd"
      "carried_by rcd ?h (or_payload opened) (or_length opened)" by blast
    show "\<exists>rcd. Session_open_uncommitted A g (Some ?dg) (length ?dg) now = Inr rcd \<and>
           h_type (or_header rcd) = h_type (or_header opened) \<and> h_qos (or_header rcd) = h_qos (or_header opened) \<and>
           h_flags (or_header rcd) = h_flags (or_header opened) \<and>
           h_deadline_ms (or_header rcd) = h_deadline_ms (or_header opened) \<and>
           h_source_id (or_header rcd) = 3 \<and> h_destination_id (or_header rcd) = 2 \<and>
           h_sequence (or_header rcd) = ps_egress_sequence s \<and> or_length rcd = or_length opened \<and>
           take (or_length rcd) (or_payload rcd) = take (or_length opened) (or_payload opened)"
      by (intro exI [of _ rcd] conjI rcd(1)) (use rcd(2) in \<open>simp_all add: carried_by_def egress_header_def\<close>)
  qed
  with True it ready' once s'(2) send_sent_to(1) [OF send buffer] show ?thesis by auto
qed

lemma open_never_times_out: "Session_open_uncommitted A s rcd n now \<noteq> Inl RE_Timeout"
  by (simp add: Session_open_uncommitted_def Let_def split: option.split)

text \<open>
  One datagram that does not open ends the proxy service. Whatever the duration, if a datagram
  arrives that is too short, damaged, forged, expired, or a second copy of a record already
  relayed, the loop returns exit code 4 at once.
\<close>

theorem bad_datagram_stops_proxy:
  assumes "datagram_arrives P udp (snd (clock os)) dg" and "length (ne_buffer (ps_ingress s)) = kMaxRecordBytes"
    and "Session_open_uncommitted A (ne_session (ps_ingress s)) (Some dg) (length dg) (ucast (fst (clock os))) = Inl err"
  shows "\<exists>s' os'. proxy_loop P A clock udp port D s os = Some (4, s', os') \<and>
    ps_log s' = ps_log s @ [Ingress_fail err]"
proof -
  let ?r = "NativeEndpoint_receive_uncommitted P A (ps_ingress s) udp (ucast (fst (clock os))) (snd (clock os))"
  obtain e os1 where unc: "?r = (Inl err, e, os1)"
    using receive_arrived(1) [OF assms(1,2), of A "ucast (fst (clock os))"] assms(3) by (cases ?r) auto
  have "err \<noteq> RE_Timeout" using assms(3) open_never_times_out by metis
  then have "proxy_iteration P A udp port D (fst (clock os)) s (snd (clock os)) =
      (Return 4, log_proxy (Ingress_fail err) (s\<lparr>ps_ingress := e\<rparr>), os1)"
    by (simp add: proxy_iteration_def unc)
  then show ?thesis by (simp add: proxy_loop_def proxy_body_def run_loop.simps [of _ _ "(s, os)"])
qed

theorem bad_datagram_stops_proxy_witness:
  "\<exists>s' os'. proxy_loop loopback xor_ascon (\<lambda>n. (7, n)) \<lparr>udp_fd = 1\<rparr> 24661 20500
      (new_proxy_service example_keys example_peer_keys) \<lparr>ln_sockets = [(1, 9)], ln_mail = [(9, [1, 2, 3])]\<rparr> =
      Some (4, s', os') \<and> ps_log s' = [Ingress_fail RE_InvalidLength]"
proof -
  let ?s = "new_proxy_service example_keys example_peer_keys"
  let ?os = "\<lparr>ln_sockets = [(1, 9)], ln_mail = [(9, [1, 2, 3])]\<rparr>"
  let ?clock = "\<lambda>n :: loop_net. (7 :: u64, n)"
  have arr: "datagram_arrives loopback \<lparr>udp_fd = 1\<rparr> (snd (?clock ?os)) [1, 2, 3]"
    by (simp add: datagram_arrives_def UdpEndpoint_valid_def loopback_def ln_port_def wire_consts)
  have op: "Session_open_uncommitted xor_ascon (ne_session (ps_ingress ?s)) (Some [1, 2, 3]) (length [1 :: byte, 2, 3])
      (ucast (fst (?clock ?os))) = Inl RE_InvalidLength"
    using example_valid(1)
    by (simp add: new_proxy_service_def new_NativeEndpoint_def new_Session_def Session_open_uncommitted_def wire_consts)
  have buf: "length (ne_buffer (ps_ingress ?s)) = kMaxRecordBytes"
    by (simp add: new_proxy_service_def new_NativeEndpoint_def)
  have log: "ps_log ?s = []" by (simp add: new_proxy_service_def)
  from bad_datagram_stops_proxy [where clock = ?clock and os = ?os, OF arr buf op, of 24661 20500]
  show ?thesis unfolding log by simp
qed

section \<open>From the vehicle to the ground station\<close>

definition gcs_ready :: "DirectionalKeys \<Rightarrow> ground_station \<Rightarrow> bool" where
  "gcs_ready k g \<longleftrightarrow> s_keys (ne_session (gs_endpoint g)) = k \<and> length (ne_buffer (gs_endpoint g)) = kMaxRecordBytes"

text \<open>
  The line for a state of the publisher: the stored value of that kind, its metadata marked as a snapshot
  or a delta.
\<close>

definition published_line :: "StatePublisher \<Rightarrow> bool \<Rightarrow> MessageType \<Rightarrow> gcs_line" where
  "published_line p snapshot type = (let s = sp_state p in
     if type = MT_Position then Gcs_position ((hs_position s)\<lparr>p_meta := stamped snapshot (p_meta (hs_position s))\<rparr>)
     else if type = MT_Attitude then Gcs_attitude ((hs_attitude s)\<lparr>a_meta := stamped snapshot (a_meta (hs_attitude s))\<rparr>)
     else Gcs_battery ((hs_battery s)\<lparr>b_meta := stamped snapshot (b_meta (hs_battery s))\<rparr>))"

lemma same_state:
  assumes "h_type (or_header a) = h_type (or_header b)" "or_length a = or_length b"
    "take (or_length b) (or_payload a) = take (or_length b) (or_payload b)"
    "or_length b \<le> length (or_payload a)" "or_length b \<le> length (or_payload b)"
  shows "gcs_state a = gcs_state b" and "schema_ok a = schema_ok b"
  using assms decode_same_prefix [OF assms(3-5)] by (simp_all add: gcs_state_def schema_ok_def)

abbreviation message_record :: "PublishedMessage \<Rightarrow> OpenRecord" where
  "message_record m \<equiv> \<lparr>or_header = m_header (pm_message m), or_payload = m_payload (pm_message m),
     or_length = m_length (pm_message m)\<rparr>"

lemma published_record:
  assumes "carries_state q snapshot m"
  shows "gcs_state (message_record m) = Some (published_line q snapshot (published_type m))"
    and "schema_ok (message_record m)"
  using assms
  by (auto simp: carries_state_def carries_header_def published_line_def gcs_state_def schema_ok_def Let_def)

lemma polled_carries:
  assumes "poll p now False cap = (out, p')" and "0 < cap" and "m \<in> set out"
  shows "carries_state p (snapshot_due p now) m"
  using assms poll_due [OF assms(2), of p now] poll_change [OF assms(2), of p now]
  by (cases "snapshot_due p now") (auto simp: list_all_iff)

lemma gcs_accepts:
  assumes unc: "NativeEndpoint_receive_uncommitted P A (gs_endpoint g) udp (ucast elapsed) os = (Inr opened, e, os1)"
    and line: "gcs_state opened = Some line"
  shows "\<exists>e'. gcs_iteration P A udp D elapsed g os =
    (if D = 0 then Return 0 else if D \<le> elapsed then Break else Continue,
     g\<lparr>gs_endpoint := e', gs_received_count := gs_received_count g + 1,
       gs_log := gs_log g @ line # (if D = 0 then [Gcs_snapshot (gs_received_count g + 1)] else [])\<rparr>, os1) \<and>
     \<not> ReplayWindow_accepted (s_replay (ne_session e')) (h_sequence (or_header opened))"
proof -
  note known = opened_known [OF unc]
  let ?e' = "e\<lparr>ne_session := (ne_session e)\<lparr>s_replay :=
    snd (ReplayWindow_commit (s_replay (ne_session e)) (h_sequence (or_header opened)))\<rparr>\<rparr>"
  have "NativeEndpoint_commit e opened = (Inr (), ?e')"
    using commit_after_open [OF known(6)] .
  then have "gcs_iteration P A udp D elapsed g os =
    (if D = 0 then Return 0 else if D \<le> elapsed then Break else Continue,
     g\<lparr>gs_endpoint := ?e', gs_received_count := gs_received_count g + 1,
       gs_log := gs_log g @ line # (if D = 0 then [Gcs_snapshot (gs_received_count g + 1)] else [])\<rparr>, os1)"
    by (simp add: gcs_iteration_def unc line Let_def)
  moreover have "\<not> ReplayWindow_accepted (s_replay (ne_session ?e')) (h_sequence (or_header opened))"
    using committed_not_accepted [OF known(6)] by simp
  ultimately show ?thesis by blast
qed

lemma vehicle_send_one:
  assumes "vehicle_send P A u port now [m] v os = (False, v', os')"
  shows "NativeEndpoint_send P A (v_endpoint v) ((m_header (pm_message m))\<lparr>h_session_id := 1, h_epoch := 1,
      h_sequence := v_sequence v, h_payload_len := of_nat (m_length (pm_message m))\<rparr>)
      (Some (m_payload (pm_message m))) (m_length (pm_message m)) u (Some loopback_host) port os =
    (Inr (), v_endpoint v', os')"
  using assms by (auto simp: Let_def split: prod.splits sum.splits)

lemma vehicle_to_proxy:
  assumes A: "aead_correct A" and keys: "mirrored (s_keys (ne_session (v_endpoint v))) (s_keys (ne_session e))"
    and buffers: "length (ne_buffer (v_endpoint v)) = kMaxRecordBytes" "length (ne_buffer e) = kMaxRecordBytes"
    and m: "carries_state q snapshot m" and sent: "vehicle_send P A u port now [m] v os = (False, v', os')"
    and fresh: "ReplayWindow_accepted (s_replay (ne_session e)) (v_sequence v)"
    and arrives: "datagram_arrives P w os1
      (take (kHeaderBytes + m_length (pm_message m) + kTagBytes) (ne_buffer (v_endpoint v')))"
  obtains opened b os2 where
    "NativeEndpoint_receive_uncommitted P A e w now_ms os1 = (Inr opened, e\<lparr>ne_buffer := b\<rparr>, os2)"
    "length b = kMaxRecordBytes" "gcs_state opened = Some (published_line q snapshot (published_type m))" "relayable opened"
    "or_length opened = m_length (pm_message m)" "h_deadline_ms (or_header opened) = 0"
proof -
  let ?len = "m_length (pm_message m)" and ?pay = "m_payload (pm_message m)"
  let ?h = "(m_header (pm_message m))\<lparr>h_session_id := 1, h_epoch := 1, h_sequence := v_sequence v,
    h_payload_len := of_nat ?len\<rparr>"
  note pub = published_record [OF m] and basics = carries_state_basics [OF m]
  have h: "canonical_qos (h_qos ?h)" "live ?h now_ms"
    using basics(3,4) by (simp_all add: canonical_qos_def Qos_of_u8_def live_def)
  obtain rcd where open1: "Session_open_uncommitted A (ne_session e)
      (Some (take (kHeaderBytes + ?len + kTagBytes) (ne_buffer (v_endpoint v'))))
      (length (take (kHeaderBytes + ?len + kTagBytes) (ne_buffer (v_endpoint v')))) now_ms = Inr rcd"
    and rcd: "carried_by rcd ?h ?pay ?len"
    using sent_datagram_opens [OF A keys buffers(1) vehicle_send_one [OF sent] basics(2) h] fresh by auto
  obtain os2 b where unc: "NativeEndpoint_receive_uncommitted P A e w now_ms os1 = (Inr rcd, e\<lparr>ne_buffer := b\<rparr>, os2)"
    and b: "length b = kMaxRecordBytes"
    using received_uncommitted [OF arrives buffers(2) open1] by blast
  have facts: "h_type (or_header rcd) = h_type (m_header (pm_message m))" "or_length rcd = ?len"
    "take ?len (or_payload rcd) = take ?len ?pay" "?len \<le> length (or_payload rcd)"
    "h_deadline_ms (or_header rcd) = 0"
    using rcd basics(3) opened_known(4,5) [OF unc] by (simp_all add: carried_by_def)
  have "gcs_state rcd = Some (published_line q snapshot (published_type m))" and "schema_ok rcd"
    using same_state [of rcd "message_record m"] facts pub basics(2) by simp_all
  then show thesis
    using that [OF unc b] facts(2,5) basics(1) by (simp add: relayable_def)
qed

lemma proxy_to_ground:
  assumes A: "aead_correct A" and keys: "mirrored (s_keys (ne_session (ps_egress s))) (s_keys (ne_session (gs_endpoint g)))"
    and buffers: "length (ne_buffer (ps_egress s)) = kMaxRecordBytes" "length (ne_buffer (gs_endpoint g)) = kMaxRecordBytes"
    and unc: "NativeEndpoint_receive_uncommitted P A e w now_ms os = (Inr opened, e1, os1)"
    and opened: "gcs_state opened = Some line" "h_deadline_ms (or_header opened) = 0"
    and send: "NativeEndpoint_send P A (ps_egress s) (egress_header s (or_header opened)) (Some (or_payload opened))
       (or_length opened) u (Some loopback_host) port os1 = (Inr (), e', os2)"
    and fresh: "ReplayWindow_accepted (s_replay (ne_session (gs_endpoint g))) (ps_egress_sequence s)"
    and arrives: "datagram_arrives P ug os3 (take (kHeaderBytes + or_length opened + kTagBytes) (ne_buffer e'))"
  shows "\<exists>y g' os4. gcs_iteration P A ug D elapsed g os3 = (y, g', os4) \<and>
    gs_log g' = gs_log g @ line # (if D = 0 then [Gcs_snapshot (gs_received_count g + 1)] else []) \<and>
    gs_received_count g' = gs_received_count g + 1"
proof -
  let ?h = "egress_header s (or_header opened)"
  have h: "canonical_qos (h_qos ?h)" "live ?h (ucast elapsed)"
      "ReplayWindow_accepted (s_replay (ne_session (gs_endpoint g))) (h_sequence ?h)"
    and len: "or_length opened \<le> length (or_payload opened)"
    using opened_known(4,5,8) [OF unc] opened(2) fresh by (simp_all add: egress_header_def live_def)
  obtain rcd where open2: "Session_open_uncommitted A (ne_session (gs_endpoint g))
      (Some (take (kHeaderBytes + or_length opened + kTagBytes) (ne_buffer e')))
      (length (take (kHeaderBytes + or_length opened + kTagBytes) (ne_buffer e'))) (ucast elapsed) = Inr rcd"
    and rcd: "carried_by rcd ?h (or_payload opened) (or_length opened)"
    using sent_datagram_opens [OF A keys buffers(1) send len h] by blast
  obtain osg c where unc2: "NativeEndpoint_receive_uncommitted P A (gs_endpoint g) ug (ucast elapsed) os3 =
      (Inr rcd, (gs_endpoint g)\<lparr>ne_buffer := c\<rparr>, osg)"
    using received_uncommitted [OF arrives buffers(2) open2] by blast
  have "gcs_state rcd = gcs_state opened"
    using same_state(1) [of rcd opened] rcd len opened_known(4,5) [OF unc2]
    by (simp add: carried_by_def egress_header_def)
  then have "gcs_state rcd = Some line" using opened(1) by simp
  from gcs_accepts [OF unc2 this, of D] show ?thesis by fastforce
qed

lemma datagram_size:
  "length b = kMaxRecordBytes \<Longrightarrow> take (kHeaderBytes + n + kTagBytes) b \<noteq> [] \<and>
     length (take (kHeaderBytes + n + kTagBytes) b) \<le> kMaxRecordBytes" for b :: "byte list"
  by (auto simp: wire_consts)

text \<open>
  C7: A state the vehicle publishes reaches the ground station unchanged. If the vehicle sends a
  message its publisher has polled, it hands exactly one datagram to \<^verbatim>\<open>sendto\<close>. If that arrives at a
  proxy service that still accepts its sequence number, the proxy goes on without an error, and after
  receiving it makes one system call, a \<^verbatim>\<open>sendto\<close> of one datagram to its egress port. If that arrives
  at a ground station that still accepts the egress sequence number, the ground station counts the
  record and prints exactly the value the publisher holds for the kind of the message (in snapshot mode
  followed by the line that ends its run). Each hop has its own keys, derived for the pairs 1 and 3, and
  3 and 2.
\<close>

theorem vehicle_state_reaches_ground:
  assumes A: "aead_correct A" and up: "network_up P up"
    and hop1: "derive_directional_keys A app_psk app_session 1 3 = Some (kv, kin)"
    and hop2: "derive_directional_keys A app_psk app_session 3 2 = Some (keg, kg)" "valid_keys keg"
    and polled: "poll p t False cap = (out, p')" "0 < cap" "m \<in> set out"
    and vehicle: "vehicle_ready kv v" "vehicle_send P A uv peer_port now [m] v os = (False, v', os')"
    and proxy: "proxy_ready kin keg s" "ps_egress_sequence s \<noteq> - 1"
      "ReplayWindow_accepted (s_replay (ne_session (ps_ingress s))) (v_sequence v)"
    and ground: "gcs_ready kg g" "ReplayWindow_accepted (s_replay (ne_session (gs_endpoint g))) (ps_egress_sequence s)"
  shows "\<exists>dg. os' = sent_to P uv peer_port dg os \<and> dg \<noteq> [] \<and> length dg \<le> kMaxRecordBytes \<and>
    (\<forall>os1 egress_port D elapsed. datagram_arrives P up os1 dg \<longrightarrow>
      (\<exists>exit s' os2 dg'. proxy_iteration P A up egress_port D elapsed s os1 = (exit, s', os2) \<and>
        exit = (if D = 0 \<or> D \<le> elapsed then Break else Continue) \<and> proxy_ready kin keg s' \<and>
        os2 = sent_to P up egress_port dg'
          (snd (snd (NativeEndpoint_receive_uncommitted P A (ps_ingress s) up (ucast elapsed) os1))) \<and>
        dg' \<noteq> [] \<and> length dg' \<le> kMaxRecordBytes \<and>
        (\<forall>ug os3 D' elapsed'. datagram_arrives P ug os3 dg' \<longrightarrow>
          (\<exists>y g' os4. gcs_iteration P A ug D' elapsed' g os3 = (y, g', os4) \<and>
            gs_log g' = gs_log g @ published_line p (snapshot_due p t) (published_type m) #
              (if D' = 0 then [Gcs_snapshot (gs_received_count g + 1)] else []) \<and>
            gs_received_count g' = gs_received_count g + 1))))"
proof -
  let ?line = "published_line p (snapshot_due p t) (published_type m)"
  let ?n = "kHeaderBytes + m_length (pm_message m) + kTagBytes"
  have carries: "carries_state p (snapshot_due p t) m" by (rule polled_carries [OF polled])
  have buffers: "length (ne_buffer (v_endpoint v)) = kMaxRecordBytes" "length (ne_buffer (ps_ingress s)) = kMaxRecordBytes"
    "length (ne_buffer (ps_egress s)) = kMaxRecordBytes" "length (ne_buffer (gs_endpoint g)) = kMaxRecordBytes"
    using vehicle(1) proxy(1) ground(1) by (simp_all add: vehicle_ready_def proxy_ready_def gcs_ready_def)
  have mirror1: "mirrored (s_keys (ne_session (v_endpoint v))) (s_keys (ne_session (ps_ingress s)))"
    using derive_directional_keys_SomeD [OF hop1] vehicle(1) proxy(1)
    by (simp add: mirrored_def vehicle_ready_def proxy_ready_def)
  have mirror2: "mirrored (s_keys (ne_session (ps_egress s))) (s_keys (ne_session (gs_endpoint g)))"
    using derive_directional_keys_SomeD [OF hop2(1)] proxy(1) ground(1)
    by (simp add: mirrored_def proxy_ready_def gcs_ready_def)
  have ek: "egress_keys keg"
    using hop2(2) derive_directional_keys_SomeD [OF hop2(1)] by (simp add: egress_keys_def)
  let ?dg = "take ?n (ne_buffer (v_endpoint v'))"
  have hop: "\<exists>exit s' os2 dg'. proxy_iteration P A up egress_port D elapsed s os1 = (exit, s', os2) \<and>
      exit = (if D = 0 \<or> D \<le> elapsed then Break else Continue) \<and> proxy_ready kin keg s' \<and>
      os2 = sent_to P up egress_port dg'
        (snd (snd (NativeEndpoint_receive_uncommitted P A (ps_ingress s) up (ucast elapsed) os1))) \<and>
      dg' \<noteq> [] \<and> length dg' \<le> kMaxRecordBytes \<and>
      (\<forall>ug os3 D' elapsed'. datagram_arrives P ug os3 dg' \<longrightarrow>
        (\<exists>y g' os4. gcs_iteration P A ug D' elapsed' g os3 = (y, g', os4) \<and>
          gs_log g' = gs_log g @ ?line # (if D' = 0 then [Gcs_snapshot (gs_received_count g + 1)] else []) \<and>
          gs_received_count g' = gs_received_count g + 1))"
    if arrives: "datagram_arrives P up os1 ?dg" for os1 egress_port D elapsed
  proof -
    obtain opened b osr where unc: "NativeEndpoint_receive_uncommitted P A (ps_ingress s) up (ucast elapsed) os1 =
        (Inr opened, (ps_ingress s)\<lparr>ne_buffer := b\<rparr>, osr)" and b: "length b = kMaxRecordBytes"
      and opened: "gcs_state opened = Some ?line" "relayable opened"
        "or_length opened = m_length (pm_message m)" "h_deadline_ms (or_header opened) = 0"
      by (rule vehicle_to_proxy [OF A mirror1 buffers(1,2) carries vehicle(2) proxy(3) arrives])
    obtain s' e' os2 where it: "proxy_iteration P A up egress_port D elapsed s os1 =
        (if D = 0 \<or> D \<le> elapsed then Break else Continue, s', os2)"
      and send2: "NativeEndpoint_send P A (ps_egress s) (egress_header s (or_header opened)) (Some (or_payload opened))
         (or_length opened) up (Some loopback_host) egress_port osr = (Inr (), e', os2)"
      and s': "ps_egress s' = e'" "ps_egress_sequence s' = ps_egress_sequence s + 1"
        "ps_log s' = ps_log s @ [Reencrypt (h_type (or_header opened)) (or_length opened) (ps_egress_sequence s)]"
        "\<not> ReplayWindow_accepted (s_replay (ne_session (ps_ingress s'))) (h_sequence (or_header opened))"
        "proxy_ready kin keg s'"
      and "ps_received_any s'" and "s_replay (ne_session (ps_ingress s')) =
         snd (ReplayWindow_commit (s_replay (ne_session ((ps_ingress s)\<lparr>ne_buffer := b\<rparr>))) (h_sequence (or_header opened)))"
      by (rule proxy_relays [OF A up ek proxy(1,2) unc _ opened(2)]) (simp add: b)
    let ?dg' = "take (kHeaderBytes + or_length opened + kTagBytes) (ne_buffer e')"
    have "\<exists>y g' os4. gcs_iteration P A ug D' elapsed' g os3 = (y, g', os4) \<and>
        gs_log g' = gs_log g @ ?line # (if D' = 0 then [Gcs_snapshot (gs_received_count g + 1)] else []) \<and>
        gs_received_count g' = gs_received_count g + 1"
      if "datagram_arrives P ug os3 ?dg'" for ug os3 D' elapsed'
      by (rule proxy_to_ground [OF A mirror2 buffers(3,4) unc opened(1,4) send2 ground(2) that])
    moreover have "os2 = sent_to P up egress_port ?dg'
        (snd (snd (NativeEndpoint_receive_uncommitted P A (ps_ingress s) up (ucast elapsed) os1)))"
      using send_sent_to(1) [OF send2 buffers(3)] by (simp add: unc)
    ultimately show ?thesis using it s'(5) datagram_size [OF send_sent_to(2) [OF send2 buffers(3)]] by blast
  qed
  have "os' = sent_to P uv peer_port ?dg os"
    by (rule send_sent_to(1) [OF vehicle_send_one [OF vehicle(2)] buffers(1)])
  then show ?thesis
    using hop datagram_size [OF send_sent_to(2) [OF vehicle_send_one [OF vehicle(2)] buffers(1)]] by blast
qed

section \<open>A concrete run\<close>

lemma loopback_arrives:
  assumes "dg \<noteq> []" and "length dg \<le> kMaxRecordBytes"
  shows "datagram_arrives loopback \<lparr>udp_fd = 1\<rparr> \<lparr>ln_sockets = [(1, p)], ln_mail = [(p, dg)]\<rparr> dg"
  using assms by (auto simp: datagram_arrives_def UdpEndpoint_valid_def loopback_def ln_port_def)

lemma loopback_receive_takes:
  assumes "length (ne_buffer e) = kMaxRecordBytes"
  shows "snd (snd (NativeEndpoint_receive_uncommitted loopback A e \<lparr>udp_fd = 1\<rparr> now_ms
    \<lparr>ln_sockets = [(1, p)], ln_mail = [(p, dg)]\<rparr>)) = \<lparr>ln_sockets = [(1, p)], ln_mail = []\<rparr>"
  using assms
  by (auto simp: NativeEndpoint_receive_uncommitted_def UdpEndpoint_receive_def loopback_def ln_port_def Let_def
      split: sum.splits prod.splits)

text \<open>The position of the vehicle at the start, polled on its own.\<close>

abbreviation first_publisher :: StatePublisher where
  "first_publisher \<equiv> with_dirty True False False (settled 10000 False)"

lemma first_position:
  "\<exists>m. poll3 first_publisher 0 = ([m], settled 10000 False) \<and> carries_state (settled 10000 False) False m \<and>
     published_type m = MT_Position"
  using poll_settled_dirty [of 0 10000 True False False False] by (auto simp: dirty_types_def)

lemma first_line:
  "published_line first_publisher (snapshot_due first_publisher 0) MT_Position = Gcs_position (scheduled_position False False)"
proof -
  have "\<not> snapshot_due first_publisher 0" by (simp add: snapshot_due_def with_dirty_def settled_def)
  then show ?thesis using settled_scheduled(1) [where d = 10000 and moved = False and snapshot = False] by (simp add: published_line_def with_dirty_def)
qed

lemma app_network_up: "network_up loopback \<lparr>udp_fd = 1\<rparr>"
  by (rule loopback_network_up) (simp add: UdpEndpoint_valid_def)

lemma fresh_accepts: "ReplayWindow_accepted (s_replay (new_Session k)) q"
  by (simp add: new_Session_def fresh_window_def ReplayWindow_accepted_def)

lemma fresh_ready:
  "vehicle_ready k (new_vehicle k)" "proxy_ready k k' (new_proxy_service k k')" "gcs_ready k (new_ground_station k)"
  by (simp_all add: vehicle_ready_def new_vehicle_def proxy_ready_def new_proxy_service_def gcs_ready_def
    new_ground_station_def new_NativeEndpoint_def new_Session_def)

lemma first_datagram:
  assumes "derive_directional_keys xor_ascon app_psk app_session 1 3 = Some (kv, kin)" and "valid_keys kv"
  obtains m v' os' where "poll3 first_publisher 0 = ([m], settled 10000 False)" "published_type m = MT_Position"
    "carries_state (settled 10000 False) False m"
    "vehicle_send loopback xor_ascon \<lparr>udp_fd = 1\<rparr> 24660 0 [m] (new_vehicle kv) empty_net = (False, v', os')"
    "length (ne_buffer (v_endpoint v')) = kMaxRecordBytes"
proof -
  obtain m where m: "poll3 first_publisher 0 = ([m], settled 10000 False)" "published_type m = MT_Position"
    "carries_state (settled 10000 False) False m"
    using first_position by blast
  have keys: "vehicle_keys kv"
    using assms(2) derive_directional_keys_SomeD [OF assms(1)] by (simp add: vehicle_keys_def)
  have addr: "sp_source_id (settled 10000 False) = 1" "sp_destination_id (settled 10000 False) = 3"
    by (simp_all add: settled_def)
  have "v_sequence (new_vehicle kv) = 0" by (simp add: new_vehicle_def)
  then obtain v' os' where "vehicle_send loopback xor_ascon \<lparr>udp_fd = 1\<rparr> 24660 0 [m] (new_vehicle kv) empty_net = (False, v', os')"
    "vehicle_ready kv v'"
    using vehicle_send_ok [OF xor_ascon_correct app_network_up keys addr fresh_ready(1), of False "[m]" 24660 0 empty_net] m(3)
    by auto
  then show thesis using that m by (simp add: vehicle_ready_def)
qed

theorem vehicle_state_reaches_ground_witness:
  "\<exists>kv kin keg kg m v' os' exit s' os2 y g' os4.
     poll3 first_publisher 0 = ([m], settled 10000 False) \<and>
     vehicle_send loopback xor_ascon \<lparr>udp_fd = 1\<rparr> 24660 0 [m] (new_vehicle kv) empty_net = (False, v', os') \<and>
     proxy_iteration loopback xor_ascon \<lparr>udp_fd = 1\<rparr> 24661 0 5 (new_proxy_service kin keg)
       (os'\<lparr>ln_sockets := [(1, 24660)]\<rparr>) = (exit, s', os2) \<and>
     gcs_iteration loopback xor_ascon \<lparr>udp_fd = 1\<rparr> 0 9 (new_ground_station kg)
       (os2\<lparr>ln_sockets := [(1, 24661)]\<rparr>) = (y, g', os4) \<and>
     gs_log g' = [Gcs_position (scheduled_position False False), Gcs_snapshot 1]"
proof -
  obtain kv kin where hop1: "derive_directional_keys xor_ascon app_psk app_session 1 3 = Some (kv, kin)" "valid_keys kv"
    using app_keys [of 1 3] by auto
  obtain keg kg where hop2: "derive_directional_keys xor_ascon app_psk app_session 3 2 = Some (keg, kg)" "valid_keys keg"
    using app_keys [of 3 2] by auto
  obtain m v' os' where poll: "poll3 first_publisher 0 = ([m], settled 10000 False)" "published_type m = MT_Position"
    and "carries_state (settled 10000 False) False m"
    and send: "vehicle_send loopback xor_ascon \<lparr>udp_fd = 1\<rparr> 24660 0 [m] (new_vehicle kv) empty_net = (False, v', os')"
    and "length (ne_buffer (v_endpoint v')) = kMaxRecordBytes"
    by (rule first_datagram [OF hop1])
  let ?s = "new_proxy_service kin keg" and ?g = "new_ground_station kg" and ?u = "\<lparr>udp_fd = 1\<rparr>"
  have seqs: "ps_egress_sequence ?s \<noteq> - 1" by (simp add: new_proxy_service_def)
  have acc: "ReplayWindow_accepted (s_replay (ne_session (ps_ingress ?s))) (v_sequence (new_vehicle kv))"
    "ReplayWindow_accepted (s_replay (ne_session (gs_endpoint ?g))) (ps_egress_sequence ?s)"
    using fresh_accepts by (simp_all add: new_proxy_service_def new_ground_station_def new_NativeEndpoint_def)
  have cap: "0 < kMaxHelpfulSnapshotMessages" "m \<in> set [m]" by (simp_all add: kMaxHelpfulSnapshotMessages_def)
  let ?line = "published_line first_publisher (snapshot_due first_publisher 0) (published_type m)"
  obtain dg where dg: "os' = sent_to loopback ?u 24660 dg empty_net" "dg \<noteq> []" "length dg \<le> kMaxRecordBytes"
    and proxy: "\<forall>os1 egress_port D elapsed. datagram_arrives loopback ?u os1 dg \<longrightarrow>
      (\<exists>exit s' os2 dg'. proxy_iteration loopback xor_ascon ?u egress_port D elapsed ?s os1 = (exit, s', os2) \<and>
        exit = (if D = 0 \<or> D \<le> elapsed then Break else Continue) \<and> proxy_ready kin keg s' \<and>
        os2 = sent_to loopback ?u egress_port dg'
          (snd (snd (NativeEndpoint_receive_uncommitted loopback xor_ascon (ps_ingress ?s) ?u (ucast elapsed) os1))) \<and>
        dg' \<noteq> [] \<and> length dg' \<le> kMaxRecordBytes \<and>
        (\<forall>ug os3 D' elapsed'. datagram_arrives loopback ug os3 dg' \<longrightarrow>
          (\<exists>y g' os4. gcs_iteration loopback xor_ascon ug D' elapsed' ?g os3 = (y, g', os4) \<and>
            gs_log g' = gs_log ?g @ ?line # (if D' = 0 then [Gcs_snapshot (gs_received_count ?g + 1)] else []) \<and>
            gs_received_count g' = gs_received_count ?g + 1)))"
    using vehicle_state_reaches_ground [OF xor_ascon_correct app_network_up hop1(1) hop2 poll(1) cap fresh_ready(1) send
      fresh_ready(2) seqs acc(1) fresh_ready(3) acc(2)] by blast
  have os': "os'\<lparr>ln_sockets := [(1, 24660)]\<rparr> = \<lparr>ln_sockets = [(1, 24660)], ln_mail = [(24660, dg)]\<rparr>"
    by (simp add: dg(1) sent_to_def loopback_def empty_net_def)
  have size: "length (ne_buffer (ps_ingress ?s)) = kMaxRecordBytes"
    by (simp add: new_proxy_service_def new_NativeEndpoint_def)
  obtain exit s' os2 dg' where it: "proxy_iteration loopback xor_ascon ?u 24661 0 5 ?s (os'\<lparr>ln_sockets := [(1, 24660)]\<rparr>) = (exit, s', os2)"
    and os2: "os2 = sent_to loopback ?u 24661 dg' \<lparr>ln_sockets = [(1, 24660)], ln_mail = []\<rparr>"
    and dg': "dg' \<noteq> []" "length dg' \<le> kMaxRecordBytes"
    and gcs: "\<forall>ug os3 D' elapsed'. datagram_arrives loopback ug os3 dg' \<longrightarrow>
      (\<exists>y g' os4. gcs_iteration loopback xor_ascon ug D' elapsed' ?g os3 = (y, g', os4) \<and>
        gs_log g' = gs_log ?g @ ?line # (if D' = 0 then [Gcs_snapshot (gs_received_count ?g + 1)] else []) \<and>
        gs_received_count g' = gs_received_count ?g + 1)"
    using proxy [rule_format, OF loopback_arrives [OF dg(2,3), of 24660], of 24661 0 5]
    unfolding os' loopback_receive_takes [OF size] by blast
  have "os2\<lparr>ln_sockets := [(1, 24661)]\<rparr> = \<lparr>ln_sockets = [(1, 24661)], ln_mail = [(24661, dg')]\<rparr>"
    by (simp add: os2 sent_to_def loopback_def)
  then obtain y g' os4 where "gcs_iteration loopback xor_ascon ?u 0 9 ?g (os2\<lparr>ln_sockets := [(1, 24661)]\<rparr>) = (y, g', os4)"
    "gs_log g' = gs_log ?g @ ?line # (if (0 :: u64) = 0 then [Gcs_snapshot (gs_received_count ?g + 1)] else [])"
    using gcs [rule_format, OF loopback_arrives [OF dg', of 24661], of 0 9] by metis
  moreover have "gs_log ?g = []" "gs_received_count ?g = 0" by (simp_all add: new_ground_station_def)
  then have "gs_log ?g @ ?line # (if (0 :: u64) = 0 then [Gcs_snapshot (gs_received_count ?g + 1)] else []) =
      [Gcs_position (scheduled_position False False), Gcs_snapshot 1]"
    using poll(2) first_line by simp
  ultimately show ?thesis using poll(1) send it by metis
qed

theorem proxy_reencrypts_witness:
  "\<exists>kv kin keg kg m v' os' dg opened exit s' os2 dg'.
     vehicle_send loopback xor_ascon \<lparr>udp_fd = 1\<rparr> 24660 0 [m] (new_vehicle kv) empty_net = (False, v', os') \<and>
     ln_mail os' = [(24660, dg)] \<and>
     proxy_iteration loopback xor_ascon \<lparr>udp_fd = 1\<rparr> 24661 0 5 (new_proxy_service kin keg)
       \<lparr>ln_sockets = [(1, 24660)], ln_mail = [(24660, dg)]\<rparr> = (exit, s', os2) \<and>
     exit = Break \<and> ln_mail os2 = [(24661, dg')] \<and> relayed xor_ascon kg opened 0 dg'"
proof -
  obtain kv kin where hop1: "derive_directional_keys xor_ascon app_psk app_session 1 3 = Some (kv, kin)" "valid_keys kv"
    using app_keys [of 1 3] by auto
  obtain keg kg where hop2: "derive_directional_keys xor_ascon app_psk app_session 3 2 = Some (keg, kg)" "valid_keys keg"
    using app_keys [of 3 2] by auto
  obtain m v' os' where "poll3 first_publisher 0 = ([m], settled 10000 False)" "published_type m = MT_Position"
    and m: "carries_state (settled 10000 False) False m"
    and send: "vehicle_send loopback xor_ascon \<lparr>udp_fd = 1\<rparr> 24660 0 [m] (new_vehicle kv) empty_net = (False, v', os')"
    and size: "length (ne_buffer (v_endpoint v')) = kMaxRecordBytes"
    by (rule first_datagram [OF hop1])
  let ?dg = "take (kHeaderBytes + m_length (pm_message m) + kTagBytes) (ne_buffer (v_endpoint v'))"
  let ?s = "new_proxy_service kin keg" and ?u = "\<lparr>udp_fd = 1\<rparr>"
  let ?os1 = "\<lparr>ln_sockets = [(1, 24660)], ln_mail = [(24660, ?dg)]\<rparr>"
  have arr: "datagram_arrives loopback ?u ?os1 ?dg"
    using datagram_size [OF size] by (intro loopback_arrives) blast+
  have keys: "mirrored (s_keys (ne_session (v_endpoint (new_vehicle kv)))) (s_keys (ne_session (ps_ingress ?s)))"
    using derive_directional_keys_SomeD [OF hop1(1)]
    by (simp add: mirrored_def new_vehicle_def new_proxy_service_def new_NativeEndpoint_def new_Session_def)
  have buffers: "length (ne_buffer (v_endpoint (new_vehicle kv))) = kMaxRecordBytes"
    "length (ne_buffer (ps_ingress ?s)) = kMaxRecordBytes"
    by (simp_all add: new_vehicle_def new_proxy_service_def new_NativeEndpoint_def)
  have acc: "ReplayWindow_accepted (s_replay (ne_session (ps_ingress ?s))) (v_sequence (new_vehicle kv))"
    using fresh_accepts by (simp add: new_proxy_service_def new_NativeEndpoint_def)
  obtain opened b osr where unc: "NativeEndpoint_receive_uncommitted loopback xor_ascon (ps_ingress ?s) ?u
      (ucast (5 :: u64)) ?os1 = (Inr opened, (ps_ingress ?s)\<lparr>ne_buffer := b\<rparr>, osr)" and b: "length b = kMaxRecordBytes"
    and opened: "gcs_state opened = Some (published_line (settled 10000 False) False (published_type m))" "relayable opened"
      "or_length opened = m_length (pm_message m)" "h_deadline_ms (or_header opened) = 0"
    by (rule vehicle_to_proxy [OF xor_ascon_correct keys buffers m send acc arr])
  have osr: "ln_mail osr = []"
    using loopback_receive_takes [OF buffers(2), of xor_ascon "ucast (5 :: u64)" 24660 ?dg] unc by simp
  have q: "ps_egress_sequence ?s = 0" by (simp add: new_proxy_service_def)
  then have "ps_egress_sequence ?s \<noteq> - 1" by simp
  from proxy_reencrypts [OF xor_ascon_correct app_network_up hop2 fresh_ready(2) this unc, of 24661 0] b opened(2) q
  obtain exit s' os2 dg' where it: "proxy_iteration loopback xor_ascon ?u 24661 0 5 ?s ?os1 = (exit, s', os2)" "exit = Break"
    and os2: "os2 = sent_to loopback ?u 24661 dg' osr" and relayed: "relayed xor_ascon kg opened 0 dg'"
    by auto
  have "ln_mail os2 = [(24661, dg')]" by (simp add: os2 sent_to_def loopback_def osr)
  moreover have "ln_mail os' = [(24660, ?dg)]"
    using send_sent_to(1) [OF vehicle_send_one [OF send] buffers(1)] by (simp add: sent_to_def loopback_def empty_net_def)
  ultimately show ?thesis using send it relayed by blast
qed

end
