(* ===== verification/Service_Runs.thy ===== *)
theory Service_Runs
  imports Relay_Apps
begin

text \<open>
  Whole runs of \<^verbatim>\<open>apps/proxy_service.cpp\<close> and \<^verbatim>\<open>apps/gcs_endpoint.cpp\<close>. What a run returns, prints and leaves open is shown for every
  network, cipher and clock; that it ends needs a network with finitely many datagrams and a clock
  that advances while the program waits, the predicate \<open>time_flows\<close>.
\<close>

section \<open>The outcomes of one pass\<close>

text \<open>
  A commit that follows a successful open succeeds, so the branches with exit codes 8 and 6 are
  never taken.
\<close>

lemma proxy_iteration_cases:
  assumes "proxy_iteration P A udp port D elapsed s os = (x, s', os')"
  obtains (idle) e where
      "NativeEndpoint_receive_uncommitted P A (ps_ingress s) udp (ucast elapsed) os = (Inl RE_Timeout, e, os')"
      "s' = s\<lparr>ps_ingress := e\<rparr>" "x = (if D \<le> elapsed then Break else Continue)"
  | (refused) err e where
      "NativeEndpoint_receive_uncommitted P A (ps_ingress s) udp (ucast elapsed) os = (Inl err, e, os')"
      "s' = log_proxy (Ingress_fail err) (s\<lparr>ps_ingress := e\<rparr>)" "x = Return 4"
  | (rejected) opened e where
      "NativeEndpoint_receive_uncommitted P A (ps_ingress s) udp (ucast elapsed) os = (Inr opened, e, os')"
      "s' = log_proxy Schema_reject (s\<lparr>ps_ingress := e, ps_received_any := True\<rparr>)" "x = Continue"
  | (sent) opened e e2 os1 r e' where
      "NativeEndpoint_receive_uncommitted P A (ps_ingress s) udp (ucast elapsed) os = (Inr opened, e, os1)"
      "NativeEndpoint_commit e opened = (Inr (), e2)"
      "NativeEndpoint_send P A (ps_egress s) (egress_header s (or_header opened)) (Some (or_payload opened))
         (or_length opened) udp (Some loopback_host) port os1 = (r, e', os')"
      "s' = log_proxy (case r of Inl err \<Rightarrow> Egress_fail err
          | Inr u \<Rightarrow> Reencrypt (h_type (or_header opened)) (or_length opened) (ps_egress_sequence s))
        (s\<lparr>ps_ingress := e2, ps_received_any := True, ps_egress_sequence := ps_egress_sequence s + 1, ps_egress := e'\<rparr>)"
      "x = (if isl r then Return 5 else if D = 0 \<or> D \<le> elapsed then Break else Continue)"
proof -
  obtain r e os1 where unc: "NativeEndpoint_receive_uncommitted P A (ps_ingress s) udp (ucast elapsed) os = (r, e, os1)"
    by (cases "NativeEndpoint_receive_uncommitted P A (ps_ingress s) udp (ucast elapsed) os") auto
  show thesis
  proof (cases r)
    case (Inl err)
    then show thesis
      using assms unc idle refused by (auto simp: proxy_iteration_def Let_def split: if_splits)
  next
    case (Inr opened)
    note known = opened_known [OF unc [unfolded Inr]]
    show thesis
    proof (cases "relayable opened")
      case False
      then show thesis
        using proxy_rejects [OF unc [unfolded Inr] False, of port D] assms unc Inr rejected by simp
    next
      case True
      obtain e2 where commit: "NativeEndpoint_commit e opened = (Inr (), e2)"
        using commit_after_open [OF known(6)] by blast
      obtain r' e' os2 where send: "NativeEndpoint_send P A (ps_egress s) (egress_header s (or_header opened))
          (Some (or_payload opened)) (or_length opened) udp (Some loopback_host) port os1 = (r', e', os2)"
        by (cases "NativeEndpoint_send P A (ps_egress s) (egress_header s (or_header opened))
          (Some (or_payload opened)) (or_length opened) udp (Some loopback_host) port os1") auto
      have pass: "(\<not> known_type (h_type (or_header opened)) \<or> or_length opened = 0 \<or> \<not> schema_ok opened) = False"
        using known(1) True by (simp add: relayable_def)
      let ?x = "if isl r' then Return 5 else if D = 0 \<or> D \<le> elapsed then Break else Continue"
      let ?s' = "log_proxy (case r' of Inl err \<Rightarrow> Egress_fail err
            | Inr u \<Rightarrow> Reencrypt (h_type (or_header opened)) (or_length opened) (ps_egress_sequence s))
          (s\<lparr>ps_ingress := e2, ps_received_any := True, ps_egress_sequence := ps_egress_sequence s + 1, ps_egress := e'\<rparr>)"
      have "proxy_iteration P A udp port D elapsed s os = (?x, ?s', os2)"
        unfolding proxy_iteration_def unc Inr Let_def prod.case sum.case pass if_False commit
        by (cases r') (simp_all add: send [unfolded egress_header_def])
      then have res: "x = ?x" "s' = ?s'" "os' = os2" using assms by simp_all
      show thesis
        by (rule sent [OF unc [unfolded Inr] commit send [folded res(3)] res(2,1)])
    qed
  qed
qed

lemma gcs_iteration_cases:
  assumes "gcs_iteration P A udp D elapsed s os = (x, s', os')"
  obtains (idle) e where
      "NativeEndpoint_receive_uncommitted P A (gs_endpoint s) udp (ucast elapsed) os = (Inl RE_Timeout, e, os')"
      "s' = s\<lparr>gs_endpoint := e\<rparr>" "elapsed < D" "x = Continue"
  | (stopped) err e where
      "NativeEndpoint_receive_uncommitted P A (gs_endpoint s) udp (ucast elapsed) os = (Inl err, e, os')"
      "s' = (if err = RE_Timeout \<and> D = 0 then log_gcs (Gcs_receive_fail err) (s\<lparr>gs_endpoint := e\<rparr>) else s\<lparr>gs_endpoint := e\<rparr>)"
      "x = Return (if gs_received_count s = 0 then 4 else 0)"
  | (rejected) opened e where
      "NativeEndpoint_receive_uncommitted P A (gs_endpoint s) udp (ucast elapsed) os = (Inr opened, e, os')"
      "s' = log_gcs (Gcs_schema_reject (h_type (or_header opened))) (s\<lparr>gs_endpoint := e\<rparr>)" "x = Continue"
  | (shown) opened e e2 line where
      "NativeEndpoint_receive_uncommitted P A (gs_endpoint s) udp (ucast elapsed) os = (Inr opened, e, os')"
      "gcs_state opened = Some line" "NativeEndpoint_commit e opened = (Inr (), e2)"
      "s' = s\<lparr>gs_endpoint := e2, gs_received_count := gs_received_count s + 1,
         gs_log := gs_log s @ line # (if D = 0 then [Gcs_snapshot (gs_received_count s + 1)] else [])\<rparr>"
      "x = (if D = 0 then Return 0 else if D \<le> elapsed then Break else Continue)"
proof -
  obtain r e os1 where unc: "NativeEndpoint_receive_uncommitted P A (gs_endpoint s) udp (ucast elapsed) os = (r, e, os1)"
    by (cases "NativeEndpoint_receive_uncommitted P A (gs_endpoint s) udp (ucast elapsed) os") auto
  show thesis
  proof (cases r)
    case (Inl err)
    then show thesis
      using assms unc idle stopped by (auto simp: gcs_iteration_def Let_def split: if_splits)
  next
    case (Inr opened)
    show thesis
    proof (cases "gcs_state opened")
      case None
      then show thesis using assms unc Inr rejected by (simp add: gcs_iteration_def)
    next
      case (Some line)
      obtain e2 where commit: "NativeEndpoint_commit e opened = (Inr (), e2)"
        using commit_after_open [OF opened_known(6) [OF unc [unfolded Inr]]] by blast
      have "gcs_iteration P A udp D elapsed s os = (if D = 0 then Return 0 else if D \<le> elapsed then Break else Continue,
          s\<lparr>gs_endpoint := e2, gs_received_count := gs_received_count s + 1,
            gs_log := gs_log s @ line # (if D = 0 then [Gcs_snapshot (gs_received_count s + 1)] else [])\<rparr>, os1)"
        by (simp add: gcs_iteration_def unc Inr Some commit Let_def)
      then show thesis using assms shown [OF _ Some commit] unc Inr by simp
    qed
  qed
qed

section \<open>Time and traffic\<close>

text \<open>
  What makes the programs end. \<open>time\<close> reads the milliseconds since the start off the system state
  and \<open>mail\<close> the number of datagrams this process has still to receive. The clock never runs
  behind the time, no call turns time back or makes more mail, a \<^verbatim>\<open>select\<close> that reports no
  datagram took time, and after one that reports a datagram \<^verbatim>\<open>recvfrom\<close> takes it.
\<close>

definition time_flows ::
    "'o posix \<Rightarrow> ('o \<Rightarrow> u64 \<times> 'o) \<Rightarrow> ('o \<Rightarrow> nat) \<Rightarrow> ('o \<Rightarrow> nat) \<Rightarrow> bool" where
  "time_flows P clock time mail \<longleftrightarrow>
     (\<forall>os. min (time os) (2 ^ 64 - 1) \<le> unat (fst (clock os)) \<and>
        time os \<le> time (snd (clock os)) \<and> mail (snd (clock os)) \<le> mail os) \<and>
     (\<forall>fd bs a p os. time os \<le> time (snd (os_sendto P fd bs a p os)) \<and> mail (snd (os_sendto P fd bs a p os)) \<le> mail os) \<and>
     (\<forall>fd s us os. time os \<le> time (snd (os_select P fd s us os)) \<and> mail (snd (os_select P fd s us os)) \<le> mail os \<and>
        (fst (os_select P fd s us os) \<le> 0 \<longrightarrow> time os < time (snd (os_select P fd s us os)))) \<and>
     (\<forall>fd s us buf n os. let os1 = snd (os_select P fd s us os); os2 = snd (os_recvfrom P fd buf n os1)
        in time os1 \<le> time os2 \<and> (0 < fst (os_select P fd s us os) \<longrightarrow> mail os2 < mail os1))"

lemma time_flowsD:
  assumes "time_flows P clock time mail"
  shows "min (time os) (2 ^ 64 - 1) \<le> unat (fst (clock os))"
    and "time os \<le> time (snd (clock os))" "mail (snd (clock os)) \<le> mail os"
    and "time os \<le> time (snd (os_sendto P fd bs a p os))" "mail (snd (os_sendto P fd bs a p os)) \<le> mail os"
    and "time os \<le> time (snd (os_select P fd s us os))" "mail (snd (os_select P fd s us os)) \<le> mail os"
    and "fst (os_select P fd s us os) \<le> 0 \<Longrightarrow> time os < time (snd (os_select P fd s us os))"
    and "time (snd (os_select P fd s us os)) \<le> time (snd (os_recvfrom P fd buf n (snd (os_select P fd s us os))))"
    and "0 < fst (os_select P fd s us os) \<Longrightarrow>
      mail (snd (os_recvfrom P fd buf n (snd (os_select P fd s us os)))) < mail (snd (os_select P fd s us os))"
  using assms unfolding time_flows_def Let_def by blast+

lemma time_of_clock:
  assumes "time_flows P clock time mail" and "fst (clock os) < D"
  shows "time os < unat D"
proof -
  have "unat D < 2 ^ 64" using unsigned_less [of D] by simp
  then show ?thesis
    using time_flowsD(1) [OF assms(1), of os] assms(2) unfolding word_less_nat_alt by linarith
qed

lemma receive_keeps:
  assumes posix: "posix_udp P opened"
    and unc: "NativeEndpoint_receive_uncommitted P A e udp now os = (r, e', os')"
  shows "opened os' = opened os" "length (ne_buffer e') = length (ne_buffer e)"
  using unc posix_udpD(6,7,9) [OF posix]
  by (auto simp: NativeEndpoint_receive_uncommitted_def UdpEndpoint_receive_def Let_def case_prod_beta
    split: if_splits)

lemma send_keeps:
  assumes posix: "posix_udp P opened" and buffer: "length (ne_buffer e) = kMaxRecordBytes"
    and send: "NativeEndpoint_send P A e h payload len udp host port os = (r, e', os')"
  shows "opened os' = opened os" "length (ne_buffer e') = kMaxRecordBytes"
proof -
  obtain q s1 where seal: "Session_seal A (ne_session e) h payload len (ne_buffer e) = (q, s1)" by fastforce
  have "opened os' = opened os \<and> length (ne_buffer e') = kMaxRecordBytes"
  proof (cases q)
    case (Inl err)
    then show ?thesis using send seal buffer by (auto simp: NativeEndpoint_send_def)
  next
    case (Inr w)
    obtain buf n where w: "w = (buf, n)" by fastforce
    have "length buf = kMaxRecordBytes" using Session_seal_length [OF seal [unfolded Inr w] buffer] .
    then show ?thesis
      using send seal Inr w send_to_opened [OF posix] by (auto simp: NativeEndpoint_send_def Let_def case_prod_beta)
  qed
  then show "opened os' = opened os" "length (ne_buffer e') = kMaxRecordBytes" by simp_all
qed

lemma send_progress:
  assumes flow: "time_flows P clock time mail"
    and send: "NativeEndpoint_send P A e h payload len udp host port os = (r, e', os')"
  shows "time os \<le> time os'" "mail os' \<le> mail os"
proof -
  have "time os \<le> time (snd (UdpEndpoint_send_to P udp host port bytes n os)) \<and>
      mail (snd (UdpEndpoint_send_to P udp host port bytes n os)) \<le> mail os" for bytes n
    using time_flowsD(4,5) [OF flow]
    by (simp add: UdpEndpoint_send_to_def Let_def case_prod_beta split: option.split)
  then have "time os \<le> time os' \<and> mail os' \<le> mail os"
    using send unfolding NativeEndpoint_send_def
    by (auto simp: Let_def case_prod_beta split: prod.splits sum.splits)
  then show "time os \<le> time os'" "mail os' \<le> mail os" by simp_all
qed

text \<open>A receive takes a datagram or takes time; a send does neither.\<close>

lemma receive_progress:
  assumes flow: "time_flows P clock time mail" and udp: "UdpEndpoint_valid udp" and buffer: "length (ne_buffer e) = kMaxRecordBytes"
    and unc: "NativeEndpoint_receive_uncommitted P A e udp now os = (r, e', os')"
  shows "time os \<le> time os'" "mail os' \<le> mail os"
    "r \<noteq> Inl RE_Timeout \<Longrightarrow> mail os' < mail os"
    "r = Inl RE_Timeout \<Longrightarrow> time os < time os' \<or> mail os' < mail os"
proof -
  let ?sel = "os_select P (udp_fd udp) 1 0 os"
  let ?rcv = "os_recvfrom P (udp_fd udp) (ne_buffer e) kMaxRecordBytes (snd ?sel)"
  have timeout: "unat ((1000 :: u32) div 1000) = 1" "unat ((1000 :: u32) mod 1000 * 1000) = 0"
    by simp_all
  have "(r, e', os') =
      (if fst ?sel \<le> 0 then (Inl RE_Timeout, e, snd ?sel)
       else let e1 = e\<lparr>ne_buffer := snd (fst ?rcv)\<rparr>
            in if fst (fst ?rcv) \<le> 0 then (Inl RE_Timeout, e1, snd ?rcv)
               else (Session_open_uncommitted A (ne_session e) (Some (snd (fst ?rcv))) (nat (fst (fst ?rcv))) now,
                     e1, snd ?rcv))"
    using unc udp buffer
    by (auto simp: NativeEndpoint_receive_uncommitted_def UdpEndpoint_receive_def UdpEndpoint_valid_def timeout
      Let_def case_prod_beta split: if_splits)
  note cases = this [unfolded Let_def]
  note sel = time_flowsD(6,7) [OF flow, where os = os and fd = "udp_fd udp" and s = 1 and us = 0]
  note rcv = time_flowsD(9,10) [OF flow, where fd = "udp_fd udp" and s = 1 and us = 0 and os = os
      and buf = "ne_buffer e" and n = kMaxRecordBytes]
  show "time os \<le> time os'" "mail os' \<le> mail os"
    using cases sel rcv by (auto split: if_splits)
  show "r \<noteq> Inl RE_Timeout \<Longrightarrow> mail os' < mail os"
    using cases sel rcv by (auto split: if_splits)
  show "r = Inl RE_Timeout \<Longrightarrow> time os < time os' \<or> mail os' < mail os"
    using cases sel rcv time_flowsD(8) [OF flow, where os = os and fd = "udp_fd udp" and s = 1 and us = 0] open_never_times_out
    by (auto split: if_splits)
qed

section \<open>Invariants of the runs\<close>

fun line_sequence :: "proxy_line \<Rightarrow> u64 list" where
  "line_sequence (Reencrypt type n q) = [q]"
| "line_sequence _ = []"

abbreviation egress_sequences :: "proxy_line list \<Rightarrow> u64 list" where
  "egress_sequences lines \<equiv> concat (map line_sequence lines)"

definition clean_log :: "proxy_line list \<Rightarrow> bool" where
  "clean_log lines \<longleftrightarrow> (\<forall>l \<in> set lines. l = Schema_reject \<or> (\<exists>type n q. l = Reencrypt type n q)) \<and>
     egress_sequences lines = map of_nat [0..<length (egress_sequences lines)]"

definition proxy_result :: "u64 \<Rightarrow> int \<Rightarrow> proxy_line list \<Rightarrow> bool" where
  "proxy_result D code lines \<longleftrightarrow> (\<exists>good fin. lines = good @ fin \<and> clean_log good \<and>
     (fin = [] \<and> good = [] \<and> code = 4 \<or> fin = [Proxy_stream D] \<and> good \<noteq> [] \<and> code = 0 \<or>
      (\<exists>err. fin = [Ingress_fail err] \<and> code = 4) \<or>
      (\<exists>err. fin = [Egress_fail err] \<and> code = 5)))"

definition proxy_run_inv :: "('o \<Rightarrow> int set) \<Rightarrow> int set \<Rightarrow> proxy_service \<times> 'o \<Rightarrow> bool" where
  "proxy_run_inv opened base = (\<lambda>(s, os). opened os = base \<and>
     length (ne_buffer (ps_ingress s)) = kMaxRecordBytes \<and> length (ne_buffer (ps_egress s)) = kMaxRecordBytes \<and>
     clean_log (ps_log s) \<and> ps_egress_sequence s = of_nat (length (egress_sequences (ps_log s))) \<and>
     (ps_received_any s \<longleftrightarrow> ps_log s \<noteq> []))"

fun state_line :: "gcs_line \<Rightarrow> bool" where
  "state_line (Gcs_position p) = True"
| "state_line (Gcs_attitude a) = True"
| "state_line (Gcs_battery b) = True"
| "state_line _ = False"

definition gcs_result :: "int \<Rightarrow> gcs_line list \<Rightarrow> bool" where
  "gcs_result code lines \<longleftrightarrow> code = (if \<exists>l \<in> set lines. state_line l then 0 else 4) \<and>
     (\<forall>err. Gcs_commit_fail err \<notin> set lines)"

definition gcs_run_inv :: "('o \<Rightarrow> int set) \<Rightarrow> int set \<Rightarrow> ground_station \<times> 'o \<Rightarrow> bool" where
  "gcs_run_inv opened base = (\<lambda>(s, os). opened os = base \<and>
     length (ne_buffer (gs_endpoint s)) = kMaxRecordBytes \<and>
     (gs_received_count s = 0 \<longleftrightarrow> \<not> (\<exists>l \<in> set (gs_log s). state_line l)) \<and>
     (\<forall>err. Gcs_commit_fail err \<notin> set (gs_log s)))"

lemma clean_log_add:
  "clean_log lines \<Longrightarrow> clean_log (lines @ [Schema_reject])"
  "clean_log lines \<Longrightarrow> q = of_nat (length (egress_sequences lines)) \<Longrightarrow> clean_log (lines @ [Reencrypt type n q])"
  by (auto simp: clean_log_def)

lemma proxy_result_intros [intro]:
  "clean_log good \<Longrightarrow> proxy_result D 4 (good @ [Ingress_fail err])"
  "clean_log good \<Longrightarrow> proxy_result D 5 (good @ [Egress_fail err])"
  "clean_log good \<Longrightarrow> good \<noteq> [] \<Longrightarrow> proxy_result D 0 (good @ [Proxy_stream D])"
  "proxy_result D 4 []"
  by (fastforce simp: proxy_result_def clean_log_def)+

lemma gcs_state_line: "gcs_state opened = Some l \<Longrightarrow> state_line l"
  by (auto simp: gcs_state_def split: if_splits)

lemma commit_buffer: "NativeEndpoint_commit e rcd = (r, e') \<Longrightarrow> ne_buffer e' = ne_buffer e"
  by (auto simp: NativeEndpoint_commit_def Let_def case_prod_beta)

lemma proxy_pass:
  assumes posix: "posix_udp P opened" and clock: "\<And>os. opened (snd (clock os)) = opened os"
    and inv: "proxy_run_inv opened base (s, os)"
  shows "pass_ok (proxy_finish D) (proxy_run_inv opened base)
    (\<lambda>code (s, os). opened os = base \<and> proxy_result D code (ps_log s)) (proxy_body P A clock udp port D (s, os))"
proof -
  obtain x s' os' where pass: "proxy_iteration P A udp port D (fst (clock os)) s (snd (clock os)) = (x, s', os')"
    by (cases "proxy_iteration P A udp port D (fst (clock os)) s (snd (clock os))") auto
  note inv' = inv [unfolded proxy_run_inv_def prod.case]
  have "pass_ok (proxy_finish D) (proxy_run_inv opened base)
    (\<lambda>code (s, os). opened os = base \<and> proxy_result D code (ps_log s)) (x, s', os')"
    using pass
  proof (cases rule: proxy_iteration_cases)
    case (idle e)
    then show ?thesis
      using inv' clock [of os] receive_keeps [OF posix idle(1)]
      by (auto simp: proxy_run_inv_def proxy_finish_def)
  next
    case (refused err e)
    then show ?thesis
      using inv' clock [of os] receive_keeps [OF posix refused(1)] by auto
  next
    case (rejected opened' e)
    then show ?thesis
      using inv' clock [of os] receive_keeps [OF posix rejected(1)] clean_log_add(1) by (auto simp: proxy_run_inv_def)
  next
    case (sent opened' e e2 os1 r e')
    have sizes: "opened os' = base" "length (ne_buffer e2) = kMaxRecordBytes" "length (ne_buffer e') = kMaxRecordBytes"
      using inv' clock [of os] receive_keeps [OF posix sent(1)] send_keeps [OF posix _ sent(3)] commit_buffer [OF sent(2)]
      by simp_all
    show ?thesis
    proof (cases r)
      case (Inl err)
      then show ?thesis using sent(4,5) sizes inv' by auto
    next
      case (Inr u)
      then have "proxy_run_inv opened base (s', os')"
        using sent(4) sizes inv' clean_log_add(2) by (simp add: proxy_run_inv_def)
      moreover have "ps_log s' \<noteq> []" using sent(4) by simp
      ultimately show ?thesis
        using sent(5) Inr by (auto simp: proxy_run_inv_def proxy_finish_def)
    qed
  qed
  then show ?thesis by (simp add: proxy_body_def pass)
qed

lemma gcs_pass:
  assumes posix: "posix_udp P opened" and clock: "\<And>os. opened (snd (clock os)) = opened os"
    and inv: "gcs_run_inv opened base (s, os)"
  shows "pass_ok (gcs_finish D) (gcs_run_inv opened base)
    (\<lambda>code (s, os). opened os = base \<and> gcs_result code (gs_log s)) (gcs_body P A clock udp D (s, os))"
proof -
  obtain x s' os' where pass: "gcs_iteration P A udp D (fst (clock os)) s (snd (clock os)) = (x, s', os')"
    by (cases "gcs_iteration P A udp D (fst (clock os)) s (snd (clock os))") auto
  note inv' = inv [unfolded gcs_run_inv_def prod.case]
  have "pass_ok (gcs_finish D) (gcs_run_inv opened base)
    (\<lambda>code (s, os). opened os = base \<and> gcs_result code (gs_log s)) (x, s', os')"
    using pass
  proof (cases rule: gcs_iteration_cases)
    case (idle e)
    then show ?thesis
      using inv' clock [of os] receive_keeps [OF posix idle(1)] by (simp add: gcs_run_inv_def)
  next
    case (stopped err e)
    then show ?thesis
      using inv' clock [of os] receive_keeps [OF posix stopped(1)] by (auto simp: gcs_result_def)
  next
    case (rejected opened' e)
    then show ?thesis
      using inv' clock [of os] receive_keeps [OF posix rejected(1)] by (auto simp: gcs_run_inv_def)
  next
    case (shown opened' e e2 line)
    have "state_line line" using gcs_state_line [OF shown(2)] .
    then have "line \<noteq> Gcs_commit_fail err" for err by auto
    then have inv2: "gcs_run_inv opened base (s', os')" and log: "gcs_result 0 (gs_log s')"
      using shown(4) inv' clock [of os] receive_keeps [OF posix shown(1)] commit_buffer [OF shown(3)] \<open>state_line line\<close>
      by (auto simp: gcs_run_inv_def gcs_result_def)
    moreover have "gs_received_count s' > 0" using shown(4) by simp
    ultimately show ?thesis
      using shown(5) by (auto simp: gcs_finish_def gcs_run_inv_def gcs_result_def)
  qed
  then show ?thesis by (simp add: gcs_body_def pass)
qed

lemma proxy_pass_progress:
  assumes flow: "time_flows P clock time mail" and udp: "UdpEndpoint_valid udp"
    and inv: "proxy_run_inv opened base (s, os)"
    and pass: "proxy_body P A clock udp port D (s, os) = (Continue, s', os')"
  shows "(unat D - time os') + mail os' < (unat D - time os) + mail os"
proof -
  have buffer: "length (ne_buffer (ps_ingress s)) = kMaxRecordBytes"
    using inv by (simp add: proxy_run_inv_def)
  note tick = time_flowsD(2,3) [OF flow, of os]
  have "proxy_iteration P A udp port D (fst (clock os)) s (snd (clock os)) = (Continue, s', os')"
    using pass by (simp add: proxy_body_def)
  then show ?thesis
  proof (cases rule: proxy_iteration_cases)
    case (idle e)
    then have "fst (clock os) < D" by (simp split: if_splits)
    then have "time os < unat D" by (rule time_of_clock [OF flow])
    then show ?thesis
      using tick receive_progress(1,2) [OF flow udp buffer idle(1)]
        receive_progress(4) [OF flow udp buffer idle(1) refl] by linarith
  next
    case (rejected opened' e)
    then show ?thesis using tick receive_progress(1,2,3) [OF flow udp buffer rejected(1)] by simp
  next
    case (sent opened' e e2 os1 r e')
    then show ?thesis
      using tick receive_progress(1,2,3) [OF flow udp buffer sent(1)] send_progress [OF flow sent(3)] by simp
  qed simp
qed

lemma gcs_pass_progress:
  assumes flow: "time_flows P clock time mail" and udp: "UdpEndpoint_valid udp"
    and inv: "gcs_run_inv opened base (s, os)"
    and pass: "gcs_body P A clock udp D (s, os) = (Continue, s', os')"
  shows "(unat D - time os') + mail os' < (unat D - time os) + mail os"
proof -
  have buffer: "length (ne_buffer (gs_endpoint s)) = kMaxRecordBytes"
    using inv by (simp add: gcs_run_inv_def)
  note tick = time_flowsD(2,3) [OF flow, of os]
  have "gcs_iteration P A udp D (fst (clock os)) s (snd (clock os)) = (Continue, s', os')"
    using pass by (simp add: gcs_body_def)
  then show ?thesis
  proof (cases rule: gcs_iteration_cases)
    case (idle e)
    then have "time os < unat D" by (intro time_of_clock [OF flow])
    then show ?thesis
      using tick receive_progress(1,2) [OF flow udp buffer idle(1)]
        receive_progress(4) [OF flow udp buffer idle(1) refl] by linarith
  next
    case (rejected opened' e)
    then show ?thesis using tick receive_progress(1,2,3) [OF flow udp buffer rejected(1)] by simp
  next
    case (shown opened' e e2 line)
    then show ?thesis using tick receive_progress(1,2,3) [OF flow udp buffer shown(1)] by simp
  qed simp
qed

section \<open>Whole programs\<close>

lemma bind_close:
  assumes posix: "posix_udp P opened" and bind: "UdpEndpoint_bind P new_UdpEndpoint port os = (ok, udp, os1)"
  shows "ok \<Longrightarrow> UdpEndpoint_valid udp"
    and "opened os2 = opened os1 \<Longrightarrow> opened (snd (UdpEndpoint_close P udp os2)) = opened os"
proof -
  show "ok \<Longrightarrow> UdpEndpoint_valid udp"
    using bind by (auto simp: UdpEndpoint_bind_def UdpEndpoint_valid_def Let_def split: if_splits prod.splits)
  have "descriptor_inv P opened (opened os) (new_UdpEndpoint, os)"
    using posix by (simp add: descriptor_inv_def new_UdpEndpoint_def UdpEndpoint_valid_def)
  from bind_inv [OF this, of port] have inv: "descriptor_inv P opened (opened os) (udp, os1)" by (simp add: bind)
  then show "opened (snd (UdpEndpoint_close P udp os2)) = opened os" if "opened os2 = opened os1"
    using that close_inv [of P opened "opened os" udp os2] close_closes [of P udp os2]
    by (auto simp: descriptor_inv_def case_prod_beta)
qed

lemma proxy_start: "proxy_run_inv opened (opened os) (new_proxy_service kin keg, os)"
  by (simp add: proxy_run_inv_def new_proxy_service_def new_NativeEndpoint_def clean_log_def)

lemma gcs_start: "gcs_run_inv opened (opened os) (new_ground_station k, os)"
  by (simp add: gcs_run_inv_def new_ground_station_def new_NativeEndpoint_def)

lemma proxy_loop_outcome:
  assumes "posix_udp P opened" and "\<And>os. opened (snd (clock os)) = opened os"
    and "proxy_loop P A clock udp port D (new_proxy_service kin keg) os = Some (code, s', os')"
  shows "opened os' = opened os \<and> proxy_result D code (ps_log s')"
proof -
  have "run_loop (proxy_body P A clock udp port D) (proxy_finish D) (new_proxy_service kin keg, os) = Some (code, s', os')"
    using assms(3) by (simp add: proxy_loop_def)
  then have "case (s', os') of (s, os') \<Rightarrow> opened os' = opened os \<and> proxy_result D code (ps_log s)"
  proof (rule loops.loop_outcome [where I = "proxy_run_inv opened (opened os)"])
    show "pass_ok (proxy_finish D) (proxy_run_inv opened (opened os))
        (\<lambda>code (s, os'). opened os' = opened os \<and> proxy_result D code (ps_log s)) (proxy_body P A clock udp port D x)"
      if "proxy_run_inv opened (opened os) x" for x
      using proxy_pass [OF assms(1,2), of "opened os" "fst x" "snd x"] that by simp
  qed (rule proxy_start)
  then show ?thesis by simp
qed

lemma gcs_loop_outcome:
  assumes "posix_udp P opened" and "\<And>os. opened (snd (clock os)) = opened os"
    and "gcs_loop P A clock udp D (new_ground_station k) os = Some (code, s', os')"
  shows "opened os' = opened os \<and> gcs_result code (gs_log s')"
proof -
  have "run_loop (gcs_body P A clock udp D) (gcs_finish D) (new_ground_station k, os) = Some (code, s', os')"
    using assms(3) by (simp add: gcs_loop_def)
  then have "case (s', os') of (s, os') \<Rightarrow> opened os' = opened os \<and> gcs_result code (gs_log s)"
  proof (rule loops.loop_outcome [where I = "gcs_run_inv opened (opened os)"])
    show "pass_ok (gcs_finish D) (gcs_run_inv opened (opened os))
        (\<lambda>code (s, os'). opened os' = opened os \<and> gcs_result code (gs_log s)) (gcs_body P A clock udp D x)"
      if "gcs_run_inv opened (opened os) x" for x
      using gcs_pass [OF assms(1,2), of "opened os" "fst x" "snd x"] that by simp
  qed (rule gcs_start)
  then show ?thesis by simp
qed

lemma proxy_loop_ends:
  assumes "posix_udp P opened" and "\<And>os. opened (snd (clock os)) = opened os"
    and "time_flows P clock time mail" and "UdpEndpoint_valid udp"
  shows "\<exists>code s' os'. proxy_loop P A clock udp port D (new_proxy_service kin keg) os = Some (code, s', os')"
proof -
  have "pass_ok (proxy_finish D) (\<lambda>y. proxy_run_inv opened (opened os) y \<and>
      (unat D - time (snd y)) + mail (snd y) < (unat D - time (snd x)) + mail (snd x)) (\<lambda>_ _. True)
      (proxy_body P A clock udp port D x)" if "proxy_run_inv opened (opened os) x" for x
    using proxy_pass [OF assms(1,2), of "opened os" "fst x" "snd x" D A udp port]
      proxy_pass_progress [OF assms(3,4), of opened "opened os" "fst x" "snd x" A port D] that
    by (auto simp: pass_ok_def split: loop_exit.splits prod.splits)
  from loops.loop_ends [OF proxy_start this] show ?thesis by (auto simp: proxy_loop_def)
qed

lemma gcs_loop_ends:
  assumes "posix_udp P opened" and "\<And>os. opened (snd (clock os)) = opened os"
    and "time_flows P clock time mail" and "UdpEndpoint_valid udp"
  shows "\<exists>code s' os'. gcs_loop P A clock udp D (new_ground_station k) os = Some (code, s', os')"
proof -
  have "pass_ok (gcs_finish D) (\<lambda>y. gcs_run_inv opened (opened os) y \<and>
      (unat D - time (snd y)) + mail (snd y) < (unat D - time (snd x)) + mail (snd x)) (\<lambda>_ _. True)
      (gcs_body P A clock udp D x)" if "gcs_run_inv opened (opened os) x" for x
    using gcs_pass [OF assms(1,2), of "opened os" "fst x" "snd x" D A udp]
      gcs_pass_progress [OF assms(3,4), of opened "opened os" "fst x" "snd x" A D] that
    by (auto simp: pass_ok_def split: loop_exit.splits prod.splits)
  from loops.loop_ends [OF gcs_start this] show ?thesis by (auto simp: gcs_loop_def)
qed

lemma proxy_main_ends:
  assumes "posix_udp P opened" and "\<And>os. opened (snd (clock os)) = opened os" and "time_flows P clock time mail"
  shows "\<exists>r. proxy_main P A clock port egress_port D os = Some r"
proof -
  obtain ok udp os1 where bind: "UdpEndpoint_bind P new_UdpEndpoint port os = (ok, udp, os1)"
    by (cases "UdpEndpoint_bind P new_UdpEndpoint port os") auto
  have "\<exists>r. proxy_loop P A clock udp egress_port D (new_proxy_service kin keg) os1 = Some r" if ok for kin keg
    using proxy_loop_ends [OF assms bind_close(1) [OF assms(1) bind that]] by blast
  then show ?thesis by (auto simp: proxy_main_def bind split: option.splits)
qed

lemma gcs_main_ends:
  assumes "posix_udp P opened" and "\<And>os. opened (snd (clock os)) = opened os" and "time_flows P clock time mail"
  shows "\<exists>r. gcs_main P A clock port D os = Some r"
proof -
  obtain ok udp os1 where bind: "UdpEndpoint_bind P new_UdpEndpoint port os = (ok, udp, os1)"
    by (cases "UdpEndpoint_bind P new_UdpEndpoint port os") auto
  have "\<exists>r. gcs_loop P A clock udp D (new_ground_station k) os1 = Some r" if ok for k
    using gcs_loop_ends [OF assms bind_close(1) [OF assms(1) bind that]] by blast
  then show ?thesis by (auto simp: gcs_main_def bind split: option.splits)
qed

section \<open>A network with a clock\<close>

record timed_net =
  tn_open :: "int list"
  tn_inbox :: "byte list list"
  tn_now :: nat

definition timed :: "timed_net posix" where
  "timed = \<lparr>
     os_socket = (\<lambda>n. let fd = foldr max (tn_open n) 0 + 1 in (fd, n\<lparr>tn_open := fd # tn_open n\<rparr>)),
     os_setsockopt = (\<lambda>fd n. (0, n)),
     os_bind = (\<lambda>fd a p n. (0, n)),
     os_inet_pton = (\<lambda>host. if host = ''127.0.0.1'' then (1, inaddr_loopback) else (0, 0)),
     os_sendto = (\<lambda>fd bs a p n. (int (length bs), n)),
     os_select = (\<lambda>fd s us n. if tn_inbox n = [] then (0, n\<lparr>tn_now := tn_now n + 1000 * s + us div 1000 + 1\<rparr>) else (1, n)),
     os_recvfrom = (\<lambda>fd buf cap n. case tn_inbox n of
         [] \<Rightarrow> ((- 1, buf), n)
       | dg # rest \<Rightarrow> let got = take (min cap (length buf)) dg
                     in ((int (length got), got @ drop (length got) buf), n\<lparr>tn_inbox := rest\<rparr>)),
     os_close = (\<lambda>fd n. (0, n\<lparr>tn_open := removeAll fd (tn_open n)\<rparr>))\<rparr>"

definition tn_clock :: "timed_net \<Rightarrow> u64 \<times> timed_net" where
  "tn_clock n = (of_nat (min (tn_now n) (2 ^ 64 - 1)), n)"

lemma timed_posix: "posix_udp timed (\<lambda>n. set (tn_open n))"
proof -
  have "foldr max xs 0 + 1 \<notin> set xs" "\<not> foldr max xs 0 + 1 < (0 :: int)" for xs :: "int list"
    using foldr_max_ge(1) [of _ xs] foldr_max_ge(2) [of xs] by fastforce+
  then show ?thesis
    unfolding posix_udp_def
    by (intro conjI allI)
       (simp_all add: timed_def Let_def min.coboundedI1 min.coboundedI2 split: list.split)
qed

lemma timed_flows: "time_flows timed tn_clock tn_now (\<lambda>n. length (tn_inbox n))"
  unfolding time_flows_def
  by (intro conjI allI) (simp_all add: timed_def tn_clock_def Let_def unat_of_nat take_bit_eq_mod split: list.split)

section \<open>Properties\<close>

text \<open>
  C16: What a run of the proxy service returns and prints, for every network, cipher and clock. It
  leaves no descriptor open. Exit codes 2 and 3 print nothing; otherwise the lines are the start
  line, then schema rejections and re-encryptions whose egress sequence numbers are 0, 1, 2 and so on
  without a gap, and then either the line of success (code 0, only after some such line), nothing if
  there was none (code 4), the one failed receive (code 4) or the one failed send (code 5). Exit code 8, a failed commit, never occurs.
\<close>

theorem proxy_run_outcome:
  assumes "posix_udp P opened" and "\<And>os. opened (snd (clock os)) = opened os"
    and "proxy_main P A clock ingress_port egress_port D os = Some (code, lines, os')"
  shows "opened os' = opened os \<and> (code \<in> {2, 3} \<and> lines = [] \<or>
    (\<exists>rest. lines = Proxy_ready ingress_port egress_port D # rest \<and> proxy_result D code rest))"
proof -
  obtain ok udp os1 where bind: "UdpEndpoint_bind P new_UdpEndpoint ingress_port os = (ok, udp, os1)"
    by (cases "UdpEndpoint_bind P new_UdpEndpoint ingress_port os") auto
  show ?thesis
    using assms(3) bind_close(2) [OF assms(1) bind] proxy_loop_outcome [OF assms(1,2)]
    by (fastforce simp: proxy_main_def bind split: option.splits if_splits)
qed

text \<open>
  What a run of the ground station returns and prints, for every network, cipher and clock. It
  leaves no descriptor open; exit codes 2 and 3 print nothing, and otherwise the code is 0 exactly
  if some state was printed, and 4 if not. Exit code 6, a failed commit, never occurs.
\<close>

theorem gcs_run_outcome:
  assumes "posix_udp P opened" and "\<And>os. opened (snd (clock os)) = opened os"
    and "gcs_main P A clock listen_port D os = Some (code, lines, os')"
  shows "opened os' = opened os \<and> (code \<in> {2, 3} \<and> lines = [] \<or>
    (\<exists>rest. lines = Gcs_ready listen_port D # rest \<and> gcs_result code rest))"
proof -
  obtain ok udp os1 where bind: "UdpEndpoint_bind P new_UdpEndpoint listen_port os = (ok, udp, os1)"
    by (cases "UdpEndpoint_bind P new_UdpEndpoint listen_port os") auto
  show ?thesis
    using assms(3) bind_close(2) [OF assms(1) bind] gcs_loop_outcome [OF assms(1,2)]
    by (fastforce simp: gcs_main_def bind split: option.splits if_splits)
qed

text \<open>
  The proxy service and the ground station end. If only finitely many datagrams are still to
  arrive and time passes while they wait for one, both programs return for every duration, cipher
  and port.
\<close>

theorem relay_programs_end:
  assumes "posix_udp P opened" and "\<And>os. opened (snd (clock os)) = opened os" and "time_flows P clock time mail"
  shows "(\<exists>r. proxy_main P A clock ingress_port egress_port D os = Some r) \<and>
    (\<exists>r. gcs_main P A clock listen_port D os = Some r)"
  using proxy_main_ends [OF assms] gcs_main_ends [OF assms] by blast

abbreviation short_mail :: timed_net where
  "short_mail \<equiv> \<lparr>tn_open = [], tn_inbox = [[1, 2, 3], [4]], tn_now = 0\<rparr>"

lemma tn_clock_open: "set (tn_open (snd (tn_clock n))) = set (tn_open n)"
  by (simp add: tn_clock_def)

theorem proxy_run_outcome_witness:
  "\<exists>code lines os'. proxy_main timed xor_ascon tn_clock 24660 24661 3000 short_mail = Some (code, lines, os') \<and>
     tn_open os' = [] \<and> (code \<in> {2, 3} \<and> lines = [] \<or>
       (\<exists>rest. lines = Proxy_ready 24660 24661 3000 # rest \<and> proxy_result 3000 code rest))"
proof -
  obtain code lines os' where run: "proxy_main timed xor_ascon tn_clock 24660 24661 3000 short_mail = Some (code, lines, os')"
    using proxy_main_ends [OF timed_posix tn_clock_open timed_flows, of xor_ascon 24660 24661 3000 short_mail] by auto
  then show ?thesis
    using proxy_run_outcome [OF timed_posix tn_clock_open run] by simp
qed

theorem gcs_run_outcome_witness:
  "\<exists>code lines os'. gcs_main timed xor_ascon tn_clock 24661 3000 short_mail = Some (code, lines, os') \<and>
     tn_open os' = [] \<and> (code \<in> {2, 3} \<and> lines = [] \<or>
       (\<exists>rest. lines = Gcs_ready 24661 3000 # rest \<and> gcs_result code rest))"
proof -
  obtain code lines os' where run: "gcs_main timed xor_ascon tn_clock 24661 3000 short_mail = Some (code, lines, os')"
    using gcs_main_ends [OF timed_posix tn_clock_open timed_flows, of xor_ascon 24661 3000 short_mail] by auto
  then show ?thesis
    using gcs_run_outcome [OF timed_posix tn_clock_open run] by simp
qed

theorem relay_programs_end_witness:
  "(\<exists>r. proxy_main timed xor_ascon tn_clock 24660 24661 3000 short_mail = Some r) \<and>
   (\<exists>r. gcs_main timed xor_ascon tn_clock 24661 3000 short_mail = Some r)"
  using relay_programs_end [OF timed_posix tn_clock_open timed_flows] by blast

end
