(* ===== verification/Px4_Probe.thy ===== *)
theory Px4_Probe
  imports Adapter Transport Loops "HOL-Library.Signed_Division"
begin

text \<open>
  The program \<^verbatim>\<open>apps/px4_adapter_probe.cpp\<close>: it sends a heartbeat and one allowlisted command to
  PX4 and waits up to three seconds for the acknowledgement. It uses the socket calls directly and
  the MAVLink library, parameters as in the transport and the adapter; the packing of the heartbeat
  and its three enumerators are the parameter \<open>heartbeat_lib\<close>. The clock counts nanoseconds. The
  numbers on the command line are arguments, read from its text in \<open>Programs\<close>. A negative timeout, which the program computes if the
  deadline passes between its two readings of the clock, is refused by \<^verbatim>\<open>select\<close> with -1.
\<close>

record ('m, 'g) heartbeat_lib =
  hb_type_gcs :: byte
  hb_autopilot_invalid :: byte
  hb_state_active :: byte
  hb_pack :: "byte \<Rightarrow> byte \<Rightarrow> byte \<Rightarrow> byte \<Rightarrow> byte \<Rightarrow> u32 \<Rightarrow> byte \<Rightarrow> 'g \<Rightarrow> 'm \<times> 'g"

section \<open>The program\<close>

datatype probe_line = Adapter_reject u16 | Ack_timeout u16 | Ack_pass u16 byte

definition default_ack :: CommandAck where
  "default_ack = \<lparr>ca_request_id = 0, ca_status = 0, ca_detail = 0, ca_reserved = 0, ca_result_code = 0\<rparr>"

record 'g probe =
  pb_buffer :: "byte list"
  pb_ack :: CommandAck
  pb_found :: bool
  pb_channel :: 'g

definition probe_request :: "u16 \<Rightarrow> CommandRequest" where
  "probe_request command = \<lparr>cr_request_id = 1, cr_command_id = command, cr_deadline_ms = 3000, cr_arg_count = 1,
     cr_args = [if command = 400 then 0x3F800000 else 0, 0, 0, 0, 0, 0, 0]\<rparr>"

definition probe_iteration ::
    "'o posix \<Rightarrow> ('m, 'g) mavlink \<Rightarrow> ('o \<Rightarrow> int \<times> 'o) \<Rightarrow> int \<Rightarrow> int \<Rightarrow> u16 \<Rightarrow> 'g probe \<Rightarrow> 'o \<Rightarrow>
     loop_exit \<times> 'g probe \<times> 'o" where
  "probe_iteration P M clock fd deadline command s os =
     (let (now, os) = clock os
      in if \<not> now < deadline then (Break, s, os)
         else
           let (now, os) = clock os;
               remaining = (deadline - now) sdiv 1000000;
               (ready, os) = (if remaining < 0 then (- 1, os)
                 else os_select P fd (nat (remaining div 1000)) (nat ((remaining mod 1000) * 1000)) os)
           in if ready \<le> 0 then (Break, s, os)
              else
                let ((received, buffer), os) = os_recvfrom P fd (pb_buffer s) 280 os;
                    s = s\<lparr>pb_buffer := buffer\<rparr>
                in if received \<le> 0 then (Break, s, os)
                   else
                     let (ack, g) = decode_command_ack M (Some buffer) (nat received) (pb_channel s);
                         s = s\<lparr>pb_channel := g, pb_ack := case_option default_ack id ack\<rparr>
                     in if ack \<noteq> None \<and> ca_result_code (pb_ack s) = ucast command
                        then (Break, s\<lparr>pb_found := True\<rparr>, os)
                        else (Continue, s, os))"

definition probe_body ::
    "'o posix \<Rightarrow> ('m, 'g) mavlink \<Rightarrow> ('o \<Rightarrow> int \<times> 'o) \<Rightarrow> int \<Rightarrow> int \<Rightarrow> u16 \<Rightarrow> 'g probe \<times> 'o \<Rightarrow>
     loop_exit \<times> 'g probe \<times> 'o" where
  "probe_body P M clock fd deadline command = (\<lambda>(s, os). probe_iteration P M clock fd deadline command s os)"

definition probe_finish :: "'g probe \<times> 'o \<Rightarrow> int \<times> 'g probe \<times> 'o" where
  "probe_finish = (\<lambda>(s, os). (if pb_found s then 0 else 6, s, os))"

definition px4_probe ::
    "'o posix \<Rightarrow> ('m, 'g) mavlink \<Rightarrow> ('m, 'g) heartbeat_lib \<Rightarrow> ('o \<Rightarrow> int \<times> 'o) \<Rightarrow> u16 \<Rightarrow> u16 \<Rightarrow> u16 \<Rightarrow> 'g \<Rightarrow> 'o \<Rightarrow>
     (int \<times> probe_line option \<times> 'g \<times> 'o) option" where
  "px4_probe P M L clock local_port px4_port command g os =
     (if \<not> command_allowed command then Some (0, Some (Adapter_reject command), g, os)
      else
        let (fd, os) = os_socket P os
        in if fd < 0 then Some (2, None, g, os)
           else
             let (rc, os) = os_bind P fd inaddr_loopback local_port os
             in if rc \<noteq> 0 then Some (3, None, g, snd (os_close P fd os))
                else
                  let (heartbeat, g) = hb_pack L 255 190 (hb_type_gcs L) (hb_autopilot_invalid L) 0 0 (hb_state_active L) g;
                      sent = ml_to_send_buffer M heartbeat;
                      buffer = put_at (replicate 280 0) 0 sent;
                      len = of_nat (length sent) :: u16;
                      os = snd (os_sendto P fd (take (unat len) buffer) inaddr_loopback px4_port os);
                      ((ok, frame), g) = encode_command_long M (probe_request command) 255 190 1 1 default_frame g
                  in if \<not> ok then Some (4, None, g, snd (os_close P fd os))
                     else
                       let (n, os) = os_sendto P fd (take (mf_length frame) (mf_bytes frame)) inaddr_loopback px4_port os
                       in if n \<noteq> int (mf_length frame) then Some (5, None, g, snd (os_close P fd os))
                          else
                            let (now, os) = clock os
                            in map_option
                                 (\<lambda>(code, s, os). (code,
                                    Some (if pb_found s then Ack_pass command (ca_status (pb_ack s)) else Ack_timeout command),
                                    pb_channel s, snd (os_close P fd os)))
                                 (run_loop (probe_body P M clock fd (now + 3000000000) command) probe_finish
                                   (\<lparr>pb_buffer = buffer, pb_ack = default_ack, pb_found = False, pb_channel = g\<rparr>, os)))"

section \<open>What the loop does\<close>

text \<open>An acknowledgement of the command in bytes that were received.\<close>

definition acknowledged :: "('m, 'g) mavlink \<Rightarrow> u16 \<Rightarrow> CommandAck \<Rightarrow> bool" where
  "acknowledged M command ack \<longleftrightarrow> (\<exists>bytes len g g'. 0 < len \<and> len \<le> 280 \<and>
     decode_command_ack M (Some bytes) len g = (Some ack, g') \<and> ca_result_code ack = ucast command)"

definition probe_inv ::
    "('m, 'g) mavlink \<Rightarrow> ('o \<Rightarrow> int set) \<Rightarrow> int set \<Rightarrow> u16 \<Rightarrow> 'g probe \<times> 'o \<Rightarrow> bool" where
  "probe_inv M opened base command = (\<lambda>(s, os). opened os = base \<and> (pb_found s \<longrightarrow> acknowledged M command (pb_ack s)))"

text \<open>
  Finitely many datagrams are still to arrive: \<open>mail\<close> counts them, reading the clock and waiting do
  not add any, and a \<^verbatim>\<open>recvfrom\<close> after a \<^verbatim>\<open>select\<close> that reports one takes it.
\<close>

definition finite_traffic :: "'o posix \<Rightarrow> ('o \<Rightarrow> int \<times> 'o) \<Rightarrow> ('o \<Rightarrow> nat) \<Rightarrow> bool" where
  "finite_traffic P clock mail \<longleftrightarrow> (\<forall>os. mail (snd (clock os)) \<le> mail os) \<and>
     (\<forall>fd s us os. mail (snd (os_select P fd s us os)) \<le> mail os) \<and>
     (\<forall>fd s us buf n os. 0 < fst (os_select P fd s us os) \<longrightarrow>
        mail (snd (os_recvfrom P fd buf n (snd (os_select P fd s us os)))) < mail (snd (os_select P fd s us os)))"

lemma decode_command_ack_length: "decode_command_ack M (Some b) n g = (Some ack, g') \<Longrightarrow> 0 < n \<and> n \<le> 280"
  by (auto simp: decode_command_ack_def split: if_splits)

lemma probe_iteration_cases:
  assumes "probe_iteration P M clock fd deadline command s os = (x, s', os')"
  obtains (stopped) "x = Break" "pb_found s' = pb_found s" "pb_ack s' = pb_ack s"
      "(\<forall>opened. posix_udp P opened \<and> (\<forall>os. opened (snd (clock os)) = opened os) \<longrightarrow> opened os' = opened os)"
  | (answered) sec usec buffer n ack g os1 found where "os1 = snd (clock (snd (clock os)))"
      "0 < fst (os_select P fd sec usec os1)"
      "os_recvfrom P fd (pb_buffer s) 280 (snd (os_select P fd sec usec os1)) = ((n, buffer), os')"
      "decode_command_ack M (Some buffer) (nat n) (pb_channel s) = (ack, g)"
      "found = (ack \<noteq> None \<and> ca_result_code (the ack) = ucast command)" "x = (if found then Break else Continue)"
      "pb_found s' = (pb_found s \<or> found)" "pb_ack s' = case_option default_ack id ack"
proof -
  obtain t0 os0 where c0: "clock os = (t0, os0)" by fastforce
  obtain now os1 where c1: "clock os0 = (now, os1)" by fastforce
  define rem where "rem = (deadline - now) sdiv 1000000"
  define sec usec where "sec = nat (rem div 1000)" and "usec = nat ((rem mod 1000) * 1000)"
  obtain ready os2 where sel: "os_select P fd sec usec os1 = (ready, os2)" by fastforce
  obtain n buffer os3 where rcv: "os_recvfrom P fd (pb_buffer s) 280 os2 = ((n, buffer), os3)" by (metis prod.collapse)
  obtain ack g where dec: "decode_command_ack M (Some buffer) (nat n) (pb_channel s) = (ack, g)" by fastforce
  define found where "found = (ack \<noteq> None \<and> ca_result_code (the ack) = ucast command)"
  define s1 where "s1 = s\<lparr>pb_buffer := buffer, pb_channel := g, pb_ack := case_option default_ack id ack\<rparr>"
  have it: "probe_iteration P M clock fd deadline command s os =
      (if \<not> t0 < deadline then (Break, s, os0)
       else if rem < 0 then (Break, s, os1)
       else if ready \<le> 0 then (Break, s, os2)
       else if n \<le> 0 then (Break, s\<lparr>pb_buffer := buffer\<rparr>, os3)
       else if found then (Break, s1\<lparr>pb_found := True\<rparr>, os3) else (Continue, s1, os3))"
    unfolding probe_iteration_def c0 c1 Let_def prod.case rem_def [symmetric] sec_def [symmetric] usec_def [symmetric] sel
    by (cases ack) (simp_all add: rcv dec s1_def found_def)
  show thesis
  proof (cases "\<not> t0 < deadline \<or> rem < 0 \<or> ready \<le> 0 \<or> n \<le> 0")
    case True
    have keep: "opened os0 = opened os" "opened os1 = opened os" "opened os2 = opened os" "opened os3 = opened os"
      if "posix_udp P opened" and clock: "\<forall>os. opened (snd (clock os)) = opened os" for opened
    proof -
      show 0: "opened os0 = opened os" using clock [rule_format, of os] by (simp add: c0)
      show 1: "opened os1 = opened os" using clock [rule_format, of os0] 0 by (simp add: c1)
      show 2: "opened os2 = opened os" using posix_udpD(6) [OF that(1), of fd sec usec os1] 1 by (simp add: sel)
      show "opened os3 = opened os" using posix_udpD(7) [OF that(1), of fd "pb_buffer s" 280 os2] 2 by (simp add: rcv)
    qed
    have res: "x = Break" "pb_found s' = pb_found s" "pb_ack s' = pb_ack s" "os' \<in> {os0, os1, os2, os3}"
      using True assms unfolding it by (auto split: if_splits)
    have "opened os' = opened os"
      if "posix_udp P opened" and "\<forall>os. opened (snd (clock os)) = opened os" for opened
      using keep [OF that] res(4) by auto
    then show thesis by (intro stopped [OF res(1-3)]) blast
  next
    case False
    then have res: "x = (if found then Break else Continue)" "s' = (if found then s1\<lparr>pb_found := True\<rparr> else s1)" "os' = os3"
      using assms unfolding it by (auto split: if_splits)
    show thesis
      by (rule answered [of os1 sec usec n buffer ack g found])
         (use False in \<open>simp_all add: c0 c1 sel rcv dec res s1_def found_def\<close>)
  qed
qed

lemma probe_pass:
  assumes posix: "posix_udp P opened" and clock: "\<And>os. opened (snd (clock os)) = opened os"
    and inv: "opened os = base" "\<not> pb_found s"
  shows "pass_ok probe_finish (\<lambda>(s, os). opened os = base \<and> \<not> pb_found s)
    (\<lambda>code (s, os). probe_inv M opened base command (s, os) \<and> code = (if pb_found s then 0 else 6))
    (probe_body P M clock fd deadline command (s, os))"
proof -
  obtain x s' os' where pass: "probe_iteration P M clock fd deadline command s os = (x, s', os')"
    by (cases "probe_iteration P M clock fd deadline command s os") auto
  have "x = Break \<and> probe_inv M opened base command (s', os') \<or> x = Continue \<and> opened os' = base \<and> \<not> pb_found s'"
    using pass
  proof (cases rule: probe_iteration_cases)
    case stopped
    then show ?thesis using inv posix clock by (auto simp: probe_inv_def)
  next
    case (answered sec usec buffer n ack g os1 found)
    have "opened os' = opened os"
      using posix_udpD(6,7) [OF posix] answered(1,3) clock by (metis snd_conv)
    moreover have "acknowledged M command (pb_ack s')" if hit: found
    proof -
      obtain a where a: "ack = Some a" "ca_result_code a = ucast command"
        using hit unfolding answered(5) by auto
      have "0 < nat n \<and> nat n \<le> 280" using decode_command_ack_length [OF answered(4) [unfolded a(1)]] .
      then have "acknowledged M command a" using answered(4) a unfolding acknowledged_def by blast
      then show ?thesis using answered(8) a by simp
    qed
    ultimately show ?thesis using inv answered(6,7) by (cases found) (simp_all add: probe_inv_def)
  qed
  then show ?thesis
    by (auto simp: probe_body_def pass probe_finish_def)
qed

lemma probe_pass_progress:
  assumes "finite_traffic P clock mail" and "probe_body P M clock fd deadline command (s, os) = (Continue, s', os')"
  shows "mail os' < mail os"
proof -
  have "probe_iteration P M clock fd deadline command s os = (Continue, s', os')"
    using assms(2) by (simp add: probe_body_def)
  then show ?thesis
  proof (cases rule: probe_iteration_cases)
    case (answered sec usec buffer n ack g os1 found)
    have "mail os' < mail (snd (os_select P fd sec usec os1))"
      using assms(1) answered(2,3) unfolding finite_traffic_def by (metis snd_conv)
    also have "\<dots> \<le> mail os1" using assms(1) unfolding finite_traffic_def by blast
    also have "\<dots> \<le> mail os" using assms(1) answered(1) unfolding finite_traffic_def by (meson order_trans)
    finally show ?thesis .
  qed simp
qed

lemma probe_loop_total:
  assumes "posix_udp P opened" and "\<And>os. opened (snd (clock os)) = opened os" and "finite_traffic P clock mail"
    and "\<not> pb_found s"
  shows "\<exists>code s' os'. run_loop (probe_body P M clock fd deadline command) probe_finish (s, os) = Some (code, s', os') \<and>
    probe_inv M opened (opened os) command (s', os') \<and> code = (if pb_found s' then 0 else 6)"
proof -
  let ?I = "\<lambda>(s, os'). opened os' = opened os \<and> \<not> pb_found s"
  let ?body = "probe_body P M clock fd deadline command"
  have start: "?I (s, os)" using assms(4) by simp
  have pass: "pass_ok probe_finish ?I (\<lambda>code (s, os'). probe_inv M opened (opened os) command (s, os') \<and>
      code = (if pb_found s then 0 else 6)) (?body x)" if "?I x" for x
    using probe_pass [OF assms(1,2), of "snd x" "opened os" "fst x"] that by (simp add: case_prod_beta)
  have "pass_ok probe_finish (\<lambda>y. ?I y \<and> mail (snd y) < mail (snd x)) (\<lambda>_ _. True) (?body x)" if "?I x" for x
    using pass [OF that] probe_pass_progress [OF assms(3), of M fd deadline command "fst x" "snd x"]
    by (auto simp: pass_ok_def split: loop_exit.splits prod.splits)
  from loops.loop_ends [where I = ?I, OF start this]
  obtain code r where run: "run_loop ?body probe_finish (s, os) = Some (code, r)" by blast
  from loops.loop_outcome [where I = ?I, OF run start pass] show ?thesis
    using run by (cases r) auto
qed

section \<open>Properties\<close>

lemma probe_request_forwardable: "command_allowed command \<Longrightarrow> command_forwardable (probe_request command)"
  by (auto simp: command_forwardable_def probe_request_def kMaxArgs_def isfinite_def)

text \<open>The exit code and the line a run of the probe may end with.\<close>

definition probe_result :: "('m, 'g) mavlink \<Rightarrow> u16 \<Rightarrow> int \<Rightarrow> probe_line option \<Rightarrow> bool" where
  "probe_result M command code line \<longleftrightarrow>
     code \<in> {2, 3, 5} \<and> line = None \<or> code = 6 \<and> line = Some (Ack_timeout command) \<or>
     code = 0 \<and> (\<exists>ack. line = Some (Ack_pass command (ca_status ack)) \<and> acknowledged M command ack)"

text \<open>
  C40: What the probe does. If finitely many datagrams are still to arrive it ends. A command that is
  not allowlisted is rejected before any call of the system or of the MAVLink library. For any other
  it leaves no descriptor open, encoding the command never fails (exit code 4 never occurs), and it
  reports success, with the status of the acknowledgement, only if a received datagram was decoded
  as an acknowledgement of that command.
\<close>

theorem px4_probe_outcome:
  assumes posix: "posix_udp P opened" and clock: "\<And>os. opened (snd (clock os)) = opened os"
    and traffic: "finite_traffic P clock mail" and frames: "frames_bounded M"
  shows "\<exists>code line g' os'. px4_probe P M L clock local_port px4_port command g os = Some (code, line, g', os') \<and>
    opened os' = opened os \<and>
    (if command_allowed command then probe_result M command code line
     else code = 0 \<and> line = Some (Adapter_reject command) \<and> g' = g \<and> os' = os)"
proof (cases "command_allowed command")
  case False
  then show ?thesis by (simp add: px4_probe_def)
next
  case True
  obtain fd os1 where sock: "os_socket P os = (fd, os1)" by fastforce
  obtain rc os2 where bind: "os_bind P fd inaddr_loopback local_port os1 = (rc, os2)" by fastforce
  obtain hb g1 where pack: "hb_pack L 255 190 (hb_type_gcs L) (hb_autopilot_invalid L) 0 0 (hb_state_active L) g = (hb, g1)"
    by fastforce
  define buffer where "buffer = put_at (replicate 280 0) 0 (ml_to_send_buffer M hb)"
  define os3 where "os3 = snd (os_sendto P fd (take (unat (of_nat (length (ml_to_send_buffer M hb)) :: u16)) buffer)
    inaddr_loopback px4_port os2)"
  have size: "length (mf_bytes default_frame) = 280" by (simp add: default_frame_def)
  have ids: "(255 :: byte) \<noteq> 0" "(190 :: byte) \<noteq> 0" "(1 :: byte) \<noteq> 0" by simp_all
  obtain frame g2 where enc: "encode_command_long M (probe_request command) 255 190 1 1 default_frame g1 = ((True, frame), g2)"
    by (rule encode_command_long_ok [OF frames size probe_request_forwardable [OF True] ids(1,2,3,3)])
  obtain n os4 where snd: "os_sendto P fd (take (mf_length frame) (mf_bytes frame)) inaddr_loopback px4_port os3 = (n, os4)"
    by fastforce
  obtain now os5 where tick: "clock os4 = (now, os5)" by fastforce
  let ?s = "\<lparr>pb_buffer = buffer, pb_ack = default_ack, pb_found = False, pb_channel = g2\<rparr>"
  obtain code s' os6 where loop: "run_loop (probe_body P M clock fd (now + 3000000000) command) probe_finish (?s, os5) =
      Some (code, s', os6)" and inv: "probe_inv M opened (opened os5) command (s', os6)"
    and code: "code = (if pb_found s' then 0 else 6)"
    using probe_loop_total [OF posix clock traffic, of ?s M fd "now + 3000000000" command os5] by auto
  have run: "px4_probe P M L clock local_port px4_port command g os =
      (if fd < 0 then Some (2, None, g, os1)
       else if rc \<noteq> 0 then Some (3, None, g, snd (os_close P fd os2))
       else if n \<noteq> int (mf_length frame) then Some (5, None, g2, snd (os_close P fd os4))
       else Some (code, Some (if pb_found s' then Ack_pass command (ca_status (pb_ack s')) else Ack_timeout command),
              pb_channel s', snd (os_close P fd os6)))"
    unfolding px4_probe_def sock bind pack Let_def prod.case buffer_def [symmetric] os3_def [symmetric] enc snd tick loop
    using True by simp
  have opened: "opened os2 = opened os1" "opened os4 = opened os2" "opened os6 = opened os4"
    using posix_udpD(4) [OF posix, of fd inaddr_loopback local_port os1] posix_udpD(5) [OF posix] bind snd inv
      clock [of os4] tick by (simp_all add: os3_def probe_inv_def) (metis snd_conv)+
  have closed: "opened (snd (os_close P fd q)) = opened os" if "\<not> fd < 0" "opened q = opened os1" for q
    using posix_udpD(2) [OF posix _ sock] posix_udpD(10) [OF posix, of fd q] that by simp
  have "probe_result M command code (Some (if pb_found s' then Ack_pass command (ca_status (pb_ack s')) else Ack_timeout command))"
    using inv code by (auto simp: probe_result_def probe_inv_def)
  then show ?thesis
    using run True closed opened posix_udpD(1) [OF posix _ sock] by (auto simp: probe_result_def)
qed

definition quiet_heartbeat :: "(byte, unit) heartbeat_lib" where
  "quiet_heartbeat = \<lparr>hb_type_gcs = 6, hb_autopilot_invalid = 8, hb_state_active = 4,
     hb_pack = (\<lambda>sys comp type pilot mode custom status g. (0, g))\<rparr>"

lemma loopback_finite_traffic: "finite_traffic loopback (\<lambda>n. (0, n)) (\<lambda>n. length (ln_mail n))"
  by (auto simp: finite_traffic_def loopback_def Let_def length_remove1 dest!: map_of_SomeD length_pos_if_in_set
    split: option.splits)

theorem px4_probe_outcome_witness:
  "\<exists>code line g' os'. px4_probe loopback byte_lib quiet_heartbeat (\<lambda>n. (0, n)) 14540 14580 400 ()
       \<lparr>ln_sockets = [], ln_mail = [(14540, [77])]\<rparr> = Some (code, line, g', os') \<and>
     ln_sockets os' = [] \<and> probe_result byte_lib 400 code line"
proof -
  have "frames_bounded byte_lib" by (simp add: frames_bounded_def byte_lib_def)
  from px4_probe_outcome [OF loopback_posix _ loopback_finite_traffic this]
  show ?thesis by (force simp: ln_opened_def command_allowed_def)
qed

end
