(* ===== verification/Command_Line.thy ===== *)
theory Command_Line
  imports NM_Prelude
begin

text \<open>
  What the programs under \<^verbatim>\<open>apps/\<close> use of the C library to read their command line and to print
  numbers: \<^verbatim>\<open>strtoul\<close> and \<^verbatim>\<open>strtoull\<close> in base 10 and the conversions \<^verbatim>\<open>%u\<close>, \<^verbatim>\<open>%zu\<close>,
  \<^verbatim>\<open>%llu\<close> and \<^verbatim>\<open>%d\<close> of \<^verbatim>\<open>printf\<close>. Both types \<^verbatim>\<open>unsigned long\<close> and
  \<^verbatim>\<open>unsigned long long\<close> have 64 bits (the LP64 targets of the project), so the two functions are one
  definition. White space before the number is skipped, one sign may follow, the digits end
  at the first other character, a text without digits is read as 0, a value that does not fit is
  read as the largest number, and a minus sign negates within the unsigned type.
\<close>

section \<open>Reading and printing numbers\<close>

definition isspace :: "char \<Rightarrow> bool" where
  "isspace c \<longleftrightarrow> c = CHR '' '' \<or> (9 \<le> (of_char c :: nat) \<and> (of_char c :: nat) \<le> 13)"

definition isdigit :: "char \<Rightarrow> bool" where
  "isdigit c \<longleftrightarrow> 48 \<le> (of_char c :: nat) \<and> (of_char c :: nat) \<le> 57"

definition digits_value :: "string \<Rightarrow> nat" where
  "digits_value ds = foldl (\<lambda>v c. 10 * v + (of_char c - 48)) 0 ds"

definition strtoull :: "string \<Rightarrow> u64" where
  "strtoull s =
     (let s = dropWhile isspace s;
          negative = (s \<noteq> [] \<and> hd s = CHR ''-'');
          s = (if s \<noteq> [] \<and> (hd s = CHR ''-'' \<or> hd s = CHR ''+'') then tl s else s);
          v = digits_value (takeWhile isdigit s)
      in if v \<ge> 2 ^ 64 then - 1 else if negative then - of_nat v else of_nat v)"

fun decimal :: "nat \<Rightarrow> string" where
  "decimal n = (if n \<ge> 10 then decimal (n div 10) else []) @ [char_of (48 + n mod 10)]"

declare decimal.simps [simp del]

definition decimal_int :: "int \<Rightarrow> string" where
  "decimal_int i = (if i < 0 then CHR ''-'' # decimal (nat (- i)) else decimal (nat i))"

section \<open>Arguments\<close>

text \<open>
  The arguments as the programs read them: \<open>argv\<close> has the name of the program at index 0 and its
  length is \<^verbatim>\<open>argc\<close>. A port is cast to 16 bits.
\<close>

definition port_argument :: "string list \<Rightarrow> nat \<Rightarrow> u16 \<Rightarrow> u16" where
  "port_argument argv i fallback = (if length argv > i then ucast (strtoull (argv ! i)) else fallback)"

definition duration_argument :: "string list \<Rightarrow> nat \<Rightarrow> u64 \<Rightarrow> u64" where
  "duration_argument argv i fallback = (if length argv > i then strtoull (argv ! i) else fallback)"

section \<open>What is printed is read back\<close>

lemma digit_char: "d < 10 \<Longrightarrow> isdigit (char_of (48 + d)) \<and> of_char (char_of (48 + d) :: char) - 48 = d" for d :: nat
  by (simp add: isdigit_def)

lemma digit_chars:
  "char_of (48 :: nat) = CHR ''0''" "char_of (49 :: nat) = CHR ''1''" "char_of (50 :: nat) = CHR ''2''"
  "char_of (51 :: nat) = CHR ''3''" "char_of (52 :: nat) = CHR ''4''" "char_of (53 :: nat) = CHR ''5''"
  "char_of (54 :: nat) = CHR ''6''" "char_of (55 :: nat) = CHR ''7''" "char_of (56 :: nat) = CHR ''8''"
  "char_of (57 :: nat) = CHR ''9''"
  by (simp_all add: char_of_def bit_0)

lemmas decimal_eval = decimal.simps digit_chars decimal_int_def

lemma decimal_digits: "list_all isdigit (decimal n)"
  by (induction n rule: decimal.induct) (subst decimal.simps, simp add: digit_char)

lemma decimal_nonempty [simp]: "decimal n \<noteq> []"
  by (simp add: decimal.simps)

lemma digits_value_decimal: "digits_value (decimal n) = n"
proof (induction n rule: decimal.induct)
  case (1 n)
  have "digits_value (ds @ [char_of (48 + n mod 10)]) = 10 * digits_value ds + n mod 10" for ds
    using digit_char [of "n mod 10"] by (simp add: digits_value_def)
  with 1 show ?case
    by (subst decimal.simps) (auto simp: digits_value_def [of "[]"])
qed

lemma digit_no_sign: "isdigit c \<Longrightarrow> c \<noteq> CHR ''-'' \<and> c \<noteq> CHR ''+'' \<and> \<not> isspace c"
  by (auto simp: isdigit_def isspace_def)

lemma takeWhile_digits: "list_all isdigit ds \<Longrightarrow> rest = [] \<or> \<not> isdigit (hd rest) \<Longrightarrow> takeWhile isdigit (ds @ rest) = ds"
  by (cases rest) (auto simp: list_all_iff takeWhile_append)

text \<open>Any run of digits: the value, saturated at the largest 64-bit number.\<close>

lemma strtoull_digits:
  assumes "list_all isspace w" and "list_all isdigit ds" "ds \<noteq> []" and "rest = [] \<or> \<not> isdigit (hd rest)"
  shows "strtoull (w @ ds @ rest) = (if digits_value ds \<ge> 2 ^ 64 then - 1 else of_nat (digits_value ds))"
    and "strtoull (w @ CHR ''+'' # ds @ rest) = (if digits_value ds \<ge> 2 ^ 64 then - 1 else of_nat (digits_value ds))"
    and "strtoull (w @ CHR ''-'' # ds @ rest) = (if digits_value ds \<ge> 2 ^ 64 then - 1 else - of_nat (digits_value ds))"
proof -
  obtain d ds' where ds: "ds = d # ds'" "isdigit d" using assms(2,3) by (cases ds) auto
  have skip: "dropWhile isspace (w @ c # r) = c # r" if "\<not> isspace c" for c r
    using assms(1) that by (simp add: list_all_iff dropWhile_append3 dropWhile_eq_Nil_conv dropWhile_append)
  have signs: "\<not> isspace (CHR ''+'')" "\<not> isspace (CHR ''-'')" by (simp_all add: isspace_def)
  note tw = takeWhile_digits [OF assms(2,4)]
  show "strtoull (w @ ds @ rest) = (if digits_value ds \<ge> 2 ^ 64 then - 1 else of_nat (digits_value ds))"
    using skip [of d "ds' @ rest"] digit_no_sign [OF ds(2)] tw by (simp add: strtoull_def ds(1))
  show "strtoull (w @ CHR ''+'' # ds @ rest) = (if digits_value ds \<ge> 2 ^ 64 then - 1 else of_nat (digits_value ds))"
    "strtoull (w @ CHR ''-'' # ds @ rest) = (if digits_value ds \<ge> 2 ^ 64 then - 1 else - of_nat (digits_value ds))"
    using skip signs tw by (simp_all add: strtoull_def)
qed

lemma strtoull_decimal: "n < 2 ^ 64 \<Longrightarrow> strtoull (decimal n) = of_nat n"
  using strtoull_digits(1) [of "[]" "decimal n" "[]"] by (simp add: decimal_digits digits_value_decimal)

lemma strtoull_no_digits:
  "\<not> (\<exists>c \<in> set s. isdigit c) \<Longrightarrow> strtoull s = 0"
proof -
  assume none: "\<not> (\<exists>c \<in> set s. isdigit c)"
  have "takeWhile isdigit t = []" if "set t \<subseteq> set s" for t
    using none that by (cases t) auto
  moreover have "set (tl (dropWhile isspace s)) \<subseteq> set s" "set (dropWhile isspace s) \<subseteq> set s"
    using set_dropWhileD [of _ isspace s] list.set_sel(2) [of "dropWhile isspace s"]
    by (cases "dropWhile isspace s"; auto)+
  ultimately show ?thesis by (simp add: strtoull_def Let_def digits_value_def)
qed

lemma duration_argument_decimal:
  "i < length argv \<Longrightarrow> argv ! i = decimal (unat d) \<Longrightarrow> duration_argument argv i fallback = d"
proof -
  have "unat d < 2 ^ 64" using unsigned_less [where 'a = nat, of d] by simp
  then show "i < length argv \<Longrightarrow> argv ! i = decimal (unat d) \<Longrightarrow> duration_argument argv i fallback = d"
    by (simp add: duration_argument_def strtoull_decimal)
qed

text \<open>A port is read modulo 2 to the power 16.\<close>

lemma port_argument_decimal:
  "i < length argv \<Longrightarrow> argv ! i = decimal n \<Longrightarrow> n < 2 ^ 64 \<Longrightarrow> port_argument argv i fallback = of_nat n"
proof -
  have "ucast (of_nat n :: u64) = (of_nat n :: u16)"
    by (rule bit_word_eqI) (simp add: bit_simps)
  then show "i < length argv \<Longrightarrow> argv ! i = decimal n \<Longrightarrow> n < 2 ^ 64 \<Longrightarrow> port_argument argv i fallback = of_nat n"
    by (simp add: port_argument_def strtoull_decimal)
qed

end
