(* ===== verification/Programs.thy ===== *)
theory Programs
  imports Command_Line Service_Runs Px4_Probe
begin

text \<open>
  The programs under \<^verbatim>\<open>apps/\<close> from their command line to their standard output. A program takes
  \<open>argv\<close>, the name of the program and the arguments, reads its numbers, runs its \<^verbatim>\<open>main\<close>
  and prints: the result is the exit code, the text on standard output and the system afterwards, or
  \<open>None\<close> if it never ends. The text of each line is the format string of its \<^verbatim>\<open>printf\<close> with the
  arguments filled in.
\<close>

section \<open>The text of a line\<close>

abbreviation newline :: string where
  "newline \<equiv> [CHR 0x0A]"

abbreviation dec :: "'a::len word \<Rightarrow> string" where
  "dec w \<equiv> decimal (unat w)"

fun RecordError_u8 :: "RecordError \<Rightarrow> nat" where
  "RecordError_u8 RE_None = 0"
| "RecordError_u8 RE_InvalidHeader = 1"
| "RecordError_u8 RE_InvalidKeys = 2"
| "RecordError_u8 RE_InvalidLength = 3"
| "RecordError_u8 RE_AuthenticationFailed = 4"
| "RecordError_u8 RE_Replay = 5"
| "RecordError_u8 RE_Expired = 6"
| "RecordError_u8 RE_SequenceExhausted = 7"
| "RecordError_u8 RE_InvalidPayload = 8"
| "RecordError_u8 RE_Timeout = 9"

fun kind_text :: "PublishKind \<Rightarrow> string" where
  "kind_text HelpfulSnapshot = ''HELPFUL_SNAPSHOT''"
| "kind_text OnChange = ''ON_CHANGE''"

fun vehicle_text :: "vehicle_line \<Rightarrow> string" where
  "vehicle_text (Vehicle_ready listen_port peer_port duration_ms) =
     ''NEWMAVLINK_VEHICLE_READY source_udp='' @ dec listen_port @ '' proxy_udp='' @ dec peer_port @
     '' duration_ms='' @ dec duration_ms @ newline"
| "vehicle_text (Vehicle_publish (kind, type, now_ms)) =
     ''NEWMAVLINK_VEHICLE_PUBLISH kind='' @ kind_text kind @ '' type='' @ dec (MessageType_u8 type) @
     '' now_ms='' @ dec now_ms @ newline"
| "vehicle_text (Vehicle_send_fail err) =
     ''NEWMAVLINK_VEHICLE_SEND_FAIL error='' @ decimal (RecordError_u8 err) @ newline"
| "vehicle_text Vehicle_snapshot = ''NEWMAVLINK_VEHICLE_SNAPSHOT=PASS generation=1'' @ newline"
| "vehicle_text (Vehicle_stream duration_ms) =
     ''NEWMAVLINK_VEHICLE_STREAM=PASS duration_ms='' @ dec duration_ms @ newline"

fun demo_text :: "demo_line \<Rightarrow> string" where
  "demo_text (type, kind, flags, len, now) =
     ''NEWMAVLINK_PUBLISH type='' @ dec (MessageType_u8 type) @ '' kind='' @ kind_text kind @ '' flags='' @ dec flags @
     '' length='' @ decimal len @ '' now_ms='' @ dec now @ newline"

fun proxy_text :: "proxy_line \<Rightarrow> string" where
  "proxy_text (Proxy_ready ingress_port egress_port duration_ms) =
     ''NEWMAVLINK_PROXY_READY ingress='' @ dec ingress_port @ '' egress='' @ dec egress_port @
     '' duration_ms='' @ dec duration_ms @ '' session_termination=enabled'' @ newline"
| "proxy_text (Ingress_fail err) = ''NEWMAVLINK_PROXY_INGRESS_FAIL error='' @ decimal (RecordError_u8 err) @ newline"
| "proxy_text Schema_reject = ''NEWMAVLINK_PROXY_SCHEMA_REJECT=PASS'' @ newline"
| "proxy_text (Commit_fail err) = ''NEWMAVLINK_PROXY_COMMIT_FAIL error='' @ decimal (RecordError_u8 err) @ newline"
| "proxy_text (Egress_fail err) = ''NEWMAVLINK_PROXY_EGRESS_FAIL error='' @ decimal (RecordError_u8 err) @ newline"
| "proxy_text (Reencrypt type n sequence) =
     ''NEWMAVLINK_PROXY_REENCRYPT=PASS type='' @ dec (MessageType_u8 type) @ '' bytes='' @ decimal n @
     '' sequence='' @ dec sequence @ newline"
| "proxy_text (Proxy_stream duration_ms) =
     ''NEWMAVLINK_PROXY_STREAM=PASS duration_ms='' @ dec duration_ms @ newline"

fun gcs_text :: "gcs_line \<Rightarrow> string" where
  "gcs_text (Gcs_ready listen_port duration_ms) =
     ''NEWMAVLINK_GCS_READY native_udp='' @ dec listen_port @ '' duration_ms='' @ dec duration_ms @ newline"
| "gcs_text (Gcs_receive_fail err) =
     ''NEWMAVLINK_GCS_RECEIVE_FAIL error='' @ decimal (RecordError_u8 err) @ newline"
| "gcs_text (Gcs_position v) =
     ''NEWMAVLINK_GCS_STATE=PASS type=Position generation='' @ dec (sm_generation (p_meta v)) @
     '' lat='' @ decimal_int (sint (p_latitude_e7 v)) @ '' lon='' @ decimal_int (sint (p_longitude_e7 v)) @
     '' alt_mm='' @ decimal_int (sint (p_altitude_mm v)) @ newline"
| "gcs_text (Gcs_attitude v) =
     ''NEWMAVLINK_GCS_STATE=PASS type=Attitude generation='' @ dec (sm_generation (a_meta v)) @
     '' roll='' @ decimal_int (sint (a_roll_urad v)) @ '' pitch='' @ decimal_int (sint (a_pitch_urad v)) @
     '' yaw='' @ decimal_int (sint (a_yaw_urad v)) @ newline"
| "gcs_text (Gcs_battery v) =
     ''NEWMAVLINK_GCS_STATE=PASS type=Battery generation='' @ dec (sm_generation (b_meta v)) @
     '' voltage_mv='' @ dec (b_voltage_mv v) @ '' remaining_permille='' @ dec (b_remaining_permille v) @ newline"
| "gcs_text (Gcs_schema_reject type) =
     ''NEWMAVLINK_GCS_SCHEMA_REJECT=PASS type='' @ dec (MessageType_u8 type) @ newline"
| "gcs_text (Gcs_commit_fail err) =
     ''NEWMAVLINK_GCS_COMMIT_FAIL error='' @ decimal (RecordError_u8 err) @ newline"
| "gcs_text (Gcs_snapshot count) = ''NEWMAVLINK_GCS_SNAPSHOT=PASS count='' @ decimal count @ newline"
| "gcs_text (Gcs_stream count duration_ms) =
     ''NEWMAVLINK_GCS_STREAM=PASS count='' @ decimal count @ '' duration_ms='' @ dec duration_ms @ newline"

fun probe_text :: "probe_line \<Rightarrow> string" where
  "probe_text (Adapter_reject command) = ''NEWMAVLINK_PX4_ADAPTER_REJECT=PASS command='' @ dec command @ newline"
| "probe_text (Ack_timeout command) =
     ''NEWMAVLINK_PX4_ADAPTER_ACK=TIMEOUT_OR_INVALID command='' @ dec command @ newline"
| "probe_text (Ack_pass command status) =
     ''NEWMAVLINK_PX4_ADAPTER_ACK=PASS command='' @ dec command @ '' status='' @ dec status @ newline"

section \<open>The programs\<close>

definition printed :: "('l \<Rightarrow> string) \<Rightarrow> (int \<times> 'l list \<times> 'o) option \<Rightarrow> (int \<times> string \<times> 'o) option" where
  "printed text r = map_option (\<lambda>(code, lines, os). (code, concat (map text lines), os)) r"

definition vehicle_program ::
    "'o posix \<Rightarrow> ascon \<Rightarrow> string list \<Rightarrow> 'o \<Rightarrow> (int \<times> string \<times> 'o) option" where
  "vehicle_program P A argv os =
     (let listen_port = port_argument argv 1 0;
          peer_port = port_argument argv 2 24660;
          duration_ms = duration_argument argv 3 0
      in printed vehicle_text (vehicle_main P A listen_port peer_port duration_ms os))"

definition proxy_program ::
    "'o posix \<Rightarrow> ascon \<Rightarrow> ('o \<Rightarrow> u64 \<times> 'o) \<Rightarrow> string list \<Rightarrow> 'o \<Rightarrow> (int \<times> string \<times> 'o) option" where
  "proxy_program P A clock argv os =
     (let ingress_port = port_argument argv 1 24660;
          egress_port = port_argument argv 2 24661;
          duration_ms = duration_argument argv 3 0
      in printed proxy_text (proxy_main P A clock ingress_port egress_port duration_ms os))"

definition gcs_program ::
    "'o posix \<Rightarrow> ascon \<Rightarrow> ('o \<Rightarrow> u64 \<times> 'o) \<Rightarrow> string list \<Rightarrow> 'o \<Rightarrow> (int \<times> string \<times> 'o) option" where
  "gcs_program P A clock argv os =
     (let listen_port = port_argument argv 1 24661;
          duration_ms = duration_argument argv 2 0
      in printed gcs_text (gcs_main P A clock listen_port duration_ms os))"

definition px4_probe_program ::
    "'o posix \<Rightarrow> ('m, 'g) mavlink \<Rightarrow> ('m, 'g) heartbeat_lib \<Rightarrow> ('o \<Rightarrow> int \<times> 'o) \<Rightarrow> string list \<Rightarrow> 'g \<Rightarrow> 'o \<Rightarrow>
     (int \<times> string \<times> 'g \<times> 'o) option" where
  "px4_probe_program P M L clock argv g os =
     (let local_port = port_argument argv 1 14540;
          px4_port = port_argument argv 2 14580;
          command = port_argument argv 3 400
      in map_option (\<lambda>(code, line, g, os). (code, case_option [] probe_text line, g, os))
           (px4_probe P M L clock local_port px4_port command g os))"

definition publisher_demo_program :: "int \<times> string" where
  "publisher_demo_program = (0, concat (map demo_text publisher_demo))"

section \<open>Command lines\<close>

text \<open>
  A program started with numbers in decimal runs with these numbers; a port above 65535 is taken
  modulo 65536, and trailing arguments that are left out have their defaults.
\<close>

lemma vehicle_program_args:
  assumes "m < 2 ^ 64" "n < 2 ^ 64"
  shows "vehicle_program P A [name, decimal m, decimal n, dec d] os = printed vehicle_text (vehicle_main P A (of_nat m) (of_nat n) d os)"
    and "vehicle_program P A [name] os = printed vehicle_text (vehicle_main P A 0 24660 0 os)"
proof -
  let ?argv = "[name, decimal m, decimal n, dec d]"
  have "port_argument ?argv 1 0 = of_nat m" "port_argument ?argv 2 24660 = of_nat n" "duration_argument ?argv 3 0 = d"
    using port_argument_decimal [of 1 ?argv m] port_argument_decimal [of 2 ?argv n] duration_argument_decimal [of 3 ?argv d]
      assms by simp_all
  then show "vehicle_program P A ?argv os = printed vehicle_text (vehicle_main P A (of_nat m) (of_nat n) d os)"
    by (simp add: vehicle_program_def)
  show "vehicle_program P A [name] os = printed vehicle_text (vehicle_main P A 0 24660 0 os)"
    by (simp add: vehicle_program_def port_argument_def duration_argument_def)
qed

lemma proxy_program_args:
  assumes "m < 2 ^ 64" "n < 2 ^ 64"
  shows "proxy_program P A clock [name, decimal m, decimal n, dec d] os =
    printed proxy_text (proxy_main P A clock (of_nat m) (of_nat n) d os)"
proof -
  let ?argv = "[name, decimal m, decimal n, dec d]"
  have "port_argument ?argv 1 24660 = of_nat m" "port_argument ?argv 2 24661 = of_nat n" "duration_argument ?argv 3 0 = d"
    using port_argument_decimal [of 1 ?argv m] port_argument_decimal [of 2 ?argv n] duration_argument_decimal [of 3 ?argv d]
      assms by simp_all
  then show ?thesis by (simp add: proxy_program_def)
qed

lemma gcs_program_args:
  assumes "m < 2 ^ 64"
  shows "gcs_program P A clock [name, decimal m, dec d] os = printed gcs_text (gcs_main P A clock (of_nat m) d os)"
proof -
  let ?argv = "[name, decimal m, dec d]"
  have "port_argument ?argv 1 24661 = of_nat m" "duration_argument ?argv 2 0 = d"
    using port_argument_decimal [of 1 ?argv m] duration_argument_decimal [of 2 ?argv d] assms by simp_all
  then show ?thesis by (simp add: gcs_program_def)
qed

lemma printed_Some: "printed text r = Some (code, out, os) \<longleftrightarrow> (\<exists>lines. r = Some (code, lines, os) \<and> out = concat (map text lines))"
  by (auto simp: printed_def)

lemma printed_ends: "\<exists>r. m = Some r \<Longrightarrow> \<exists>r. printed text m = Some r"
  by (auto simp: printed_def)

text \<open>
  C17: The programs end, whatever the command line. If only finitely many datagrams are still to
  arrive and time passes while a program waits for one, the proxy service and the ground station
  return for every text of the arguments, and so does the vehicle, with exit code 0, 2, 3 or 5,
  unless the text of its duration reads as a number within 100 ms of the largest 64-bit number (such as
  "-1"), where the time of its loop could wrap around.
\<close>

theorem programs_end:
  assumes "posix_udp P opened" and "\<And>os. opened (snd (clock os)) = opened os" and "time_flows P clock time mail"
  shows "(duration_argument argv 3 0 \<le> - 100 \<longrightarrow>
      (\<exists>code text os'. vehicle_program P A argv os = Some (code, text, os') \<and> code \<in> {0, 2, 3, 5})) \<and>
    (\<exists>r. proxy_program P A clock argv os = Some r) \<and> (\<exists>r. gcs_program P A clock argv os = Some r)"
proof (intro conjI impI)
  assume "duration_argument argv 3 0 \<le> - 100"
  from vehicle_main_terminates [OF this, of P A "port_argument argv 1 0" "port_argument argv 2 24660" os]
  show "\<exists>code text os'. vehicle_program P A argv os = Some (code, text, os') \<and> code \<in> {0, 2, 3, 5}"
    by (auto simp: vehicle_program_def printed_Some)
next
  show "\<exists>r. proxy_program P A clock argv os = Some r" "\<exists>r. gcs_program P A clock argv os = Some r"
    unfolding proxy_program_def gcs_program_def Let_def
    using proxy_main_ends [OF assms] gcs_main_ends [OF assms] by (blast intro: printed_ends)+
qed

theorem programs_end_witness:
  "(\<exists>code text os'. vehicle_program timed xor_ascon [''app'', ''24660'', ''24661'', '' 3000 ms''] short_mail =
      Some (code, text, os') \<and> code \<in> {0, 2, 3, 5}) \<and>
   (\<exists>r. proxy_program timed xor_ascon tn_clock [''app'', ''24660'', ''24661'', '' 3000 ms''] short_mail = Some r) \<and>
   (\<exists>r. gcs_program timed xor_ascon tn_clock [''app'', ''24660'', ''24661'', '' 3000 ms''] short_mail = Some r)"
proof -
  have "duration_argument [''app'', ''24660'', ''24661'', '' 3000 ms''] 3 0 = 3000"
    by (simp add: duration_argument_def strtoull_def isspace_def isdigit_def digits_value_def)
  then have "duration_argument [''app'', ''24660'', ''24661'', '' 3000 ms''] 3 0 \<le> - 100" by simp
  with programs_end [OF timed_posix tn_clock_open timed_flows,
      where argv = "[''app'', ''24660'', ''24661'', '' 3000 ms'']" and A = xor_ascon and os = short_mail]
  show ?thesis by blast
qed

end
