(* ===== verification/System_Run.thy ===== *)
theory System_Run
  imports Programs
begin

text \<open>
  The three programs together. The network between two programs is described by what one program
  sees of it, the datagrams waiting for it, those it has sent, and the time since it started; the
  locale \<open>mail_network\<close> says how the system calls act on that view. On such a network a whole
  run of the vehicle, then of the proxy service on what the vehicle sent, then of the ground station
  on what the proxy sent, takes every published state to the standard output of the ground station.
\<close>

section \<open>Streams of records\<close>

text \<open>A window that has only seen sequence numbers below \<open>q\<close>.\<close>

definition fresh_from :: "ReplayWindow \<Rightarrow> u64 \<Rightarrow> bool" where
  "fresh_from w q \<longleftrightarrow> (rw_initialized w \<longrightarrow> rw_high_water w < q)"

lemma fresh_from_accepted: "fresh_from w q \<Longrightarrow> ReplayWindow_accepted w q"
  by (simp add: fresh_from_def ReplayWindow_accepted_def)

lemma fresh_from_commit: "fresh_from w q \<Longrightarrow> q \<noteq> - 1 \<Longrightarrow> fresh_from (snd (ReplayWindow_commit w q)) (q + 1)"
  using less_succ_u64 [of q] fresh_from_accepted [of w q]
  by (auto simp: fresh_from_def ReplayWindow_commit_def Let_def)

lemma fresh_from_new: "fresh_from (s_replay (new_Session k)) q"
  by (simp add: fresh_from_def new_Session_def fresh_window_def)

lemma succ_u64: "unat q + 1 < 2 ^ 64 \<Longrightarrow> q \<noteq> - 1 \<and> unat (q + 1) = unat q + 1" for q :: u64
proof -
  assume q: "unat q + 1 < 2 ^ 64"
  have "unat (- 1 :: u64) = 2 ^ 64 - 1" by (simp add: unsigned_minus_1_eq_mask mask_eq_exp_minus_1)
  then show ?thesis using q by (auto simp: unat_word_ariths)
qed

text \<open>
  A datagram that is delivered as a state that prints as \<open>line\<close>; and a stream of such datagrams with
  consecutive sequence numbers.
\<close>

abbreviation opens_as :: "ascon \<Rightarrow> DirectionalKeys \<Rightarrow> u64 \<Rightarrow> gcs_line \<Rightarrow> byte list \<Rightarrow> bool" where
  "opens_as A k q line \<equiv> delivers A k q (\<lambda>rcd. gcs_state rcd = Some line)"

abbreviation stream :: "ascon \<Rightarrow> DirectionalKeys \<Rightarrow> u64 \<Rightarrow> gcs_line list \<Rightarrow> byte list list \<Rightarrow> bool" where
  "stream A k \<equiv> numbered (opens_as A k)"

text \<open>The type and the length of the record behind a state line.\<close>

fun state_kind :: "gcs_line \<Rightarrow> MessageType \<times> nat" where
  "state_kind (Gcs_position v) = (MT_Position, kPositionBytes)"
| "state_kind (Gcs_attitude v) = (MT_Attitude, kAttitudeBytes)"
| "state_kind (Gcs_battery v) = (MT_Battery, kBatteryBytes)"
| "state_kind _ = (MT_Other 0, 0)"

lemma gcs_state_kind:
  assumes "gcs_state rcd = Some line"
  shows "(h_type (or_header rcd), or_length rcd) = state_kind line"
proof -
  let ?b = "or_payload rcd" and ?n = "or_length rcd"
  have "decode_position (Some ?b) ?n = Some p \<Longrightarrow> ?n = kPositionBytes" for p
    using position.decode_length [of ?n ?b] by fastforce
  moreover have "decode_attitude (Some ?b) ?n = Some a \<Longrightarrow> ?n = kAttitudeBytes" for a
    using attitude.decode_length [of ?n ?b] by fastforce
  moreover have "decode_battery (Some ?b) ?n = Some b \<Longrightarrow> ?n = kBatteryBytes" for b
    using battery.decode_length [of ?n ?b] by fastforce
  ultimately show ?thesis
    using assms by (auto simp: gcs_state_def split: if_splits)
qed

lemma gcs_state_relayable: "gcs_state rcd = Some line \<Longrightarrow> relayable rcd"
  using gcs_state_kind [of rcd line]
  by (auto simp: gcs_state_def relayable_def schema_ok_def message_consts split: if_splits)

text \<open>What an endpoint sends opens at the other end as the state it was sent with.\<close>

lemma sent_opens_as:
  assumes A: "aead_correct A" and keys: "mirrored (s_keys (ne_session e)) k"
    and buffer: "length (ne_buffer e) = kMaxRecordBytes"
    and send: "NativeEndpoint_send P A e h (Some plain) len u (Some loopback_host) port os = (Inr (), e', os')"
    and h: "canonical_qos (h_qos h)" "h_deadline_ms h = 0" and len: "len \<le> length plain"
    and state: "gcs_state \<lparr>or_header = h, or_payload = plain, or_length = len\<rparr> = Some line"
  shows "opens_as A k (h_sequence h) line (take (kHeaderBytes + len + kTagBytes) (ne_buffer e'))"
proof (rule sent_delivers [OF A keys buffer send h len])
  fix rcd
  assume "carried_by rcd h plain len"
  then show "gcs_state rcd = Some line"
    using same_state(1) [of rcd "\<lparr>or_header = h, or_payload = plain, or_length = len\<rparr>"] len state
      send_sent_to(4) [OF send buffer]
    by (simp add: carried_by_def)
qed

section \<open>A network as one program sees it\<close>

record mailbox =
  mb_inbox :: "byte list list"
  mb_outbox :: "byte list list"
  mb_now :: nat

locale mail_network =
  fixes P :: "'o posix" and clock :: "'o \<Rightarrow> u64 \<times> 'o" and view :: "'o \<Rightarrow> mailbox"
  assumes socket: "0 \<le> fst (os_socket P os)" "view (snd (os_socket P os)) = view os"
    and setsockopt: "view (snd (os_setsockopt P fd os)) = view os"
    and bind: "fst (os_bind P fd a p os) = 0" "view (snd (os_bind P fd a p os)) = view os"
    and pton: "fst (os_inet_pton P loopback_host) = 1"
    and sendto: "fst (os_sendto P fd bs a p os) = int (length bs)"
      "view (snd (os_sendto P fd bs a p os)) = (view os)\<lparr>mb_outbox := mb_outbox (view os) @ [bs]\<rparr>"
    and select_mail: "mb_inbox (view os) \<noteq> [] \<Longrightarrow> 0 < fst (os_select P fd s us os) \<and> view (snd (os_select P fd s us os)) = view os"
    and select_none: "mb_inbox (view os) = [] \<Longrightarrow> fst (os_select P fd s us os) \<le> 0 \<and>
      (\<exists>t. view (snd (os_select P fd s us os)) = (view os)\<lparr>mb_now := t\<rparr> \<and> mb_now (view os) < t)"
    and recvfrom: "mb_inbox (view os) = dg # rest \<Longrightarrow> length dg \<le> n \<Longrightarrow> n \<le> length buf \<Longrightarrow>
      fst (os_recvfrom P fd buf n os) = (int (length dg), dg @ drop (length dg) buf) \<and>
      view (snd (os_recvfrom P fd buf n os)) = (view os)\<lparr>mb_inbox := rest\<rparr>"
    and close: "view (snd (os_close P fd os)) = view os"
    and clock: "fst (clock os) = of_nat (min (mb_now (view os)) (2 ^ 64 - 1))" "view (snd (clock os)) = view os"
begin

lemma bind_view:
  obtains udp os' where "UdpEndpoint_bind P new_UdpEndpoint port os = (True, udp, os')" "UdpEndpoint_valid udp"
    "view os' = view os" "network_up P udp"
proof -
  obtain fd os1 where sock: "os_socket P os = (fd, os1)" by fastforce
  have fd: "\<not> fd < 0" "view os1 = view os" using socket [of os] by (simp_all add: sock)
  define os2 where "os2 = snd (os_setsockopt P fd os1)"
  obtain rc os3 where bnd: "os_bind P fd inaddr_loopback port os2 = (rc, os3)" by fastforce
  have "rc = 0" "view os3 = view os"
    using bind [of fd inaddr_loopback port os2] fd setsockopt [of fd os1]
    by (simp_all only: bnd os2_def [symmetric] fst_conv snd_conv)
  then have "UdpEndpoint_bind P new_UdpEndpoint port os = (True, \<lparr>udp_fd = fd\<rparr>, os3)"
    using fd by (simp add: UdpEndpoint_bind_def UdpEndpoint_close_def new_UdpEndpoint_def sock os2_def [symmetric] bnd)
  then show thesis
    using that fd \<open>view os3 = view os\<close> pton sendto by (simp add: UdpEndpoint_valid_def network_up_def)
qed

lemma sent_to_view: "view (sent_to P udp port dg os) = (view os)\<lparr>mb_outbox := mb_outbox (view os) @ [dg]\<rparr>"
  by (simp add: sent_to_def sendto)

lemma sent_all_view: "mb_outbox (view (fold (sent_to P udp port) dgs os)) = mb_outbox (view os) @ dgs"
  by (induction dgs arbitrary: os) (simp_all add: sent_to_view)

lemma receive_mail:
  assumes udp: "UdpEndpoint_valid udp" and buffer: "length (ne_buffer e) = kMaxRecordBytes"
    and mail: "mb_inbox (view os) = dg # rest" and dg: "opens_as A k q line dg"
    and keys: "s_keys (ne_session e) = k" "fresh_from (s_replay (ne_session e)) q"
  obtains opened b os' where
    "NativeEndpoint_receive_uncommitted P A e udp now_ms os = (Inr opened, e\<lparr>ne_buffer := b\<rparr>, os')"
    "length b = kMaxRecordBytes" "view os' = (view os)\<lparr>mb_inbox := rest\<rparr>"
    "gcs_state opened = Some line" "h_deadline_ms (or_header opened) = 0" "h_sequence (or_header opened) = q"
proof -
  obtain ready os1 where sel: "os_select P (udp_fd udp) 1 0 os = (ready, os1)" by fastforce
  have ready: "0 < ready" "view os1 = view os" using select_mail [of os "udp_fd udp" 1 0] mail
    by (simp_all add: sel [simplified])
  have size: "length dg \<le> kMaxRecordBytes" "dg \<noteq> []" using dg by (simp_all add: delivers_def)
  note rcv = recvfrom [of os1 dg rest kMaxRecordBytes, unfolded ready(2), OF mail size(1)]
  have arr: "datagram_arrives P udp os dg"
    using udp ready(1) size rcv by (simp add: datagram_arrives_def sel [simplified])
  obtain opened where op: "Session_open_uncommitted A (ne_session e) (Some dg) (length dg) now_ms = Inr opened"
    and opened: "gcs_state opened = Some line" "h_deadline_ms (or_header opened) = 0" "h_sequence (or_header opened) = q"
    using dg keys fresh_from_accepted unfolding delivers_def by blast
  obtain os' b where unc: "NativeEndpoint_receive_uncommitted P A e udp now_ms os = (Inr opened, e\<lparr>ne_buffer := b\<rparr>, os')"
    and b: "length b = kMaxRecordBytes"
    by (rule received_uncommitted [OF arr buffer op])
  have "os' = snd (os_recvfrom P (udp_fd udp) (ne_buffer e) kMaxRecordBytes os1)"
    using unc udp buffer ready(1)
    by (auto simp: NativeEndpoint_receive_uncommitted_def UdpEndpoint_receive_def UdpEndpoint_valid_def
        sel [simplified] Let_def case_prod_beta split: if_splits)
  then have "view os' = (view os)\<lparr>mb_inbox := rest\<rparr>" using rcv [of "ne_buffer e"] buffer ready(2) by simp
  then show thesis using that [OF unc b] opened by blast
qed

lemma receive_none:
  assumes "UdpEndpoint_valid udp" "length (ne_buffer e) = kMaxRecordBytes" and "mb_inbox (view os) = []"
  obtains os' t where "NativeEndpoint_receive_uncommitted P A e udp now_ms os = (Inl RE_Timeout, e, os')"
    "mb_now (view os) < t" "view os' = (view os)\<lparr>mb_now := t\<rparr>"
proof -
  obtain ready os1 where sel: "os_select P (udp_fd udp) 1 0 os = (ready, os1)" by fastforce
  obtain t where t: "ready \<le> 0" "mb_now (view os) < t" "view os1 = (view os)\<lparr>mb_now := t\<rparr>"
    using select_none [OF assms(3), of "udp_fd udp" 1 0] by (auto simp: sel [simplified])
  have "NativeEndpoint_receive_uncommitted P A e udp now_ms os = (Inl RE_Timeout, e, os1)"
    using assms(1,2) t(1)
    by (simp add: NativeEndpoint_receive_uncommitted_def UdpEndpoint_receive_def UdpEndpoint_valid_def sel [simplified])
  then show thesis using that t(2,3) by blast
qed

lemma clock_before: "mb_now (view os) < unat D \<Longrightarrow> fst (clock os) < D"
  and clock_after: "unat D \<le> mb_now (view os) \<Longrightarrow> D \<le> fst (clock os)"
proof -
  let ?t = "min (mb_now (view os)) (2 ^ 64 - 1)"
  have "unat (of_nat ?t :: u64) = ?t" by (simp add: unat_of_nat take_bit_eq_mod)
  moreover have "unat D < 2 ^ 64" using unsigned_less [where 'a = nat, of D] by simp
  ultimately show "mb_now (view os) < unat D \<Longrightarrow> fst (clock os) < D"
    and "unat D \<le> mb_now (view os) \<Longrightarrow> D \<le> fst (clock os)"
    by (simp_all add: clock(1) word_less_nat_alt word_le_nat_alt)
qed

end

section \<open>What the vehicle sends\<close>

text \<open>The states the vehicle publishes, as the ground station prints them.\<close>

definition settled_state :: "bool \<Rightarrow> bool \<Rightarrow> MessageType \<Rightarrow> gcs_line" where
  "settled_state moved snapshot type =
     (if type = MT_Position
      then Gcs_position (vehicle_position\<lparr>
        p_meta := stamped snapshot ((p_meta vehicle_position)\<lparr>sm_generation := (if moved then 2 else 1),
          sm_base_generation := (if moved then 1 else 0)\<rparr>),
        p_latitude_e7 := (if moved then 473977410 else 473977400)\<rparr>)
      else if type = MT_Attitude
      then Gcs_attitude (vehicle_attitude\<lparr>a_meta := stamped snapshot ((a_meta vehicle_attitude)\<lparr>sm_generation := 1\<rparr>)\<rparr>)
      else Gcs_battery (vehicle_battery\<lparr>b_meta := stamped snapshot ((b_meta vehicle_battery)\<lparr>sm_generation := 1\<rparr>)\<rparr>))"

definition states_at :: "bool \<Rightarrow> nat \<Rightarrow> gcs_line list" where
  "states_at moving t =
     map (\<lambda>(kind, type, now). settled_state (moving \<and> 3000 \<le> t) (snapshot_at t) type) (lines_at moving t)"

definition ground_lines :: "u64 \<Rightarrow> gcs_line list" where
  "ground_lines duration_ms =
     concat (map (\<lambda>k. states_at (0 < duration_ms) (100 * k)) [0..<Suc ((unat duration_ms + 99) div 100)])"

text \<open>The line the ground station prints for a line of the schedule.\<close>

definition ground_line :: "bool \<Rightarrow> publish_line \<Rightarrow> gcs_line" where
  "ground_line moving = (\<lambda>(kind, type, now). settled_state (moving \<and> 3000 \<le> now) (kind = HelpfulSnapshot) type)"

lemma scheduled_state:
  "scheduled_record moving (kind, type, now) rcd \<Longrightarrow> gcs_state rcd = Some (ground_line moving (kind, type, now))"
  by (auto simp: scheduled_record_def gcs_state_def ground_line_def settled_state_def Let_def vehicle_defs stamped_def
      scheduled_position_def scheduled_attitude_def scheduled_battery_def scheduled_meta_def)

lemma ground_lines_schedule:
  assumes "unat D + 20100 < 2 ^ 64"
  shows "ground_lines D = map (ground_line (0 < D)) (vehicle_schedule D)"
proof -
  have "states_at (0 < D) (100 * k) = map (ground_line (0 < D)) (lines_at (0 < D) (100 * k))"
    if "k < Suc ((unat D + 99) div 100)" for k
  proof -
    have "100 * k + 20000 < 2 ^ 64" using that assms by linarith
    then have "(3000 \<le> (of_nat (100 * k) :: u64)) = (3000 \<le> 100 * k)"
      using unat_of_nat_u64 [of "100 * k"] by (simp add: word_le_nat_alt)
    then show ?thesis
      by (auto simp: states_at_def ground_line_def lines_at_def snapshot_at_def simp del: of_nat_mult)
  qed
  then have "map (\<lambda>k. states_at (0 < D) (100 * k)) [0..<Suc ((unat D + 99) div 100)] =
      map (\<lambda>k. map (ground_line (0 < D)) (lines_at (0 < D) (100 * k))) [0..<Suc ((unat D + 99) div 100)]"
    by (intro map_cong refl) (simp only: set_upt atLeastLessThan_iff)
  then show ?thesis
    by (simp only: ground_lines_def vehicle_schedule_def map_concat map_map comp_def)
qed

context mail_network
begin

lemma vehicle_run:
  assumes A: "aead_correct A" and keys: "derive_directional_keys A app_psk app_session 1 3 = Some (tx, rx)" "valid_keys tx"
    and D: "unat D + 20100 < 2 ^ 64" and out: "mb_outbox (view os) = []"
  obtains os' where "vehicle_main P A listen_port peer_port D os =
      Some (0, Vehicle_ready listen_port peer_port D # map Vehicle_publish (vehicle_schedule D) @
        [if D = 0 then Vehicle_snapshot else Vehicle_stream D], os')"
    "stream A rx 0 (ground_lines D) (mb_outbox (view os'))"
proof -
  obtain udp os1 where udp: "UdpEndpoint_bind P new_UdpEndpoint listen_port os = (True, udp, os1)" "network_up P udp"
    and view1: "view os1 = view os"
    by (rule bind_view)
  obtain dgs where run: "vehicle_main P A listen_port peer_port D os =
      Some (0, Vehicle_ready listen_port peer_port D # map Vehicle_publish (vehicle_schedule D) @
        [if D = 0 then Vehicle_snapshot else Vehicle_stream D],
        snd (UdpEndpoint_close P udp (fold (sent_to P udp peer_port) dgs os1)))"
    and sent: "numbered (scheduled_datagram A rx (0 < D)) 0 (vehicle_schedule D) dgs"
    by (rule vehicle_main_sends [OF A keys udp D])
  have "opens_as A rx q (ground_line (0 < D) l) dg" if "scheduled_datagram A rx (0 < D) q l dg" for q l dg
    using that unfolding delivers_def by (cases l) (metis scheduled_state)
  then have "stream A rx 0 (map (ground_line (0 < D)) (vehicle_schedule D)) dgs"
    using numbered_map [OF sent, of "opens_as A rx"] by blast
  moreover have "mb_outbox (view (snd (UdpEndpoint_close P udp (fold (sent_to P udp peer_port) dgs os1)))) = dgs"
    using out view1 by (simp add: UdpEndpoint_close_def close sent_all_view)
  ultimately show thesis using that [OF run] by (simp add: ground_lines_schedule [OF D])
qed

end

section \<open>What the proxy service relays\<close>

fun relay_lines :: "u64 \<Rightarrow> gcs_line list \<Rightarrow> proxy_line list" where
  "relay_lines q [] = []"
| "relay_lines q (l # ls) = Reencrypt (fst (state_kind l)) (snd (state_kind l)) q # relay_lines (q + 1) ls"

context mail_network
begin

lemma proxy_takes:
  assumes A: "aead_correct A" and up: "network_up P udp" and keys: "egress_keys keg" "mirrored keg kg"
    and ready: "proxy_ready kin keg s" and fresh: "fresh_from (s_replay (ne_session (ps_ingress s))) q"
    and seqs: "q \<noteq> - 1" "ps_egress_sequence s \<noteq> - 1"
    and mail: "mb_inbox (view os) = dg # rest" and dg: "opens_as A kin q line dg"
  obtains s' os' dg' where
    "proxy_body P A clock udp port D (s, os) =
      (if D = 0 \<or> unat D \<le> mb_now (view os) then Break else Continue, s', os')"
    "view os' = (view os)\<lparr>mb_inbox := rest, mb_outbox := mb_outbox (view os) @ [dg']\<rparr>"
    "opens_as A kg (ps_egress_sequence s) line dg'" "proxy_ready kin keg s'"
    "fresh_from (s_replay (ne_session (ps_ingress s'))) (q + 1)" "ps_egress_sequence s' = ps_egress_sequence s + 1"
    "ps_log s' = ps_log s @ relay_lines (ps_egress_sequence s) [line]" "ps_received_any s'"
proof -
  have udp: "UdpEndpoint_valid udp" using up by (simp add: network_up_def)
  have ingress: "length (ne_buffer (ps_ingress s)) = kMaxRecordBytes" "s_keys (ne_session (ps_ingress s)) = kin"
    and egress: "length (ne_buffer (ps_egress s)) = kMaxRecordBytes" "mirrored (s_keys (ne_session (ps_egress s))) kg"
    using ready keys(2) by (simp_all add: proxy_ready_def)
  have mail': "mb_inbox (view (snd (clock os))) = dg # rest" using mail by (simp add: clock(2))
  obtain opened b os1 where unc: "NativeEndpoint_receive_uncommitted P A (ps_ingress s) udp (ucast (fst (clock os)))
      (snd (clock os)) = (Inr opened, (ps_ingress s)\<lparr>ne_buffer := b\<rparr>, os1)"
    and b: "length b = kMaxRecordBytes" and view1: "view os1 = (view (snd (clock os)))\<lparr>mb_inbox := rest\<rparr>"
    and opened: "gcs_state opened = Some line" "h_deadline_ms (or_header opened) = 0" "h_sequence (or_header opened) = q"
    by (rule receive_mail [OF udp ingress(1) mail' dg ingress(2) fresh])
  obtain s' e' os' where it: "proxy_iteration P A udp port D (fst (clock os)) s (snd (clock os)) =
      (if D = 0 \<or> D \<le> fst (clock os) then Break else Continue, s', os')"
    and send: "NativeEndpoint_send P A (ps_egress s) (egress_header s (or_header opened)) (Some (or_payload opened))
       (or_length opened) udp (Some loopback_host) port os1 = (Inr (), e', os')"
    and s': "ps_egress s' = e'" "ps_egress_sequence s' = ps_egress_sequence s + 1"
      "ps_log s' = ps_log s @ [Reencrypt (h_type (or_header opened)) (or_length opened) (ps_egress_sequence s)]"
      "\<not> ReplayWindow_accepted (s_replay (ne_session (ps_ingress s'))) (h_sequence (or_header opened))"
      "proxy_ready kin keg s'" "ps_received_any s'"
      "s_replay (ne_session (ps_ingress s')) =
         snd (ReplayWindow_commit (s_replay (ne_session ((ps_ingress s)\<lparr>ne_buffer := b\<rparr>))) (h_sequence (or_header opened)))"
    by (rule proxy_relays [OF A up keys(1) ready seqs(2) unc _ gcs_state_relayable [OF opened(1)]]) (simp add: b)
  note known = opened_known [OF unc]
  let ?h = "egress_header s (or_header opened)"
  let ?dg = "take (kHeaderBytes + or_length opened + kTagBytes) (ne_buffer e')"
  have h: "canonical_qos (h_qos ?h)" "h_deadline_ms ?h = 0" "h_sequence ?h = ps_egress_sequence s"
    and len: "or_length opened \<le> length (or_payload opened)"
    using known(4,5,8) opened(2) by (simp_all add: egress_header_def)
  have state: "gcs_state \<lparr>or_header = ?h, or_payload = or_payload opened, or_length = or_length opened\<rparr> = Some line"
    using same_state(1) [of "\<lparr>or_header = ?h, or_payload = or_payload opened, or_length = or_length opened\<rparr>" opened]
      opened(1) len by (simp add: egress_header_def)
  have out: "opens_as A kg (ps_egress_sequence s) line ?dg"
    using sent_opens_as [OF A egress(2,1) send h(1,2) len state] h(3) by simp
  have "view os' = (view os)\<lparr>mb_inbox := rest, mb_outbox := mb_outbox (view os) @ [?dg]\<rparr>"
    using send_sent_to(1) [OF send egress(1)] view1 by (simp add: sent_to_view clock(2))
  moreover have "(D \<le> fst (clock os)) = (unat D \<le> mb_now (view os))"
    using clock_before [of os D] clock_after [of D os] by force
  then have "proxy_body P A clock udp port D (s, os) =
      (if D = 0 \<or> unat D \<le> mb_now (view os) then Break else Continue, s', os')"
    using it by (simp add: proxy_body_def)
  moreover have "fresh_from (s_replay (ne_session (ps_ingress s'))) (q + 1)"
    using fresh_from_commit [OF fresh seqs(1)] s'(7) opened(3) by simp
  moreover have "ps_log s' = ps_log s @ relay_lines (ps_egress_sequence s) [line]"
    using s'(3) gcs_state_kind [OF opened(1)] by (simp add: prod_eq_iff)
  ultimately show thesis using that [of s' os' ?dg] out s'(2,5,6) by blast
qed

lemma proxy_streams:
  assumes A: "aead_correct A" and up: "network_up P udp" and keys: "egress_keys keg" "mirrored keg kg"
  shows "stream A kin q lines dgs \<Longrightarrow> mb_inbox (view os) = dgs \<Longrightarrow> proxy_ready kin keg s \<Longrightarrow>
    fresh_from (s_replay (ne_session (ps_ingress s))) q \<Longrightarrow> unat q + length dgs < 2 ^ 64 \<Longrightarrow>
    unat (ps_egress_sequence s) + length dgs < 2 ^ 64 \<Longrightarrow> mb_now (view os) < unat D \<Longrightarrow>
    \<exists>s' os' out. proxy_loop P A clock udp port D s os = proxy_loop P A clock udp port D s' os' \<and>
      view os' = (view os)\<lparr>mb_inbox := [], mb_outbox := mb_outbox (view os) @ out\<rparr> \<and>
      stream A kg (ps_egress_sequence s) lines out \<and> proxy_ready kin keg s' \<and>
      ps_log s' = ps_log s @ relay_lines (ps_egress_sequence s) lines \<and>
      (ps_received_any s \<or> lines \<noteq> [] \<longrightarrow> ps_received_any s')"
proof (induction dgs arbitrary: q lines s os)
  case Nil
  then have "lines = []" using numbered_length by fastforce
  with Nil show ?case by (intro exI [of _ s] exI [of _ os] exI [of _ "[]"]) simp
next
  case (Cons dg dgs)
  obtain line ls where lines: "lines = line # ls" "opens_as A kin q line dg" "stream A kin (q + 1) ls dgs"
    using Cons.prems(1) by (auto simp: numbered_Cons)
  have seqs: "unat q + 1 < 2 ^ 64" "unat (ps_egress_sequence s) + 1 < 2 ^ 64" using Cons.prems(5,6) by simp_all
  note next_q = succ_u64 [OF seqs(1)] and next_e = succ_u64 [OF seqs(2)]
  obtain s1 os1 dg1 where pass: "proxy_body P A clock udp port D (s, os) =
      (if D = 0 \<or> unat D \<le> mb_now (view os) then Break else Continue, s1, os1)"
    and view1: "view os1 = (view os)\<lparr>mb_inbox := dgs, mb_outbox := mb_outbox (view os) @ [dg1]\<rparr>"
    and dg1: "opens_as A kg (ps_egress_sequence s) line dg1"
    and s1: "proxy_ready kin keg s1" "fresh_from (s_replay (ne_session (ps_ingress s1))) (q + 1)"
      "ps_egress_sequence s1 = ps_egress_sequence s + 1"
      "ps_log s1 = ps_log s @ relay_lines (ps_egress_sequence s) [line]" "ps_received_any s1"
    by (rule proxy_takes [OF A up keys Cons.prems(3,4) conjunct1 [OF next_q] conjunct1 [OF next_e] Cons.prems(2) lines(2)])
  have "D \<noteq> 0" using Cons.prems(7) by auto
  then have "proxy_body P A clock udp port D (s, os) = (Continue, s1, os1)" using pass Cons.prems(7) by simp
  then have step: "proxy_loop P A clock udp port D s os = proxy_loop P A clock udp port D s1 os1"
    unfolding proxy_loop_def by (rule run_loop_pass(1))
  have "mb_inbox (view os1) = dgs" "unat (q + 1) + length dgs < 2 ^ 64"
    "unat (ps_egress_sequence s1) + length dgs < 2 ^ 64" "mb_now (view os1) < unat D"
    using view1 Cons.prems(5-7) next_q next_e s1(3) by simp_all
  from Cons.IH [OF lines(3) this(1) s1(1,2) this(2-4)]
  obtain s' os' out where rest: "proxy_loop P A clock udp port D s1 os1 = proxy_loop P A clock udp port D s' os'"
    "view os' = (view os1)\<lparr>mb_inbox := [], mb_outbox := mb_outbox (view os1) @ out\<rparr>"
    "stream A kg (ps_egress_sequence s + 1) ls out" "proxy_ready kin keg s'"
    "ps_log s' = ps_log s1 @ relay_lines (ps_egress_sequence s + 1) ls" "ps_received_any s1 \<or> ls \<noteq> [] \<longrightarrow> ps_received_any s'"
    unfolding s1(3) by blast
  then show ?case
    using step view1 dg1 s1(4,5) lines(1) by (intro exI [of _ s'] exI [of _ os'] exI [of _ "dg1 # out"]) simp
qed

lemma proxy_idles:
  assumes udp: "UdpEndpoint_valid udp" and D: "D \<noteq> 0" and s: "length (ne_buffer (ps_ingress s)) = kMaxRecordBytes" "ps_received_any s"
  shows "mb_inbox (view os) = [] \<Longrightarrow> \<exists>os'. proxy_loop P A clock udp port D s os =
    Some (0, log_proxy (Proxy_stream D) s, os') \<and> mb_outbox (view os') = mb_outbox (view os)"
proof (induction "unat D - mb_now (view os)" arbitrary: os rule: less_induct)
  case less
  have "mb_inbox (view (snd (clock os))) = []" using less.prems by (simp add: clock(2))
  then obtain os1 t where unc: "NativeEndpoint_receive_uncommitted P A (ps_ingress s) udp (ucast (fst (clock os)))
      (snd (clock os)) = (Inl RE_Timeout, ps_ingress s, os1)"
    and t: "mb_now (view os) < t" "view os1 = (view os)\<lparr>mb_now := t\<rparr>"
    using receive_none [OF udp s(1), of "snd (clock os)"] by (metis clock(2))
  have pass: "proxy_body P A clock udp port D (s, os) = (if D \<le> fst (clock os) then Break else Continue, s, os1)"
    using D by (simp add: proxy_body_def proxy_iteration_def unc)
  show ?case
  proof (cases "unat D \<le> mb_now (view os)")
    case True
    then have "proxy_body P A clock udp port D (s, os) = (Break, s, os1)" using pass clock_after by simp
    then have "proxy_loop P A clock udp port D s os = Some (proxy_finish D (s, os1))"
      unfolding proxy_loop_def by (rule run_loop_pass(2))
    then show ?thesis using s(2) t(2) by (simp add: proxy_finish_def)
  next
    case False
    then have "proxy_body P A clock udp port D (s, os) = (Continue, s, os1)" using pass clock_before [of os D] by simp
    then have "proxy_loop P A clock udp port D s os = proxy_loop P A clock udp port D s os1"
      unfolding proxy_loop_def by (rule run_loop_pass(1))
    then show ?thesis
      using less.hyps [of os1] less.prems t False by simp
  qed
qed

lemma proxy_run:
  assumes A: "aead_correct A" and hop1: "derive_directional_keys A app_psk app_session 1 3 = Some (kv, kin)"
    and hop2: "derive_directional_keys A app_psk app_session 3 2 = Some (keg, kg)" "valid_keys keg"
    and D: "D \<noteq> 0" and mail: "stream A kin 0 lines (mb_inbox (view os))" "lines \<noteq> []" "length lines < 2 ^ 64"
    and start: "mb_outbox (view os) = []" "mb_now (view os) = 0"
  obtains os' where "proxy_main P A clock ingress_port egress_port D os =
      Some (0, Proxy_ready ingress_port egress_port D # relay_lines 0 lines @ [Proxy_stream D], os')"
    "stream A kg 0 lines (mb_outbox (view os'))"
proof -
  obtain udp os1 where udp: "UdpEndpoint_bind P new_UdpEndpoint ingress_port os = (True, udp, os1)" "UdpEndpoint_valid udp"
      "network_up P udp" and view1: "view os1 = view os"
    by (rule bind_view)
  have keys: "egress_keys keg" "mirrored keg kg"
    using hop2(2) derive_directional_keys_SomeD [OF hop2(1)] by (simp_all add: egress_keys_def mirrored_def)
  let ?s = "new_proxy_service kin keg"
  have ready: "proxy_ready kin keg ?s" by (rule fresh_ready(2))
  have new: "fresh_from (s_replay (ne_session (ps_ingress ?s))) 0" "ps_egress_sequence ?s = 0" "ps_log ?s = []"
    using fresh_from_new by (simp_all add: new_proxy_service_def new_NativeEndpoint_def)
  have len: "length (mb_inbox (view os)) < 2 ^ 64" using numbered_length [OF mail(1)] mail(3) by simp
  have pos: "mb_now (view os1) < unat D" using D start(2) view1 by (simp add: unat_gt_0)
  obtain s' os2 out where "proxy_loop P A clock udp egress_port D ?s os1 = proxy_loop P A clock udp egress_port D s' os2"
    and view2: "view os2 = (view os1)\<lparr>mb_inbox := [], mb_outbox := mb_outbox (view os1) @ out\<rparr>"
    and out: "stream A kg 0 lines out" and s': "proxy_ready kin keg s'" "ps_log s' = relay_lines 0 lines" "ps_received_any s'"
    using proxy_streams [OF A udp(3) keys mail(1) _ ready new(1) _ _ pos, of egress_port] len new(2,3) view1 mail(2) by auto
  moreover obtain os3 where "proxy_loop P A clock udp egress_port D s' os2 = Some (0, log_proxy (Proxy_stream D) s', os3)"
    and view3: "mb_outbox (view os3) = mb_outbox (view os2)"
    using proxy_idles [OF udp(2) D _ s'(3), of os2] s'(1) view2 by (auto simp: proxy_ready_def)
  ultimately have "proxy_loop P A clock udp egress_port D ?s os1 = Some (0, log_proxy (Proxy_stream D) s', os3)" by simp
  then have "proxy_main P A clock ingress_port egress_port D os =
      Some (0, Proxy_ready ingress_port egress_port D # relay_lines 0 lines @ [Proxy_stream D],
        snd (UdpEndpoint_close P udp os3))"
    by (simp add: proxy_main_def hop1 hop2(1) udp(1) s'(2))
  moreover have "mb_outbox (view (snd (UdpEndpoint_close P udp os3))) = out"
    using view3 view2 view1 start(1) by (simp add: UdpEndpoint_close_def close)
  ultimately show thesis using that out by simp
qed

end

section \<open>What the ground station prints\<close>

context mail_network
begin

lemma gcs_takes:
  assumes up: "UdpEndpoint_valid udp" and ready: "gcs_ready kg s"
    and fresh: "fresh_from (s_replay (ne_session (gs_endpoint s))) q" "q \<noteq> - 1"
    and mail: "mb_inbox (view os) = dg # rest" and dg: "opens_as A kg q line dg"
  obtains s' os' where
    "gcs_body P A clock udp D (s, os) =
      (if D = 0 then Return 0 else if unat D \<le> mb_now (view os) then Break else Continue, s', os')"
    "view os' = (view os)\<lparr>mb_inbox := rest\<rparr>" "gcs_ready kg s'"
    "fresh_from (s_replay (ne_session (gs_endpoint s'))) (q + 1)"
    "gs_log s' = gs_log s @ line # (if D = 0 then [Gcs_snapshot (gs_received_count s + 1)] else [])"
    "gs_received_count s' = gs_received_count s + 1"
proof -
  have endpoint: "length (ne_buffer (gs_endpoint s)) = kMaxRecordBytes" "s_keys (ne_session (gs_endpoint s)) = kg"
    using ready by (simp_all add: gcs_ready_def)
  have mail': "mb_inbox (view (snd (clock os))) = dg # rest" using mail by (simp add: clock(2))
  obtain opened b os1 where unc: "NativeEndpoint_receive_uncommitted P A (gs_endpoint s) udp (ucast (fst (clock os)))
      (snd (clock os)) = (Inr opened, (gs_endpoint s)\<lparr>ne_buffer := b\<rparr>, os1)"
    and b: "length b = kMaxRecordBytes" and view1: "view os1 = (view (snd (clock os)))\<lparr>mb_inbox := rest\<rparr>"
    and opened: "gcs_state opened = Some line" "h_deadline_ms (or_header opened) = 0" "h_sequence (or_header opened) = q"
    by (rule receive_mail [OF up endpoint(1) mail' dg endpoint(2) fresh(1)])
  let ?e = "(gs_endpoint s)\<lparr>ne_buffer := b\<rparr>"
  let ?e' = "?e\<lparr>ne_session := (ne_session ?e)\<lparr>s_replay :=
    snd (ReplayWindow_commit (s_replay (ne_session ?e)) (h_sequence (or_header opened)))\<rparr>\<rparr>"
  have commit: "NativeEndpoint_commit ?e opened = (Inr (), ?e')"
    by (rule commit_after_open) (use fresh_from_accepted [OF fresh(1)] opened(3) in simp)
  define s' where "s' = s\<lparr>gs_endpoint := ?e', gs_received_count := gs_received_count s + 1,
    gs_log := gs_log s @ line # (if D = 0 then [Gcs_snapshot (gs_received_count s + 1)] else [])\<rparr>"
  have "(D \<le> fst (clock os)) = (unat D \<le> mb_now (view os))"
    using clock_before [of os D] clock_after [of D os] by force
  moreover have "gcs_iteration P A udp D (fst (clock os)) s (snd (clock os)) =
      (if D = 0 then Return 0 else if D \<le> fst (clock os) then Break else Continue, s', os1)"
    unfolding gcs_iteration_def unc prod.case sum.case Let_def opened(1) option.case commit by (simp add: s'_def)
  ultimately have pass: "gcs_body P A clock udp D (s, os) =
      (if D = 0 then Return 0 else if unat D \<le> mb_now (view os) then Break else Continue, s', os1)"
    by (simp add: gcs_body_def)
  have "view os1 = (view os)\<lparr>mb_inbox := rest\<rparr>" using view1 by (simp add: clock(2))
  moreover have "gcs_ready kg s'" using endpoint(2) b by (simp add: gcs_ready_def s'_def)
  moreover have "fresh_from (s_replay (ne_session (gs_endpoint s'))) (q + 1)"
    using fresh_from_commit [OF fresh] opened(3) by (simp add: s'_def)
  ultimately show thesis using that [OF pass] by (simp add: s'_def)
qed

lemma gcs_streams:
  assumes up: "UdpEndpoint_valid udp"
  shows "stream A kg q lines dgs \<Longrightarrow> mb_inbox (view os) = dgs \<Longrightarrow> gcs_ready kg s \<Longrightarrow>
    fresh_from (s_replay (ne_session (gs_endpoint s))) q \<Longrightarrow> unat q + length dgs < 2 ^ 64 \<Longrightarrow> mb_now (view os) < unat D \<Longrightarrow>
    \<exists>s' os'. gcs_loop P A clock udp D s os = gcs_loop P A clock udp D s' os' \<and>
      view os' = (view os)\<lparr>mb_inbox := []\<rparr> \<and> gcs_ready kg s' \<and> gs_log s' = gs_log s @ lines \<and>
      gs_received_count s' = gs_received_count s + length lines"
proof (induction dgs arbitrary: q lines s os)
  case Nil
  then have "lines = []" using numbered_length by fastforce
  with Nil show ?case by (intro exI [of _ s] exI [of _ os]) simp
next
  case (Cons dg dgs)
  obtain line ls where lines: "lines = line # ls" "opens_as A kg q line dg" "stream A kg (q + 1) ls dgs"
    using Cons.prems(1) by (auto simp: numbered_Cons)
  have "unat q + 1 < 2 ^ 64" using Cons.prems(5) by simp
  note next_q = succ_u64 [OF this]
  obtain s1 os1 where pass: "gcs_body P A clock udp D (s, os) =
      (if D = 0 then Return 0 else if unat D \<le> mb_now (view os) then Break else Continue, s1, os1)"
    and view1: "view os1 = (view os)\<lparr>mb_inbox := dgs\<rparr>"
    and s1: "gcs_ready kg s1" "fresh_from (s_replay (ne_session (gs_endpoint s1))) (q + 1)"
      "gs_log s1 = gs_log s @ line # (if D = 0 then [Gcs_snapshot (gs_received_count s + 1)] else [])"
      "gs_received_count s1 = gs_received_count s + 1"
    by (rule gcs_takes [OF up Cons.prems(3,4) conjunct1 [OF next_q] Cons.prems(2) lines(2)])
  have D: "D \<noteq> 0" using Cons.prems(6) by auto
  then have "gcs_body P A clock udp D (s, os) = (Continue, s1, os1)" using pass Cons.prems(6) by simp
  then have step: "gcs_loop P A clock udp D s os = gcs_loop P A clock udp D s1 os1"
    unfolding gcs_loop_def by (rule run_loop_pass(1))
  have "mb_inbox (view os1) = dgs" "unat (q + 1) + length dgs < 2 ^ 64" "mb_now (view os1) < unat D"
    using view1 Cons.prems(5,6) next_q by simp_all
  from Cons.IH [OF lines(3) this(1) s1(1,2) this(2,3)]
  obtain s' os' where "gcs_loop P A clock udp D s1 os1 = gcs_loop P A clock udp D s' os'"
    "view os' = (view os1)\<lparr>mb_inbox := []\<rparr>" "gcs_ready kg s'" "gs_log s' = gs_log s1 @ ls"
    "gs_received_count s' = gs_received_count s1 + length ls"
    by blast
  then show ?case
    using step view1 s1(3,4) lines(1) D by (intro exI [of _ s'] exI [of _ os']) simp
qed

lemma gcs_idles:
  assumes udp: "UdpEndpoint_valid udp" and D: "D \<noteq> 0" and s: "length (ne_buffer (gs_endpoint s)) = kMaxRecordBytes"
  shows "mb_inbox (view os) = [] \<Longrightarrow>
    \<exists>os'. gcs_loop P A clock udp D s os = Some (if gs_received_count s = 0 then 4 else 0, s, os')"
proof (induction "unat D - mb_now (view os)" arbitrary: os rule: less_induct)
  case less
  have "mb_inbox (view (snd (clock os))) = []" using less.prems by (simp add: clock(2))
  then obtain os1 t where unc: "NativeEndpoint_receive_uncommitted P A (gs_endpoint s) udp (ucast (fst (clock os)))
      (snd (clock os)) = (Inl RE_Timeout, gs_endpoint s, os1)"
    and t: "mb_now (view os) < t" "view os1 = (view os)\<lparr>mb_now := t\<rparr>"
    using receive_none [OF udp s, of "snd (clock os)"] by (metis clock(2))
  have pass: "gcs_body P A clock udp D (s, os) =
      (if fst (clock os) < D then Continue else Return (if gs_received_count s = 0 then 4 else 0), s, os1)"
    using D by (simp add: gcs_body_def gcs_iteration_def unc word_gt_0)
  show ?case
  proof (cases "unat D \<le> mb_now (view os)")
    case True
    then have "\<not> fst (clock os) < D" using clock_after [of D os] by (simp only: not_less)
    then have "gcs_body P A clock udp D (s, os) = (Return (if gs_received_count s = 0 then 4 else 0), s, os1)"
      using pass by simp
    then have "gcs_loop P A clock udp D s os = Some (if gs_received_count s = 0 then 4 else 0, s, os1)"
      unfolding gcs_loop_def by (rule run_loop_pass(3))
    then show ?thesis by simp
  next
    case False
    then have "gcs_body P A clock udp D (s, os) = (Continue, s, os1)" using pass clock_before [of os D] by simp
    then have "gcs_loop P A clock udp D s os = gcs_loop P A clock udp D s os1"
      unfolding gcs_loop_def by (rule run_loop_pass(1))
    then show ?thesis using less.hyps [of os1] less.prems t False by simp
  qed
qed

lemma gcs_run:
  assumes keys: "derive_directional_keys A app_psk app_session 3 2 = Some (keg, kg)"
    and D: "D \<noteq> 0" and mail: "stream A kg 0 lines (mb_inbox (view os))" "lines \<noteq> []" "length lines < 2 ^ 64"
    and start: "mb_now (view os) = 0"
  obtains os' where "gcs_main P A clock listen_port D os = Some (0, Gcs_ready listen_port D # lines, os')"
proof -
  obtain udp os1 where udp: "UdpEndpoint_bind P new_UdpEndpoint listen_port os = (True, udp, os1)" "UdpEndpoint_valid udp"
    and view1: "view os1 = view os"
    by (rule bind_view)
  let ?s = "new_ground_station kg"
  have new: "gcs_ready kg ?s" "fresh_from (s_replay (ne_session (gs_endpoint ?s))) 0" "gs_log ?s = []" "gs_received_count ?s = 0"
    using fresh_ready(3) fresh_from_new by (simp_all add: new_ground_station_def new_NativeEndpoint_def)
  have len: "length (mb_inbox (view os)) < 2 ^ 64" using numbered_length [OF mail(1)] mail(3) by simp
  have pos: "mb_now (view os1) < unat D" using D start view1 by (simp add: unat_gt_0)
  obtain s' os2 where "gcs_loop P A clock udp D ?s os1 = gcs_loop P A clock udp D s' os2"
    and s': "view os2 = (view os1)\<lparr>mb_inbox := []\<rparr>" "gcs_ready kg s'" "gs_log s' = lines" "gs_received_count s' = length lines"
    using gcs_streams [OF udp(2) mail(1) _ new(1,2) _ pos] len new(3,4) view1 by auto
  moreover obtain os3 where "gcs_loop P A clock udp D s' os2 = Some (if gs_received_count s' = 0 then 4 else 0, s', os3)"
    using gcs_idles [OF udp(2) D, of s' os2] s' by (auto simp: gcs_ready_def)
  ultimately have "gcs_main P A clock listen_port D os = Some (0, Gcs_ready listen_port D # lines, snd (UdpEndpoint_close P udp os3))"
    using mail(2) by (simp add: gcs_main_def keys udp(1))
  then show thesis using that by blast
qed

end

section \<open>One snapshot\<close>

context mail_network
begin

text \<open>With duration 0 the proxy service relays one record and ends, and the ground station prints one state.\<close>

lemma proxy_run_once:
  assumes A: "aead_correct A" and hop1: "derive_directional_keys A app_psk app_session 1 3 = Some (kv, kin)"
    and hop2: "derive_directional_keys A app_psk app_session 3 2 = Some (keg, kg)" "valid_keys keg"
    and mail: "stream A kin 0 (line # lines) (mb_inbox (view os))" and start: "mb_outbox (view os) = []"
  obtains os' where "proxy_main P A clock ingress_port egress_port 0 os =
      Some (0, Proxy_ready ingress_port egress_port 0 # relay_lines 0 [line] @ [Proxy_stream 0], os')"
    "stream A kg 0 [line] (mb_outbox (view os'))"
proof -
  obtain udp os1 where udp: "UdpEndpoint_bind P new_UdpEndpoint ingress_port os = (True, udp, os1)" "UdpEndpoint_valid udp"
      "network_up P udp" and view1: "view os1 = view os"
    by (rule bind_view)
  have keys: "egress_keys keg" "mirrored keg kg"
    using hop2(2) derive_directional_keys_SomeD [OF hop2(1)] by (simp_all add: egress_keys_def mirrored_def)
  let ?s = "new_proxy_service kin keg"
  have new: "fresh_from (s_replay (ne_session (ps_ingress ?s))) 0" "ps_egress_sequence ?s = 0" "ps_log ?s = []"
    using fresh_from_new by (simp_all add: new_proxy_service_def new_NativeEndpoint_def)
  obtain dg rest where inbox: "mb_inbox (view os1) = dg # rest" and dg: "opens_as A kin 0 line dg"
    using mail view1 by (cases "mb_inbox (view os)") auto
  have seqs: "(0 :: u64) \<noteq> - 1" "ps_egress_sequence ?s \<noteq> - 1" using new(2) by simp_all
  obtain s' os2 dg' where pass: "proxy_body P A clock udp egress_port 0 (?s, os1) =
      (if (0 :: u64) = 0 \<or> unat (0 :: u64) \<le> mb_now (view os1) then Break else Continue, s', os2)"
    and view2: "view os2 = (view os1)\<lparr>mb_inbox := rest, mb_outbox := mb_outbox (view os1) @ [dg']\<rparr>"
    and out: "opens_as A kg (ps_egress_sequence ?s) line dg'" and "proxy_ready kin keg s'"
      "fresh_from (s_replay (ne_session (ps_ingress s'))) (0 + 1)" "ps_egress_sequence s' = ps_egress_sequence ?s + 1"
    and s': "ps_log s' = ps_log ?s @ relay_lines (ps_egress_sequence ?s) [line]" "ps_received_any s'"
    by (rule proxy_takes [OF A udp(3) keys fresh_ready(2) new(1) seqs inbox dg])
  have "proxy_body P A clock udp egress_port 0 (?s, os1) = (Break, s', os2)" using pass by simp
  then have "proxy_loop P A clock udp egress_port 0 ?s os1 = Some (proxy_finish 0 (s', os2))"
    unfolding proxy_loop_def by (rule run_loop_pass(2))
  then have "proxy_main P A clock ingress_port egress_port 0 os =
      Some (0, Proxy_ready ingress_port egress_port 0 # relay_lines 0 [line] @ [Proxy_stream 0],
        snd (UdpEndpoint_close P udp os2))"
    using s' new(2,3) by (simp add: proxy_main_def hop1 hop2(1) udp(1) proxy_finish_def)
  moreover have "mb_outbox (view (snd (UdpEndpoint_close P udp os2))) = [dg']"
    using view2 view1 start by (simp add: UdpEndpoint_close_def close)
  ultimately show thesis using that out new(2) by simp
qed

lemma gcs_run_once:
  assumes keys: "derive_directional_keys A app_psk app_session 3 2 = Some (keg, kg)"
    and mail: "stream A kg 0 (line # lines) (mb_inbox (view os))"
  obtains os' where "gcs_main P A clock listen_port 0 os = Some (0, [Gcs_ready listen_port 0, line, Gcs_snapshot 1], os')"
proof -
  obtain udp os1 where udp: "UdpEndpoint_bind P new_UdpEndpoint listen_port os = (True, udp, os1)" "UdpEndpoint_valid udp"
    and view1: "view os1 = view os"
    by (rule bind_view)
  let ?s = "new_ground_station kg"
  have new: "fresh_from (s_replay (ne_session (gs_endpoint ?s))) 0" "gs_log ?s = []" "gs_received_count ?s = 0"
    using fresh_from_new by (simp_all add: new_ground_station_def new_NativeEndpoint_def)
  obtain dg rest where inbox: "mb_inbox (view os1) = dg # rest" and dg: "opens_as A kg 0 line dg"
    using mail view1 by (cases "mb_inbox (view os)") auto
  have q: "(0 :: u64) \<noteq> - 1" by simp
  obtain s' os2 where pass: "gcs_body P A clock udp 0 (?s, os1) =
      (if (0 :: u64) = 0 then Return 0 else if unat (0 :: u64) \<le> mb_now (view os1) then Break else Continue, s', os2)"
    and "view os2 = (view os1)\<lparr>mb_inbox := rest\<rparr>" "gcs_ready kg s'"
      "fresh_from (s_replay (ne_session (gs_endpoint s'))) (0 + 1)"
    and log: "gs_log s' = gs_log ?s @ line # (if (0 :: u64) = 0 then [Gcs_snapshot (gs_received_count ?s + 1)] else [])"
    and "gs_received_count s' = gs_received_count ?s + 1"
    by (rule gcs_takes [OF udp(2) fresh_ready(3) new(1) q inbox dg])
  have "gcs_body P A clock udp 0 (?s, os1) = (Return 0, s', os2)" using pass by simp
  then have "gcs_loop P A clock udp 0 ?s os1 = Some (0, s', os2)"
    unfolding gcs_loop_def by (rule run_loop_pass(3))
  then have "gcs_main P A clock listen_port 0 os =
      Some (0, [Gcs_ready listen_port 0, line, Gcs_snapshot 1], snd (UdpEndpoint_close P udp os2))"
    using log new(2,3) by (simp add: gcs_main_def keys udp(1))
  then show thesis using that by blast
qed

end

section \<open>The whole system\<close>

lemma lines_at_length_concat: "length (concat (map (\<lambda>k. states_at moving (f k)) ks)) \<le> 3 * length ks"
proof (induction ks)
  case (Cons k ks)
  then show ?case using lines_at_length [of moving "f k"] by (simp add: states_at_def)
qed simp

lemma ground_lines_ok:
  assumes "unat D + 20100 < 2 ^ 64"
  shows "length (ground_lines D) < 2 ^ 64" "ground_lines D \<noteq> []"
proof -
  have "length (ground_lines D) \<le> 3 * Suc ((unat D + 99) div 100)"
    using lines_at_length_concat [of "0 < D" "\<lambda>k. 100 * k" "[0..<Suc ((unat D + 99) div 100)]"]
    by (simp add: ground_lines_def)
  moreover have "(unat D + 99) div 100 * 100 \<le> unat D + 99" by (rule div_times_less_eq_dividend)
  moreover have "3 * Suc x < 2 ^ 64" if "x * 100 \<le> d + 99" "d + 20100 < 2 ^ 64" for x d :: nat using that by simp
  ultimately show "length (ground_lines D) < 2 ^ 64" using assms by (meson le_less_trans)
  have "states_at (0 < D) (100 * 0) \<noteq> []" by (simp add: states_at_def lines_at_def)
  then show "ground_lines D \<noteq> []" unfolding ground_lines_def by (subst upt_conv_Cons) simp_all
qed

lemma programs_decimal:
  "vehicle_program P A [name, dec lp, dec pp, dec D] os = printed vehicle_text (vehicle_main P A lp pp D os)"
  "proxy_program P A clock [name, dec lp, dec pp, dec D] os = printed proxy_text (proxy_main P A clock lp pp D os)"
  "gcs_program P A clock [name, dec lp, dec D] os = printed gcs_text (gcs_main P A clock lp D os)"
proof -
  have small: "unat w < 2 ^ 64" for w :: u16 using unsigned_less [where 'a = nat, of w] by simp
  show "vehicle_program P A [name, dec lp, dec pp, dec D] os = printed vehicle_text (vehicle_main P A lp pp D os)"
    and "proxy_program P A clock [name, dec lp, dec pp, dec D] os = printed proxy_text (proxy_main P A clock lp pp D os)"
    and "gcs_program P A clock [name, dec lp, dec D] os = printed gcs_text (gcs_main P A clock lp D os)"
    using vehicle_program_args(1) [OF small [of lp] small [of pp]] proxy_program_args [OF small [of lp] small [of pp]]
      gcs_program_args [OF small [of lp]]
    by simp_all
qed

text \<open>
  C6: The three programs together. The vehicle, the proxy service and the ground station are
  started with their ports and durations in decimal on the command line; the datagrams the vehicle
  has sent wait for the proxy, and those the proxy has sent wait for the ground station, in order.
  With a correct cipher that derives valid keys for both hops, and durations other than 0 for proxy
  and ground station, all three end with exit code 0 and print exactly: the vehicle the lines of its
  schedule, the proxy one re-encryption per message with consecutive sequence numbers, and the ground
  station every state the vehicle published, once and in the order of publication.
\<close>

theorem stream_reaches_ground:
  assumes net: "mail_network P clock view" and A: "aead_correct A"
    and hop1: "derive_directional_keys A app_psk app_session 1 3 = Some (kv, kin)" "valid_keys kv"
    and hop2: "derive_directional_keys A app_psk app_session 3 2 = Some (keg, kg)" "valid_keys keg"
    and D: "unat D + 20100 < 2 ^ 64" and start: "mb_outbox (view os) = []"
  shows "\<exists>os1. vehicle_program P A [vehicle_name, dec source_port, dec ingress_port, dec D] os =
      Some (0, concat (map vehicle_text (Vehicle_ready source_port ingress_port D #
        map Vehicle_publish (vehicle_schedule D) @ [if D = 0 then Vehicle_snapshot else Vehicle_stream D])), os1) \<and>
    (\<forall>osp Dp. Dp \<noteq> 0 \<and> mb_inbox (view osp) = mb_outbox (view os1) \<and> mb_outbox (view osp) = [] \<and> mb_now (view osp) = 0 \<longrightarrow>
      (\<exists>os2. proxy_program P A clock [proxy_name, dec ingress_port, dec egress_port, dec Dp] osp =
          Some (0, concat (map proxy_text (Proxy_ready ingress_port egress_port Dp #
            relay_lines 0 (ground_lines D) @ [Proxy_stream Dp])), os2) \<and>
        (\<forall>osg Dg. Dg \<noteq> 0 \<and> mb_inbox (view osg) = mb_outbox (view os2) \<and> mb_now (view osg) = 0 \<longrightarrow>
          (\<exists>os3. gcs_program P A clock [gcs_name, dec egress_port, dec Dg] osg =
            Some (0, concat (map gcs_text (Gcs_ready egress_port Dg # ground_lines D)), os3)))))"
proof -
  obtain os1 where vehicle: "vehicle_main P A source_port ingress_port D os =
      Some (0, Vehicle_ready source_port ingress_port D # map Vehicle_publish (vehicle_schedule D) @
        [if D = 0 then Vehicle_snapshot else Vehicle_stream D], os1)"
    and sent: "stream A kin 0 (ground_lines D) (mb_outbox (view os1))"
    by (rule mail_network.vehicle_run [OF net A hop1 D start])
  note lines = ground_lines_ok(2,1) [OF D]
  have gcs: "\<exists>os3. gcs_program P A clock [gcs_name, dec egress_port, dec Dg] osg =
      Some (0, concat (map gcs_text (Gcs_ready egress_port Dg # ground_lines D)), os3)"
    if g: "Dg \<noteq> 0" "stream A kg 0 (ground_lines D) (mb_inbox (view osg))" "mb_now (view osg) = 0" for osg Dg
  proof -
    obtain os3 where "gcs_main P A clock egress_port Dg osg = Some (0, Gcs_ready egress_port Dg # ground_lines D, os3)"
      by (rule mail_network.gcs_run [OF net hop2(1) g(1,2) lines g(3)])
    then show ?thesis by (simp add: programs_decimal printed_def)
  qed
  have proxy: "\<exists>os2. proxy_program P A clock [proxy_name, dec ingress_port, dec egress_port, dec Dp] osp =
        Some (0, concat (map proxy_text (Proxy_ready ingress_port egress_port Dp #
          relay_lines 0 (ground_lines D) @ [Proxy_stream Dp])), os2) \<and>
      stream A kg 0 (ground_lines D) (mb_outbox (view os2))"
    if p: "Dp \<noteq> 0" "mb_inbox (view osp) = mb_outbox (view os1)" "mb_outbox (view osp) = []" "mb_now (view osp) = 0" for osp Dp
  proof -
    have mail: "stream A kin 0 (ground_lines D) (mb_inbox (view osp))" using sent p(2) by simp
    obtain os2 where "proxy_main P A clock ingress_port egress_port Dp osp =
        Some (0, Proxy_ready ingress_port egress_port Dp # relay_lines 0 (ground_lines D) @ [Proxy_stream Dp], os2)"
      and "stream A kg 0 (ground_lines D) (mb_outbox (view os2))"
      by (rule mail_network.proxy_run [OF net A hop1(1) hop2 p(1) mail lines p(3,4)])
    then show ?thesis by (simp add: programs_decimal printed_def)
  qed
  have "vehicle_program P A [vehicle_name, dec source_port, dec ingress_port, dec D] os =
      Some (0, concat (map vehicle_text (Vehicle_ready source_port ingress_port D #
        map Vehicle_publish (vehicle_schedule D) @ [if D = 0 then Vehicle_snapshot else Vehicle_stream D])), os1)"
    by (simp add: programs_decimal printed_def vehicle)
  then show ?thesis using proxy gcs by (intro exI [of _ os1]) metis
qed

section \<open>A post office\<close>

definition post_office :: "mailbox posix" where
  "post_office = \<lparr>
     os_socket = (\<lambda>m. (3, m)), os_setsockopt = (\<lambda>fd m. (0, m)), os_bind = (\<lambda>fd a p m. (0, m)),
     os_inet_pton = (\<lambda>host. if host = ''127.0.0.1'' then (1, inaddr_loopback) else (0, 0)),
     os_sendto = (\<lambda>fd bs a p m. (int (length bs), m\<lparr>mb_outbox := mb_outbox m @ [bs]\<rparr>)),
     os_select = (\<lambda>fd s us m.
       if mb_inbox m = [] then (0, m\<lparr>mb_now := mb_now m + 1000 * s + us div 1000 + 1\<rparr>) else (1, m)),
     os_recvfrom = (\<lambda>fd buf n m. case mb_inbox m of
         [] \<Rightarrow> ((- 1, buf), m)
       | dg # rest \<Rightarrow> let got = take (min n (length buf)) dg
                     in ((int (length got), got @ drop (length got) buf), m\<lparr>mb_inbox := rest\<rparr>)),
     os_close = (\<lambda>fd m. (0, m))\<rparr>"

definition post_clock :: "mailbox \<Rightarrow> u64 \<times> mailbox" where
  "post_clock m = (of_nat (min (mb_now m) (2 ^ 64 - 1)), m)"

interpretation post: mail_network post_office post_clock "\<lambda>m. m"
  by unfold_locales (auto simp: post_office_def post_clock_def loopback_host_def Let_def intro!: exI conjI)

definition mail_of :: "byte list list \<Rightarrow> mailbox" where
  "mail_of dgs = \<lparr>mb_inbox = dgs, mb_outbox = [], mb_now = 0\<rparr>"

lemma ground_lines_20500:
  "ground_lines 20500 = map (\<lambda>(moved, snapshot, type). settled_state moved snapshot type)
     [(False, False, MT_Position), (False, False, MT_Attitude), (False, False, MT_Battery), (True, False, MT_Position),
      (True, True, MT_Position), (True, True, MT_Attitude), (True, True, MT_Battery),
      (True, True, MT_Position), (True, True, MT_Attitude), (True, True, MT_Battery)]"
  by (simp add: ground_lines_def states_at_def lines_at_def snapshot_at_def upt_rec)

lemma settled_text:
  "gcs_text (settled_state moved snapshot MT_Position) = (if moved
     then ''NEWMAVLINK_GCS_STATE=PASS type=Position generation=2 lat=473977410 lon=85455900 alt_mm=500000''
     else ''NEWMAVLINK_GCS_STATE=PASS type=Position generation=1 lat=473977400 lon=85455900 alt_mm=500000'') @ newline"
  "gcs_text (settled_state moved snapshot MT_Attitude) =
     ''NEWMAVLINK_GCS_STATE=PASS type=Attitude generation=1 roll=0 pitch=0 yaw=0'' @ newline"
  "gcs_text (settled_state moved snapshot MT_Battery) =
     ''NEWMAVLINK_GCS_STATE=PASS type=Battery generation=1 voltage_mv=16000 remaining_permille=900'' @ newline"
  by (simp_all add: settled_state_def vehicle_defs stamped_def decimal_eval)

lemma ready_text:
  "gcs_text (Gcs_ready 24661 25000) = ''NEWMAVLINK_GCS_READY native_udp=24661 duration_ms=25000'' @ newline"
  by (simp add: decimal_eval)

text \<open>The stream of 20.5 seconds: what the ground station prints, letter by letter.\<close>

theorem stream_reaches_ground_witness:
  "\<exists>os1 os2 os3 vehicle_out proxy_out.
     vehicle_program post_office xor_ascon [''vehicle'', ''0'', ''24660'', ''20500''] (mail_of []) =
       Some (0, vehicle_out, os1) \<and>
     proxy_program post_office xor_ascon post_clock [''proxy'', ''24660'', ''24661'', ''25000''] (mail_of (mb_outbox os1)) =
       Some (0, proxy_out, os2) \<and>
     gcs_program post_office xor_ascon post_clock [''gcs'', ''24661'', ''25000''] (mail_of (mb_outbox os2)) =
       Some (0, concat (map (\<lambda>l. l @ newline)
         [''NEWMAVLINK_GCS_READY native_udp=24661 duration_ms=25000'',
          ''NEWMAVLINK_GCS_STATE=PASS type=Position generation=1 lat=473977400 lon=85455900 alt_mm=500000'',
          ''NEWMAVLINK_GCS_STATE=PASS type=Attitude generation=1 roll=0 pitch=0 yaw=0'',
          ''NEWMAVLINK_GCS_STATE=PASS type=Battery generation=1 voltage_mv=16000 remaining_permille=900'',
          ''NEWMAVLINK_GCS_STATE=PASS type=Position generation=2 lat=473977410 lon=85455900 alt_mm=500000'',
          ''NEWMAVLINK_GCS_STATE=PASS type=Position generation=2 lat=473977410 lon=85455900 alt_mm=500000'',
          ''NEWMAVLINK_GCS_STATE=PASS type=Attitude generation=1 roll=0 pitch=0 yaw=0'',
          ''NEWMAVLINK_GCS_STATE=PASS type=Battery generation=1 voltage_mv=16000 remaining_permille=900'',
          ''NEWMAVLINK_GCS_STATE=PASS type=Position generation=2 lat=473977410 lon=85455900 alt_mm=500000'',
          ''NEWMAVLINK_GCS_STATE=PASS type=Attitude generation=1 roll=0 pitch=0 yaw=0'',
          ''NEWMAVLINK_GCS_STATE=PASS type=Battery generation=1 voltage_mv=16000 remaining_permille=900'']), os3)"
proof -
  obtain kv kin where hop1: "derive_directional_keys xor_ascon app_psk app_session 1 3 = Some (kv, kin)" "valid_keys kv"
    using app_keys [of 1 3] by auto
  obtain keg kg where hop2: "derive_directional_keys xor_ascon app_psk app_session 3 2 = Some (keg, kg)" "valid_keys keg"
    using app_keys [of 3 2] by auto
  have D: "unat (20500 :: u64) + 20100 < 2 ^ 64" and start: "mb_outbox (mail_of []) = []" by (simp_all add: mail_of_def)
  have args: "dec (0 :: u16) = ''0''" "dec (24660 :: u16) = ''24660''" "dec (24661 :: u16) = ''24661''"
    "dec (20500 :: u64) = ''20500''" "dec (25000 :: u64) = ''25000''"
    by (simp_all add: decimal_eval)
  note run = stream_reaches_ground [where vehicle_name = "''vehicle''" and proxy_name = "''proxy''" and gcs_name = "''gcs''"
      and source_port = 0 and ingress_port = 24660 and egress_port = 24661 and D = 20500,
      OF post.mail_network_axioms xor_ascon_correct hop1 hop2 D start, unfolded args]
  obtain os1 vehicle_out where vehicle:
      "vehicle_program post_office xor_ascon [''vehicle'', ''0'', ''24660'', ''20500''] (mail_of []) = Some (0, vehicle_out, os1)"
    and rest: "\<forall>osp Dp. Dp \<noteq> 0 \<and> mb_inbox osp = mb_outbox os1 \<and> mb_outbox osp = [] \<and> mb_now osp = 0 \<longrightarrow>
      (\<exists>os2. proxy_program post_office xor_ascon post_clock [''proxy'', ''24660'', ''24661'', dec Dp] osp =
          Some (0, concat (map proxy_text (Proxy_ready 24660 24661 Dp # relay_lines 0 (ground_lines 20500) @ [Proxy_stream Dp])), os2) \<and>
        (\<forall>osg Dg. Dg \<noteq> 0 \<and> mb_inbox osg = mb_outbox os2 \<and> mb_now osg = 0 \<longrightarrow>
          (\<exists>os3. gcs_program post_office xor_ascon post_clock [''gcs'', ''24661'', dec Dg] osg =
            Some (0, concat (map gcs_text (Gcs_ready 24661 Dg # ground_lines 20500)), os3))))"
    using run by blast
  obtain os2 proxy_out where proxy: "proxy_program post_office xor_ascon post_clock [''proxy'', ''24660'', ''24661'', ''25000'']
      (mail_of (mb_outbox os1)) = Some (0, proxy_out, os2)"
    and gcs: "\<forall>osg Dg. Dg \<noteq> 0 \<and> mb_inbox osg = mb_outbox os2 \<and> mb_now osg = 0 \<longrightarrow>
          (\<exists>os3. gcs_program post_office xor_ascon post_clock [''gcs'', ''24661'', dec Dg] osg =
            Some (0, concat (map gcs_text (Gcs_ready 24661 Dg # ground_lines 20500)), os3))"
    using rest [rule_format, of 25000 "mail_of (mb_outbox os1)"] unfolding args by (auto simp: mail_of_def)
  obtain os3 where ground: "gcs_program post_office xor_ascon post_clock [''gcs'', ''24661'', ''25000''] (mail_of (mb_outbox os2)) =
      Some (0, concat (map gcs_text (Gcs_ready 24661 25000 # ground_lines 20500)), os3)"
    using gcs [rule_format, of 25000 "mail_of (mb_outbox os2)"] unfolding args by (auto simp: mail_of_def)
  show ?thesis
    by (intro exI conjI, rule vehicle, rule proxy, subst ground)
       (simp only: ground_lines_20500 list.map prod.case settled_text ready_text if_True if_False)
qed

text \<open>
  The run of \<^verbatim>\<open>tests/process_e2e.sh\<close>: with duration 0 everywhere the vehicle sends its three states,
  the proxy re-encrypts the first, the position, and the ground station prints it and its success.
\<close>

theorem snapshot_reaches_ground:
  assumes net: "mail_network P clock view" and A: "aead_correct A"
    and hop1: "derive_directional_keys A app_psk app_session 1 3 = Some (kv, kin)" "valid_keys kv"
    and hop2: "derive_directional_keys A app_psk app_session 3 2 = Some (keg, kg)" "valid_keys keg"
    and start: "mb_outbox (view os) = []"
  shows "\<exists>os1. vehicle_main P A 0 24660 0 os = Some (0, Vehicle_ready 0 24660 0 #
      map Vehicle_publish [(OnChange, MT_Position, 0), (OnChange, MT_Attitude, 0), (OnChange, MT_Battery, 0)] @
      [Vehicle_snapshot], os1) \<and>
    (\<forall>osp. mb_inbox (view osp) = mb_outbox (view os1) \<and> mb_outbox (view osp) = [] \<longrightarrow>
      (\<exists>os2. proxy_main P A clock 24660 24661 0 osp =
          Some (0, [Proxy_ready 24660 24661 0, Reencrypt MT_Position 28 0, Proxy_stream 0], os2) \<and>
        (\<forall>osg. mb_inbox (view osg) = mb_outbox (view os2) \<longrightarrow>
          (\<exists>os3. gcs_main P A clock 24661 0 osg =
            Some (0, [Gcs_ready 24661 0, settled_state False False MT_Position, Gcs_snapshot 1], os3)))))"
proof -
  let ?line = "settled_state False False MT_Position"
  have D: "unat (0 :: u64) + 20100 < 2 ^ 64" by simp
  obtain os1 where vehicle: "vehicle_main P A 0 24660 0 os =
      Some (0, Vehicle_ready 0 24660 0 # map Vehicle_publish (vehicle_schedule 0) @
        [if (0 :: u64) = 0 then Vehicle_snapshot else Vehicle_stream 0], os1)"
    and sent: "stream A kin 0 (ground_lines 0) (mb_outbox (view os1))"
    by (rule mail_network.vehicle_run [OF net A hop1 D start])
  have schedule: "vehicle_schedule 0 = [(OnChange, MT_Position, 0), (OnChange, MT_Attitude, 0), (OnChange, MT_Battery, 0)]"
    by (simp add: vehicle_schedule_def lines_at_def)
  have lines: "ground_lines 0 = ?line # map (settled_state False False) [MT_Attitude, MT_Battery]"
    by (simp add: ground_lines_def states_at_def lines_at_def snapshot_at_def)
  have relay: "relay_lines 0 [?line] = [Reencrypt MT_Position 28 0]"
    by (simp add: settled_state_def message_consts)
  have proxy: "\<exists>os2. proxy_main P A clock 24660 24661 0 osp =
        Some (0, [Proxy_ready 24660 24661 0, Reencrypt MT_Position 28 0, Proxy_stream 0], os2) \<and>
      stream A kg 0 [?line] (mb_outbox (view os2))"
    if "mb_inbox (view osp) = mb_outbox (view os1)" "mb_outbox (view osp) = []" for osp
  proof -
    have "stream A kin 0 (?line # map (settled_state False False) [MT_Attitude, MT_Battery]) (mb_inbox (view osp))"
      using sent that(1) lines by simp
    from mail_network.proxy_run_once [OF net A hop1(1) hop2 this that(2), of 24660 24661] relay
    show ?thesis by auto
  qed
  have gcs: "\<exists>os3. gcs_main P A clock 24661 0 osg = Some (0, [Gcs_ready 24661 0, ?line, Gcs_snapshot 1], os3)"
    if "stream A kg 0 [?line] (mb_inbox (view osg))" for osg
    using mail_network.gcs_run_once [OF net hop2(1) that, of 24661] by blast
  show ?thesis
    using vehicle schedule proxy gcs by (intro exI [of _ os1]) (simp, metis)
qed

end
