(* ===== verification/Spec2Isabelle.thy ===== *)
theory Spec2Isabelle
  imports Crc16 Crypto Replay_Window Record_Layer Session_Runs Messages Handshake Qos_Queue Publisher Proxy Transport Adapter Vehicle_App Loops Relay_Apps Service_Runs Px4_Probe Command_Line Programs System_Run
begin

text \<open>
  A model and correctness proofs of new_mavlink, an authenticated, message-aware telemetry and
  command protocol for unmanned vehicles in C++ (\<^verbatim>\<open>include/new_mavlink\<close>, \<^verbatim>\<open>src\<close>, \<^verbatim>\<open>apps\<close>).

  \<^bold>\<open>The program.\<close> Two peers with a shared key run a HELLO, ACCEPT, FINISH handshake and get directional
  keys for a session and an epoch. A \<^verbatim>\<open>Session\<close> seals payloads into records (a 40-byte header with a
  checksum, an Ascon ciphertext, a tag) and opens received ones, in two steps: open without side
  effect, then commit the sequence number to a 64-entry replay window. A \<^verbatim>\<open>NativeEndpoint\<close> sends and
  receives records over one UDP socket. Payloads are typed. On the vehicle a \<^verbatim>\<open>StatePublisher\<close> turns
  updates of position, attitude and battery into deltas and periodic snapshots. A \<^verbatim>\<open>NativeProxy\<close>
  caches the last state of every stream, checks that deltas connect to it, asks for a resync when
  they do not, and forwards to subscribed links through bounded queues with three classes of
  service. The applications are the vehicle, a proxy service that ends the vehicle's session and
  re-encrypts for the ground station, the ground station, a demonstration of the publisher, and a
  probe that sends one allowlisted command to PX4 through the MAVLink 2 adapter.

  \<^bold>\<open>Theories, in the order of the program.\<close>
  \<^item> \<open>NM_Prelude\<close>: type synonyms, byte buffers (\<open>put_at\<close>, little-endian put and get), the simplification
    collections, numbered lists, and the locales \<open>invariant_system\<close> and \<open>final_state_system\<close> for
    state machines.
  \<^item> \<open>Wire\<close> (\<^verbatim>\<open>wire.hpp\<close>, \<^verbatim>\<open>wire.cpp\<close>): enumerations, constants, header, keys, type classification.
  \<^item> \<open>Crc16\<close> (\<^verbatim>\<open>crc16.cpp\<close>): the checksum, equal to the bit-serial shift register; detection of bursts.
  \<^item> \<open>Crypto\<close> (\<^verbatim>\<open>crypto.cpp\<close>): key derivation, nonces and the wrappers of the cipher; distinct contexts.
  \<^item> \<open>Replay_Window\<close> (\<^verbatim>\<open>class ReplayWindow\<close>): refinement of a set of admitted numbers; the locale
    \<open>replay_filter\<close>, interpreted on the window, is all the session layer relies on.
  \<^item> \<open>Record_Layer\<close> (\<^verbatim>\<open>record.cpp\<close>): header codec and \<^verbatim>\<open>class Session\<close>; sealed records open, opened
    records were sealed, damaged headers are refused, rekeying separates epochs.
  \<^item> \<open>Session_Runs\<close>: arbitrary sequences of session calls; no nonce is used and no record committed twice.
  \<^item> \<open>Messages\<close> (\<^verbatim>\<open>messages.cpp\<close>): all payload codecs as interpretations of the locales \<open>codec\<close> and
    \<open>strict_codec\<close>: round trips, canonical encodings, refusal of invalid values.
  \<^item> \<open>Handshake\<close> (\<^verbatim>\<open>session.cpp\<close>): both state machines as step relations that record the calls;
    completion, agreement on the transcript or an explicit MAC collision, and that an established end
    was given an authenticated message by one of its calls.
  \<^item> \<open>Qos_Queue\<close> (\<^verbatim>\<open>qos.cpp\<close>): the three-lane queue refines one list (locale \<open>message_queue\<close>); bounds,
    order of reliable messages, what a push displaces.
  \<^item> \<open>Publisher\<close> (\<^verbatim>\<open>publisher.cpp\<close>): the locale \<open>state_stream\<close> for its three streams; what a poll
    reports, the chain of generations, the schedule of snapshots.
  \<^item> \<open>Proxy\<close> (\<^verbatim>\<open>proxy.cpp\<close>): limits in every reachable state, exactly which records
    are forwarded to which queues, the cache, subscriptions.
  \<^item> \<open>Transport\<close> (\<^verbatim>\<open>transport.cpp\<close>): sockets and endpoints over an arbitrary operating system;
    descriptors are balanced, an endpoint refines its session, a datagram is received once.
  \<^item> \<open>Adapter\<close> (\<^verbatim>\<open>mavlink2_adapter.cpp\<close>): the command allowlist, the parser loop, telemetry ranges and
    the float conversion of angles, bit by bit.
  \<^item> \<open>Vehicle_App\<close> (\<^verbatim>\<open>vehicle_endpoint.cpp\<close>, \<^verbatim>\<open>publisher_demo.cpp\<close>), \<open>Relay_Apps\<close>
    (\<^verbatim>\<open>proxy_service.cpp\<close>, \<^verbatim>\<open>gcs_endpoint.cpp\<close>), \<open>Px4_Probe\<close> (\<^verbatim>\<open>px4_adapter_probe.cpp\<close>): the
    programs; termination, the schedule, re-encryption, and a state followed from the vehicle's
    publisher to the ground station's output, each down to the bytes given to \<^verbatim>\<open>sendto\<close> (\<open>sent_to\<close>).
  \<^item> \<open>Loops\<close> and \<open>Service_Runs\<close>: program loops (locale \<open>service_loop\<close>) and whole runs of the proxy
    service and the ground station: exit codes, printed lines, released descriptors, termination.
  \<^item> \<open>Command_Line\<close> and \<open>Programs\<close>: the applications from the text of their command line
    (\<^verbatim>\<open>strtoul\<close>, defaults, casts) to the text on standard output; numbers printed in decimal are
    read back, and the programs end whatever the arguments are.
  \<^item> \<open>System_Run\<close>: vehicle, proxy service and ground station run one after the other over a network
    described by the locale \<open>mail_network\<close>; every state the vehicle publishes is printed by the
    ground station, once and in order.
  \<^item> This theory: properties that join components, the handshake with the record layer and the
    publisher with the message proxy.

  \<^bold>\<open>How the code is read.\<close> Structures are records with the source's fields, enumerations datatypes
  (unknown values of a one-byte field are kept, as \<^verbatim>\<open>static_cast\<close> keeps them), integers words of
  their width, floats their IEEE-754 bit patterns, buffers byte lists, pointers options, and an
  out-parameter with a boolean return is an option or a sum with the error. Methods take and return
  the object. \<^verbatim>\<open>unordered_map\<close>s are association lists, and where the iteration order shows it is a
  parameter.

  \<^bold>\<open>Parameters.\<close> Ascon (\<open>ascon\<close>; hypotheses \<open>aead_correct\<close>: encryption adds 16 bytes
  and decryption inverts it, \<open>aead_tidy\<close>: decryption accepts only what encryption produces, \<open>prf_ok\<close>:
  the PRF gives 16 bytes), the MAVLink C library (\<open>mavlink\<close>,
  \<open>heartbeat_lib\<close>; \<open>frames_bounded\<close>: frames have 1 to 280 bytes), the socket calls (\<open>posix\<close>;
  \<open>posix_udp\<close>: what POSIX says of descriptors and of \<^verbatim>\<open>recvfrom\<close>; \<open>network_up\<close>: a network that takes
  what is sent; \<open>mail_network\<close>: one that also delivers in order), and the clock (\<open>time_flows\<close>,
  \<open>finite_traffic\<close>). Every hypothesis holds of a concrete
  instance used in the witnesses: \<open>xor_ascon\<close>, \<open>byte_lib\<close>, \<open>loopback\<close>, \<open>timed\<close>,
  \<open>post_office\<close>.

  \<^bold>\<open>Loops and bounds.\<close> Loops over data are structural or have a measure. The loops of the programs are
  \<open>partial_function (option)\<close>s, without fuel: \<open>None\<close> is a run that never ends. The vehicle ends for
  every duration up to 2 to the power 64 minus 100 ms; the proxy service and the ground station end
  if finitely many datagrams arrive and time passes while they wait; the probe ends if finitely many
  datagrams arrive.

  \<^bold>\<open>Not modelled.\<close> Sleeping, flushing of standard output, wiping of key material (no observable
  effect), move semantics; interleavings of the three applications (each run is modelled whole, on
  what the network holds for it); the values left in out-parameters
  by calls that return false where no caller reads them; metrics wrap around at their width and are
  modelled where the code counts. Ascon and MAVLink are submodules. \<^verbatim>\<open>tests\<close> exercise the modelled
  code and \<^verbatim>\<open>build\<close> is the output of CMake.
\<close>

section \<open>From the handshake to records\<close>

text \<open>
  What two key sets give: every record a session with the first seals opens at a session with the
  second that still accepts its sequence number, before its deadline, to the same header and payload.
\<close>

definition channel :: "ascon \<Rightarrow> DirectionalKeys \<Rightarrow> DirectionalKeys \<Rightarrow> bool" where
  "channel A k k' \<longleftrightarrow> (\<forall>s r h plain len output buf n s' now.
     s_keys s = k \<and> s_keys r = k' \<and> Session_seal A s h (Some plain) len output = (Inr (buf, n), s') \<and>
     length output = kMaxRecordBytes \<and> len \<le> length plain \<and> canonical_qos (h_qos h) \<and> live h now \<and>
     ReplayWindow_accepted (s_replay r) (h_sequence h) \<longrightarrow>
     (\<exists>rcd. Session_open_uncommitted A r (Some buf) n now = Inr rcd \<and> or_header rcd = sealed_header h len \<and>
        or_length rcd = len \<and> take len (or_payload rcd) = take len plain))"

lemma mirrored_channel: "aead_correct A \<Longrightarrow> mirrored k k' \<Longrightarrow> channel A k k'"
  unfolding channel_def live_def using seal_opens by blast

text \<open>
  C5: The handshake gives a working channel in both directions. With a correct cipher, distinct
  non-zero identifiers and distinct non-zero nonces, the four calls succeed, and every record that
  either end then seals under the keys it was left with opens at the other end, in whatever state
  the two sessions are, as long as the receiver still accepts the sequence number and the deadline
  has not passed.
\<close>

theorem handshake_opens_channel:
  assumes "aead_correct A" and "prf_ok A" and "valid_ids i r" and "cn \<noteq> 0" "sn \<noteq> 0" "cn \<noteq> sn"
  shows "\<exists>h I1 a R1 f I2 R2.
    InitiatorSession_start (new_InitiatorSession i r psk) cn = (SE_None, Some h, I1) \<and>
    ResponderSession_receive_hello A (new_ResponderSession r i psk) h sn = (SE_None, Some a, R1) \<and>
    InitiatorSession_accept A I1 a = (SE_None, Some f, I2) \<and>
    ResponderSession_finish A R1 f = (SE_None, R2) \<and>
    channel A (in_keys I2) (re_keys R2) \<and> channel A (re_keys R2) (in_keys I2)"
proof -
  obtain h I1 a R1 f I2 R2 where run:
    "InitiatorSession_start (new_InitiatorSession i r psk) cn = (SE_None, Some h, I1)"
    "ResponderSession_receive_hello A (new_ResponderSession r i psk) h sn = (SE_None, Some a, R1)"
    "InitiatorSession_accept A I1 a = (SE_None, Some f, I2)" "ResponderSession_finish A R1 f = (SE_None, R2)"
    and keys: "mirrored (in_keys I2) (re_keys R2)"
    using handshake_runs [OF assms, of psk] by blast
  have "channel A (in_keys I2) (re_keys R2)" "channel A (re_keys R2) (in_keys I2)"
    using mirrored_channel [OF assms(1)] keys mirrored_sym by blast+
  with run show ?thesis by blast
qed

lemma seal_succeeds:
  assumes "aead_correct A" and "valid_keys (s_keys s)" and "seal_guard s h (Some plain) len" and "len \<le> length plain"
    and "length output = kMaxRecordBytes"
  shows "\<exists>buf n s'. Session_seal A s h (Some plain) len output = (Inr (buf, n), s')"
proof -
  obtain c where "crypto_aead_encrypt A (take len plain)
      (header_image (sealed_header h len) (header_crc (sealed_header h len)))
      (make_nonce (dk_session (s_keys s)) (h_sequence h)) (dk_tx (s_keys s)) = Some c" "length c = len + kTagBytes"
    using encrypt_Some [OF assms(1)] assms(4) by (fastforce simp: wire_consts)
  then show ?thesis using assms(2,3) by (simp add: Session_seal_cases [OF assms(5)])
qed

theorem handshake_opens_channel_witness:
  "\<exists>(I2 :: InitiatorSession) (R2 :: ResponderSession) buf n s' rcd. in_established I2 \<and> re_established R2 \<and>
     Session_seal xor_ascon (new_Session (in_keys I2))
       (default_header\<lparr>h_type := MT_Heartbeat, h_source_id := 1, h_destination_id := 3, h_session_id := 1, h_epoch := 1\<rparr>)
       (Some [7, 8, 9]) 3 (replicate kMaxRecordBytes 0) = (Inr (buf, n), s') \<and>
     Session_open_uncommitted xor_ascon (new_Session (re_keys R2)) (Some buf) n 5 = Inr rcd \<and>
     take 3 (or_payload rcd) = [7, 8, 9]"
proof -
  let ?h = "default_header\<lparr>h_type := MT_Heartbeat, h_source_id := 1, h_destination_id := 3, h_session_id := 1, h_epoch := 1\<rparr>"
  have ids: "valid_ids 1 3" by (simp add: valid_ids_def)
  obtain h I1 a R1 f I2 R2 where run:
    "InitiatorSession_start (new_InitiatorSession 1 3 app_psk) 2 = (SE_None, Some h, I1)"
    "ResponderSession_receive_hello xor_ascon (new_ResponderSession 3 1 app_psk) h 3 = (SE_None, Some a, R1)"
    "InitiatorSession_accept xor_ascon I1 a = (SE_None, Some f, I2)"
    "ResponderSession_finish xor_ascon R1 f = (SE_None, R2)"
    and channel: "channel xor_ascon (in_keys I2) (re_keys R2)"
    using handshake_opens_channel [OF xor_ascon_correct xor_ascon_prf_ok ids, of 2 3 app_psk] by auto
  have start: "in_local_id I1 = 1" "in_peer_id I1 = 3" "in_psk I1 = app_psk"
    using run(1) by (auto simp: InitiatorSession_start_def new_InitiatorSession_def Let_def split: if_splits)
  have sid: "ac_session_id a = 1" "ac_epoch a = 1"
    using run(1,2) by (auto simp: InitiatorSession_start_def new_InitiatorSession_def ResponderSession_receive_hello_def
      Let_def split: if_splits option.splits prod.splits)
  obtain k1 k2 where derived: "derive_directional_keys xor_ascon app_psk app_session 1 3 = Some (k1, k2)"
      "in_keys I2 = k1" "in_established I2"
    using accept_okD [OF run(3)] start sid by (auto simp: app_session_def)
  then have keys: "valid_keys k1" using app_keys [of 1 3] by auto
  have guard: "seal_guard (new_Session k1) ?h (Some [7, 8, 9]) 3"
    using derive_directional_keys_SomeD [OF derived(1)]
    by (simp add: seal_guard_def new_Session_def app_session_def default_header_def wire_consts type_class_defs)
  obtain buf n s' where seal: "Session_seal xor_ascon (new_Session k1) ?h (Some [7, 8, 9]) 3 (replicate kMaxRecordBytes 0) =
      (Inr (buf, n), s')"
    using seal_succeeds [OF xor_ascon_correct _ guard, of "replicate kMaxRecordBytes 0"] keys by (auto simp: new_Session_def)
  moreover have "ReplayWindow_accepted (s_replay (new_Session (re_keys R2))) (h_sequence ?h)" by (rule fresh_accepts)
  ultimately obtain rcd where "Session_open_uncommitted xor_ascon (new_Session (re_keys R2)) (Some buf) n 5 = Inr rcd"
      "take 3 (or_payload rcd) = [7, 8, 9]"
    using channel [unfolded channel_def, rule_format, of "new_Session k1" "new_Session (re_keys R2)" ?h "[7, 8, 9]" 3
        "replicate kMaxRecordBytes 0" buf n s' 5] derived(2)
    by (auto simp: new_Session_def default_header_def canonical_qos_def Qos_of_u8_def live_def)
  moreover have "re_established R2" using run(4) by (auto simp: ResponderSession_finish_def split: if_splits)
  ultimately show ?thesis
    using seal [folded derived(2)] derived(3) by blast
qed

section \<open>From the publisher to the message proxy\<close>

text \<open>A record that carries a published message: same type, length and payload bytes.\<close>

definition record_of :: "PublishedMessage \<Rightarrow> OpenRecord \<Rightarrow> bool" where
  "record_of m opened \<longleftrightarrow> h_type (or_header opened) = published_type m \<and>
     or_length opened = m_length (pm_message m) \<and> length (or_payload opened) = kMaxPayloadBytes \<and>
     take (or_length opened) (or_payload opened) = take (or_length opened) (m_payload (pm_message m))"

lemma decode_position_meta: "decode_position (Some b) n = Some v \<Longrightarrow> decode_state_meta (Some b) 16 = Some (p_meta v)"
  by (auto simp: decode_position_def Let_def split: if_splits option.splits)

lemma carries_position:
  assumes "carries_state p snapshot m" and "published_type m = MT_Position"
  shows "m_length (pm_message m) = kPositionBytes" "length (m_payload (pm_message m)) = kMaxPayloadBytes"
    "decode_position (Some (m_payload (pm_message m))) kPositionBytes =
      Some ((hs_position (sp_state p))\<lparr>p_meta := stamped snapshot (p_meta (hs_position (sp_state p)))\<rparr>)"
  using assms by (auto simp: carries_state_def carries_header_def Let_def)

lemma ingress_meta:
  assumes "carries_state p snapshot m" and "published_type m = MT_Position" and "record_of m opened"
  shows "decode_state_meta (Some (m_payload (ingress_message opened))) 16 =
    Some (stamped snapshot (p_meta (hs_position (sp_state p))))"
proof -
  note m = carries_position [OF assms(1,2)]
  have len: "or_length opened = kPositionBytes" and payload: "length (or_payload opened) = kMaxPayloadBytes"
    using assms(3) m(1) by (simp_all add: record_of_def)
  have "take kPositionBytes (m_payload (ingress_message opened)) = take kPositionBytes (m_payload (pm_message m))"
    using assms(3) len payload m(2) by (simp add: record_of_def ingress_message_def put_at_0 message_consts wire_consts)
  moreover have "kPositionBytes \<le> length (m_payload (ingress_message opened))"
    using len payload by (simp add: ingress_message_def put_at_0 message_consts wire_consts)
  ultimately have "decode_position (Some (m_payload (ingress_message opened))) kPositionBytes =
      decode_position (Some (m_payload (pm_message m))) kPositionBytes"
    using position.decode_reads_prefix [of kPositionBytes "m_payload (ingress_message opened)"]
      position.decode_reads_prefix [of kPositionBytes "m_payload (pm_message m)"] m(2)
    by (simp add: message_consts wire_consts)
  then show ?thesis using decode_position_meta m(3) by fastforce
qed

text \<open>
  C30: What a polled position does at the proxy. Take any reachable publisher whose generation has not
  saturated, a position it reports, and a proxy that holds an older message of that stream and gets
  the report in an authentic record. A snapshot replaces the cached message exactly if it is newer,
  whatever was missed. A delta replaces it exactly if the publisher made one update since the cached
  one; after two or more updates between polls the delta is refused, nothing is forwarded, and a
  resync of that stream is requested.
\<close>

theorem polled_position_at_proxy:
  assumes run: "publisher_step\<^sup>*\<^sup>* (new_StatePublisher s d period) p"
    and poll: "0 < cap" "m \<in> set (fst (poll p now False cap))" "published_type m = MT_Position"
    and rcd: "record_of m opened" and auth: "authentic sessions px ingress opened"
    and cache: "map_of (np_cache px) (stream_key (ingress_message opened)) = Some old" "16 \<le> m_length old"
      "decode_state_meta (Some (m_payload old)) 16 = Some mo"
    and gen: "sp_position_generation p \<noteq> - 1" and has: "hs_has_position (sp_state p)"
    and res: "ingest sessions px ingress opened t = (ok, px')"
  shows "if snapshot_due p now
    then ok \<and> (if sp_position_generation p \<le> sm_generation mo then px' = px
      else map_of (np_cache px') (stream_key (ingress_message opened)) = Some (ingress_message opened))
    else if sm_generation mo = sp_position_generation p - 1
    then ok \<and> map_of (np_cache px') (stream_key (ingress_message opened)) = Some (ingress_message opened)
    else \<not> ok \<and> px' = request_resync px \<lparr>rs_type = MT_Position,
      rs_source_id = sm_source_id (p_meta (hs_position (sp_state p))),
      rs_resource_id = sm_resource_id (p_meta (hs_position (sp_state p)))\<rparr>"
proof -
  let ?due = "snapshot_due p now" and ?mp = "p_meta (hs_position (sp_state p))" and ?g = "sp_position_generation p"
  let ?key = "stream_key (ingress_message opened)" and ?m = "ingress_message opened"
  have carries: "carries_state p ?due m"
    using poll(1,2) poll_due [OF poll(1), of p now] poll_change [OF poll(1), of p now]
    by (cases ?due) (auto simp: list_all_iff)
  note meta = ingress_meta [OF carries poll(3) rcd]
  have "publisher_inv p" using publisher_runs.inv_reachable run by blast
  then have g: "sm_generation ?mp = ?g" "next_generation (sm_base_generation ?mp) = ?g" "?g \<noteq> 0"
    using has by (simp_all add: publisher_inv_def stream_inv_def)
  then have base: "sm_base_generation ?mp = ?g - 1"
    using gen by (auto simp: next_generation_def eq_diff_eq split: if_splits)
  have type: "h_type (or_header opened) = MT_Position" and len: "\<not> or_length opened < 16"
    using rcd poll(3) carries_position(1) [OF carries poll(3)] by (simp_all add: record_of_def message_consts)
  have newer: "\<not> ?g \<le> sm_generation mo" if "sm_generation mo = ?g - 1"
    using that g(3) unat_gt_0 [of ?g] by (simp add: word_le_nat_alt unat_minus_one)
  have "(ok, px') = (if \<not> ?due \<and> ?g - 1 \<noteq> sm_generation mo
      then (False, request_resync px \<lparr>rs_type = MT_Position, rs_source_id = sm_source_id ?mp, rs_resource_id = sm_resource_id ?mp\<rparr>)
      else if ?g \<le> sm_generation mo then (True, px)
      else forward_all (store_state px ?key ?m) ingress ?m t)"
    using res [symmetric] cache len meta g(1) base
    by (simp add: ingest_authentic [OF auth] type Let_def stamped_def)
  note outcome = this
  define fwd where "fwd = forward_all (store_state px ?key ?m) ingress ?m t"
  have fwd: "fst fwd" "map_of (np_cache (snd fwd)) ?key = Some ?m"
    unfolding fwd_def forward_all_frame by (simp_all add: forward_all_def Let_def store_state_def update_conv)
  consider (snap) ?due | (next_one) "\<not> ?due" "sm_generation mo = ?g - 1" | (missed) "\<not> ?due" "sm_generation mo \<noteq> ?g - 1"
    by blast
  then show ?thesis
  proof cases
    case snap
    then have "(ok, px') = (if ?g \<le> sm_generation mo then (True, px) else fwd)" using outcome by (simp add: fwd_def)
    then show ?thesis using snap fwd by (cases "?g \<le> sm_generation mo") (auto simp: prod_eq_iff)
  next
    case next_one
    then have "(ok, px') = fwd" using outcome newer by (simp add: fwd_def)
    then show ?thesis using next_one fwd by (simp add: prod_eq_iff)
  next
    case missed
    then show ?thesis using outcome by simp
  qed
qed

abbreviation example_report :: Position where
  "example_report \<equiv> (hs_position (sp_state example_publisher))\<lparr>p_meta :=
     stamped False (p_meta (hs_position (sp_state example_publisher)))\<rparr>"

lemma example_report_ok: "position_ok example_report" "hs_has_position (sp_state example_publisher)"
    "sp_position_generation example_publisher = 1"
  by (simp_all add: example_publisher_def update_position_def changed_position_def new_StatePublisher_def
    default_state_def Let_def position_ok_def meta_ok_def stamped_def example_position_def example_meta_def
    next_generation_def)

lemma example_report_key:
  "sm_source_id (p_meta example_report) = sm_source_id (p_meta example_position)"
  "sm_resource_id (p_meta example_report) = sm_resource_id (p_meta example_position)"
  by (simp_all add: example_publisher_def update_position_def changed_position_def new_StatePublisher_def
    default_state_def Let_def stamped_def example_position_def example_meta_def)

theorem polled_position_at_proxy_witness:
  "\<not> fst (ingest example_sessions (example_cached 4) 1 (position_record example_report) 10) \<and>
   np_resync (snd (ingest example_sessions (example_cached 4) 1 (position_record example_report) 10)) =
     [\<lparr>rs_type = MT_Position, rs_source_id = 9, rs_resource_id = 1\<rparr>]"
proof -
  let ?old = "ingress_message (position_record example_position)" and ?px = "example_cached 4"
  let ?res = "ingest example_sessions ?px 1 (position_record example_report) 10"
  have run: "publisher_step\<^sup>*\<^sup>* (new_StatePublisher 1 3 0) example_publisher"
    unfolding example_publisher_def by (rule r_into_rtranclp, rule publisher_step.position)
  have out: "map published_type (fst (poll example_publisher 7 False 3)) = [MT_Position]"
      "list_all (carries_state example_publisher False) (fst (poll example_publisher 7 False 3))"
    using poll_change [of 3 example_publisher 7] example_publisher_not_due example_publisher_wanted by simp_all
  then obtain m where m: "m \<in> set (fst (poll example_publisher 7 False 3))" "published_type m = MT_Position"
    "carries_state example_publisher False m"
    by (auto simp: list_all_iff map_eq_Cons_conv)
  note pos = carries_position [OF m(3,2)]
  have rcd: "record_of m (position_record example_report)"
    using m(2) pos position.decode_sound [OF _ pos(3)] position.wire_length [OF example_report_ok(1)]
    by (simp add: record_of_def position_record_def message_consts wire_consts)
  have auth: "authentic example_sessions ?px 1 (position_record example_report)"
    using example_authentic [OF example_report_ok(1), of ?px] by (simp add: example_cached_eq two_links_eq)
  have cache: "map_of (np_cache ?px) (stream_key (ingress_message (position_record example_report))) = Some ?old"
    using ingress_position(4) [OF example_report_ok(1)] ingress_position(4) [OF example_position_ok] example_report_key
    by (simp add: example_cached_eq)
  have old: "16 \<le> m_length ?old" "decode_state_meta (Some (m_payload ?old)) 16 = Some (p_meta example_position)"
    using ingress_position(3) [OF example_position_ok] by (simp_all add: message_consts)
  have "sm_generation (p_meta example_position) \<noteq> sp_position_generation example_publisher - 1"
    by (simp add: example_report_ok(3) example_position_def example_meta_def)
  then have "\<not> fst ?res \<and> snd ?res = request_resync ?px \<lparr>rs_type = MT_Position, rs_source_id = 9, rs_resource_id = 1\<rparr>"
    using polled_position_at_proxy [OF run _ m(1,2) rcd auth cache old _ example_report_ok(2) surjective_pairing]
      example_publisher_not_due example_report_key
    by (simp add: example_report_ok(3) example_position_def example_meta_def stamped_def)
  then show ?thesis by (simp add: request_resync_def example_cached_eq)
qed

end
